(* ===== verification/Prelude.thy ===== *)
theory Prelude
  imports Main "HOL-Library.Word"
begin

text \<open>
  Shared vocabulary of the development: Go byte slices as lists of 8-bit words, Go strings
  as HOL strings, the result type of a Go call, and the generic lemmas on lists that the
  component theories use.

  A Go function that returns \<open>(T, error)\<close> and may panic is a function into
  \<open>(error, T) go\<close>: \<open>Ok v\<close> is a nil error with the value, \<open>Err e\<close> a non-nil error
  (the other results of the call are then the zero values, which no caller in the
  repository reads), and \<open>Panic m\<close> a run-time panic.
\<close>

type_synonym byte = "8 word"
type_synonym bytes = "8 word list"

datatype ('e, 'a) go = Ok 'a | Err 'e | Panic string

named_theorems codec_simps \<open>rewrite rules for encoders and decoders\<close>
named_theorems heap_simps \<open>closed forms of the operations on the store\<close>

text \<open>The conversion \<open>[]byte("...")\<close> of an ASCII string constant.\<close>

definition string_bytes :: "string \<Rightarrow> bytes" where
  "string_bytes s = map of_char s"

lemma length_string_bytes [simp]: "length (string_bytes s) = length s"
  by (simp add: string_bytes_def)

text \<open>The slice expression \<open>buf[lo:hi]\<close>: out of range is a panic.\<close>

definition slice_expr :: "bytes \<Rightarrow> int \<Rightarrow> int \<Rightarrow> ('e, bytes) go" where
  "slice_expr buf lo hi =
     (if 0 \<le> lo \<and> lo \<le> hi \<and> hi \<le> int (length buf)
      then Ok (take (nat (hi - lo)) (drop (nat lo) buf))
      else Panic ''slice bounds out of range'')"

section \<open>Lists\<close>

lemma take_drop_append_mid [simp]:
  "n = length xs \<Longrightarrow> k = length ys \<Longrightarrow> take k (drop n (xs @ ys @ zs)) = ys"
  by simp

lemma list_eq_take_mid:
  assumes "drop m buf = ys @ zs"
  shows "take (length ys) (drop m buf) = ys" and "drop (m + length ys) buf = zs"
proof -
  show "take (length ys) (drop m buf) = ys" using assms by simp
  have "drop (length ys) (drop m buf) = zs" using assms by simp
  then show "drop (m + length ys) buf = zs" by (simp add: add.commute)
qed

lemma drop_Cons_nth: "n < length xs \<Longrightarrow> drop n xs = xs ! n # drop (Suc n) xs"
  by (rule Cons_nth_drop_Suc [symmetric])

lemma append_eq_append_same_suffix_length:
  assumes "xs @ us = ys @ vs" and "length us = length vs"
  shows "xs = ys \<and> us = vs"
proof -
  have "length xs = length ys"
    using assms by (metis add_right_imp_eq length_append)
  then show ?thesis using assms by simp
qed

section \<open>Uniquely decodable codes\<close>

text \<open>
  The contract of a self-delimiting encoder: two encodings that start the same input are the
  same and leave the same rest. Concatenations of such encodings are injective and, for a
  fixed number of fields, prefix free.
\<close>

locale prefix_code =
  fixes enc :: "'a \<Rightarrow> 'b list" and valid :: "'a \<Rightarrow> bool"
  assumes enc_nonempty: "valid x \<Longrightarrow> enc x \<noteq> []"
    and enc_split: "valid x \<Longrightarrow> valid y \<Longrightarrow> enc x @ us = enc y @ vs \<Longrightarrow> x = y \<and> us = vs"
begin

lemma enc_inj: "valid x \<Longrightarrow> valid y \<Longrightarrow> enc x = enc y \<longleftrightarrow> x = y"
  using enc_split [of x y "[]" "[]"] by auto

lemma concat_split:
  assumes "length xs = length ys" and "list_all valid xs" and "list_all valid ys"
    and "concat (map enc xs) @ us = concat (map enc ys) @ vs"
  shows "xs = ys \<and> us = vs"
  using assms
proof (induction xs ys rule: list_induct2)
  case (Cons x xs y ys)
  then have "x = y \<and> concat (map enc xs) @ us = concat (map enc ys) @ vs"
    using enc_split [of x y "concat (map enc xs) @ us" "concat (map enc ys) @ vs"] by simp
  then show ?case using Cons by simp
qed simp

lemma concat_inj:
  assumes "list_all valid xs" and "list_all valid ys"
    and "concat (map enc xs) = concat (map enc ys)"
  shows "xs = ys"
  using assms
proof (induction xs arbitrary: ys)
  case Nil
  then show ?case by (cases ys) (auto simp: enc_nonempty)
next
  case (Cons x xs)
  then obtain y ys' where ys: "ys = y # ys'"
    by (cases ys) (auto simp: enc_nonempty)
  then have "x = y \<and> concat (map enc xs) = concat (map enc ys')"
    using Cons.prems enc_split [of x y] by simp
  then show ?case using Cons ys by simp
qed

lemma concat_prefix_free:
  assumes "length xs = length ys" and "list_all valid xs" and "list_all valid ys"
    and "concat (map enc xs) @ us = concat (map enc ys)"
  shows "xs = ys \<and> us = []"
  using concat_split [OF assms(1-3), of us "[]"] assms(4) by simp

end

end
