(* ===== verification/Errors.thy ===== *)
theory Errors
  imports Prelude
begin

text \<open>
  The error values of errors.go. The exported sentinels are a datatype; an error built by
  \<open>fmt.Errorf\<close> is the list of the pieces of its format string, literal text or a
  \<open>%w\<close> operand, so that both its message and the errors it wraps are functions of it.
  \<open>External\<close> stands for an error value that comes from outside the package (the
  randomness source).
\<close>

datatype sentinel =
    ErrInvalidInput | ErrEmptySessionID | ErrRandomness | ErrMessage | ErrStateUsed
  | ErrSessionClosed | ErrAbort | ErrPeerShareEncoding | ErrPeerShareIdentity
  | ErrConfirmationFailed

datatype gerror = Sentinel sentinel | External string | Errorf "fmt_part list"
  and fmt_part = Txt string | Wrap gerror

fun sentinel_text :: "sentinel \<Rightarrow> string" where
  "sentinel_text ErrInvalidInput = ''cpace: invalid input''"
| "sentinel_text ErrEmptySessionID = ''cpace: empty session id''"
| "sentinel_text ErrRandomness = ''cpace: randomness failure''"
| "sentinel_text ErrMessage = ''cpace: invalid message''"
| "sentinel_text ErrStateUsed = ''cpace: state already used''"
| "sentinel_text ErrSessionClosed = ''cpace: session closed''"
| "sentinel_text ErrAbort = ''cpace: protocol abort''"
| "sentinel_text ErrPeerShareEncoding = ''cpace: peer share encoding''"
| "sentinel_text ErrPeerShareIdentity = ''cpace: peer share identity''"
| "sentinel_text ErrConfirmationFailed = ''cpace: key confirmation failed''"

text \<open>The \<open>Error()\<close> text of an error value, and \<open>errors.Is\<close> against a sentinel.\<close>

fun error_text :: "gerror \<Rightarrow> string" and part_text :: "fmt_part \<Rightarrow> string" where
  "error_text (Sentinel s) = sentinel_text s"
| "error_text (External m) = m"
| "error_text (Errorf ps) = concat (map part_text ps)"
| "part_text (Txt t) = t"
| "part_text (Wrap e) = error_text e"

fun errors_Is :: "gerror \<Rightarrow> sentinel \<Rightarrow> bool" and part_Is :: "fmt_part \<Rightarrow> sentinel \<Rightarrow> bool" where
  "errors_Is (Sentinel s) t = (s = t)"
| "errors_Is (External m) t = False"
| "errors_Is (Errorf ps) t = list_ex (\<lambda>p. part_Is p t) ps"
| "part_Is (Txt m) t = False"
| "part_Is (Wrap e) t = errors_Is e t"

text \<open>The most frequent format, \<open>fmt.Errorf("%w: <text>", sentinel)\<close>.\<close>

abbreviation errorf :: "sentinel \<Rightarrow> string \<Rightarrow> gerror" where
  "errorf s m \<equiv> Errorf [Wrap (Sentinel s), Txt '': '', Txt m]"

abbreviation errorf_wrap :: "sentinel \<Rightarrow> sentinel \<Rightarrow> gerror" where
  "errorf_wrap s t \<equiv> Errorf [Wrap (Sentinel s), Txt '': '', Wrap (Sentinel t)]"

type_synonym 'a result = "(gerror, 'a) go"

end
