(* ===== verification/Ristretto.thy ===== *)
theory Ristretto
  imports Errors "HOL-Library.Numeral_Type"
begin

text \<open>
  The interface of the third-party package github.com/gtank/ristretto255, and of the source of
  randomness, as the package uses them. Neither is under the repository: both are parameters
  of the model, and what the code relies on is stated as named predicates on the parameters,
  each of them documented behaviour of the library.
\<close>

section \<open>Parameters\<close>

text \<open>
  \<open>'s\<close> is the type of scalars and \<open>'e\<close> that of group elements. A \<open>SetCanonicalBytes\<close> or
  \<open>SetUniformBytes\<close> that returns an error is \<open>None\<close>; \<open>Equal\<close> returns 1 or 0.
\<close>

record ('s, 'e) ristretto =
  NewIdentityElement :: 'e
  SetUniformBytes :: "bytes \<Rightarrow> 'e option"
  Element_SetCanonicalBytes :: "bytes \<Rightarrow> 'e option"
  Element_Bytes :: "'e \<Rightarrow> bytes"
  Element_ScalarMult :: "'s \<Rightarrow> 'e \<Rightarrow> 'e"
  NewScalar :: 's
  Scalar_SetCanonicalBytes :: "bytes \<Rightarrow> 's option"
  Scalar_Equal :: "'s \<Rightarrow> 's \<Rightarrow> int"

text \<open>
  \<open>io.ReadFull(r, buf)\<close> on a reader in state \<open>'r\<close>: the bytes written to the front of the
  buffer, the error if there is one, and the next state of the reader.
\<close>

type_synonym 'r reader = "'r \<Rightarrow> nat \<Rightarrow> (bytes \<times> string option) \<times> 'r"

section \<open>Documented behaviour\<close>

text \<open>
  Element encodings: 32 bytes, decoding inverts encoding, the decoder accepts canonical
  encodings only, and the identity is encoded as 32 zero bytes.
\<close>

definition encoding_laws :: "('s, 'e) ristretto \<Rightarrow> bool" where
  "encoding_laws R \<longleftrightarrow>
     (\<forall>e. length (Element_Bytes R e) = 32) \<and>
     (\<forall>e. Element_SetCanonicalBytes R (Element_Bytes R e) = Some e) \<and>
     (\<forall>b e. Element_SetCanonicalBytes R b = Some e \<longrightarrow> Element_Bytes R e = b) \<and>
     Element_Bytes R (NewIdentityElement R) = replicate 32 0"

text \<open>\<open>SetUniformBytes\<close> fails only for an input that is not 64 bytes long.\<close>

definition uniform_law :: "('s, 'e) ristretto \<Rightarrow> bool" where
  "uniform_law R \<longleftrightarrow> (\<forall>b. length b = 64 \<longrightarrow> SetUniformBytes R b \<noteq> None)"

text \<open>Scalar multiplication is the action of a commutative ring.\<close>

definition commuting_law :: "('s, 'e) ristretto \<Rightarrow> bool" where
  "commuting_law R \<longleftrightarrow>
     (\<forall>s t e. Element_ScalarMult R s (Element_ScalarMult R t e)
            = Element_ScalarMult R t (Element_ScalarMult R s e))"

text \<open>Scalar multiplication maps the identity to the identity.\<close>

definition identity_law :: "('s, 'e) ristretto \<Rightarrow> bool" where
  "identity_law R \<longleftrightarrow> (\<forall>s. Element_ScalarMult R s (NewIdentityElement R) = NewIdentityElement R)"

text \<open>The group has prime order: only the zero scalar annihilates a non-identity element.\<close>

definition prime_order_law :: "('s, 'e) ristretto \<Rightarrow> bool" where
  "prime_order_law R \<longleftrightarrow>
     (\<forall>s e. Element_ScalarMult R s e = NewIdentityElement R \<longrightarrow>
        s = NewScalar R \<or> e = NewIdentityElement R)"

text \<open>
  \<open>Equal\<close> decides equality; the scalar order lies above \<open>2^252\<close>, so 32 bytes with the top four
  bits clear are a canonical scalar.
\<close>

definition scalar_laws :: "('s, 'e) ristretto \<Rightarrow> bool" where
  "scalar_laws R \<longleftrightarrow>
     (\<forall>s t. Scalar_Equal R s t = 1 \<longleftrightarrow> s = t) \<and>
     (\<forall>b. length b = 32 \<and> b ! 31 < 16 \<longrightarrow> Scalar_SetCanonicalBytes R b \<noteq> None)"

section \<open>A concrete instance\<close>

text \<open>
  The integers modulo 7 under multiplication, with the least residue as the first byte of an
  encoding: a group of prime order that satisfies every law, for the witnesses.
\<close>

definition residue_bytes :: "7 \<Rightarrow> bytes" where
  "residue_bytes e = of_int (Rep_bit1 e) # replicate 31 0"

definition residues :: "(7, 7) ristretto" where
  "residues = \<lparr>
     NewIdentityElement = 0,
     SetUniformBytes = (\<lambda>b. if length b = 64 then Some 1 else None),
     Element_SetCanonicalBytes = (\<lambda>b. List.find (\<lambda>e. residue_bytes e = b) [0, 1, 2, 3, 4, 5, 6]),
     Element_Bytes = residue_bytes,
     Element_ScalarMult = (*),
     NewScalar = 0,
     Scalar_SetCanonicalBytes = (\<lambda>b. if length b = 32 then Some (of_nat (unat (b ! 0))) else None),
     Scalar_Equal = (\<lambda>s t. if s = t then 1 else 0)\<rparr>"

lemma residue_cases:
  fixes e :: 7
  obtains "e = 0" | "e = 1" | "e = 2" | "e = 3" | "e = 4" | "e = 5" | "e = 6"
proof (rule bit1_cases [of e])
  fix z assume z: "e = of_int z" "0 \<le> z" "z < int CARD(7)"
  then have "z = 0 \<or> z = 1 \<or> z = 2 \<or> z = 3 \<or> z = 4 \<or> z = 5 \<or> z = 6" by auto
  then show thesis using z(1) that by auto
qed

lemma Rep_residues [simp]:
  "Rep_bit1 (0 :: 7) = 0" "Rep_bit1 (1 :: 7) = 1" "Rep_bit1 (2 :: 7) = 2" "Rep_bit1 (3 :: 7) = 3" "Rep_bit1 (4 :: 7) = 4"
  "Rep_bit1 (5 :: 7) = 5" "Rep_bit1 (6 :: 7) = 6"
  by (simp_all add: bit1.Rep_numeral bit1.Rep_0 bit1.Rep_1)

lemma residue_bytes_inject: "residue_bytes d = residue_bytes e \<longleftrightarrow> d = e"
  by (cases d rule: residue_cases; cases e rule: residue_cases) (simp_all add: residue_bytes_def)

lemma find_residue: "List.find (\<lambda>d. residue_bytes d = residue_bytes e) [0, 1, 2, 3, 4, 5, 6] = Some e"
  by (cases e rule: residue_cases) (simp_all add: residue_bytes_inject)

lemma residues_encoding: "encoding_laws residues"
  unfolding encoding_laws_def
proof (intro conjI allI impI)
  fix b and e :: 7
  show "length (Element_Bytes residues e) = 32" by (simp add: residues_def residue_bytes_def)
  show "Element_SetCanonicalBytes residues (Element_Bytes residues e) = Some e"
    using find_residue [of e] by (simp only: residues_def ristretto.simps)
  assume "Element_SetCanonicalBytes residues b = Some e"
  then have "List.find (\<lambda>d. residue_bytes d = b) [0, 1, 2, 3, 4, 5, 6] = Some e"
    by (simp only: residues_def ristretto.simps)
  then have "residue_bytes e = b" unfolding find_Some_iff by blast
  then show "Element_Bytes residues e = b" by (simp only: residues_def ristretto.simps)
next
  have "residue_bytes 0 = replicate 32 0" by (simp add: residue_bytes_def numeral_eq_Suc)
  then show "Element_Bytes residues (NewIdentityElement residues) = replicate 32 0"
    by (simp only: residues_def ristretto.simps)
qed

lemma residues_laws:
  "uniform_law residues" "commuting_law residues" "prime_order_law residues" "scalar_laws residues"
  "identity_law residues"
proof -
  have "s = 0 \<or> e = 0" if "s * e = 0" for s e :: 7
    using that by (cases s rule: residue_cases; cases e rule: residue_cases) simp_all
  then show "prime_order_law residues" by (simp add: prime_order_law_def residues_def)
  show "uniform_law residues" "commuting_law residues" "scalar_laws residues" "identity_law residues"
    by (simp_all add: uniform_law_def commuting_law_def scalar_laws_def identity_law_def residues_def mult.left_commute)
qed

end
