(* ===== verification/Length_Value.thy ===== *)
theory Length_Value
  imports Errors
begin

text \<open>
  length_value.go: the LEB128 length prefix and the length-value concatenation that every
  hashed or framed field goes through.
\<close>

unbundle bit_operations_syntax

section \<open>Operations\<close>

text \<open>
  \<open>appendLEB128\<close> works on a \<open>uint64\<close>: the loop emits the low seven bits, with the
  continuation bit while the shifted rest is not zero.
\<close>

function appendLEB128 :: "bytes \<Rightarrow> 64 word \<Rightarrow> bytes" where
  "appendLEB128 dst n =
     (let b = (ucast (n AND 0x7f) :: byte);
          n' = drop_bit 7 n;
          b' = (if n' \<noteq> 0 then b OR 0x80 else b);
          dst' = dst @ [b']
      in if n' = 0 then dst' else appendLEB128 dst' n')"
  by pat_completeness auto

lemma unat_drop_bit_7: "unat (drop_bit 7 (n :: 64 word)) = unat n div 128"
  by (simp add: unat_drop_bit_eq) (simp add: drop_bit_eq_div)

termination appendLEB128
proof (relation "measure (\<lambda>(dst, n). unat n)")
  fix n b n' b' and dst dst' :: bytes
  assume n': "n' = drop_bit 7 n" and nz: "n' \<noteq> (0 :: 64 word)"
  have "unat n' \<noteq> 0" using nz by (simp add: unat_eq_0)
  then have "unat n' < unat n" by (simp add: n' unat_drop_bit_7)
  then show "((dst', n'), (dst, n)) \<in> measure (\<lambda>(dst, n). unat n)" by simp
qed simp

declare appendLEB128.simps [simp del]

text \<open>
  \<open>readLEB128\<close> accumulates into a Go \<open>int\<close> (64 bits, signed): the accumulator is a
  64-bit word, the final comparison with \<open>1<<(7*i)\<close> is the signed one, and the value
  returned is read back as a signed integer. The loop \<open>for i := range maxBytes\<close> is the
  recursion on \<open>i\<close>.
\<close>

function readLEB128_from :: "bytes \<Rightarrow> nat \<Rightarrow> nat \<Rightarrow> nat \<Rightarrow> 64 word \<Rightarrow> (int \<times> nat) result" where
  "readLEB128_from buf maxBytes i off n =
     (if i \<ge> maxBytes then Err (errorf ErrMessage ''malformed LEB128'')
      else if off \<ge> length buf then Err (errorf ErrMessage ''truncated LEB128'')
      else
        let b = buf ! off;
            n' = n OR push_bit (7 * i) (ucast (b AND 0x7f))
        in if b AND 0x80 = 0
           then (if i > 0 \<and> n' <s push_bit (7 * i) 1
                 then Err (errorf ErrMessage ''non-canonical LEB128'')
                 else Ok (sint n', Suc off))
           else readLEB128_from buf maxBytes (Suc i) (Suc off) n')"
  by pat_completeness auto
termination
  by (relation "measure (\<lambda>(buf, maxBytes, i, off, n). maxBytes - i)") auto

declare readLEB128_from.simps [simp del]

definition readLEB128 :: "bytes \<Rightarrow> nat \<Rightarrow> nat \<Rightarrow> (int \<times> nat) result" where
  "readLEB128 buf off maxBytes = readLEB128_from buf maxBytes 0 off 0"

text \<open>\<open>leb128LenInt\<close> shifts a Go \<open>int\<close> right until it is below \<open>0x80\<close>.\<close>

function leb128LenInt :: "int \<Rightarrow> int" where
  "leb128LenInt n = (if n \<ge> 0x80 then 1 + leb128LenInt (drop_bit 7 n) else 1)"
  by pat_completeness auto
termination
  by (relation "measure nat") (auto simp: drop_bit_eq_div)

declare leb128LenInt.simps [simp del]

definition lengthValueLen :: "int \<Rightarrow> int" where
  "lengthValueLen n = leb128LenInt n + n"

definition appendLengthValue :: "bytes \<Rightarrow> bytes \<Rightarrow> bytes" where
  "appendLengthValue dst data = appendLEB128 dst (of_nat (length data)) @ data"

text \<open>
  \<open>lvCat\<close> first sums the field lengths for the capacity of its buffer and then appends the
  fields; the capacity does not change the value, and \<open>lvCat_total\<close> records it.
\<close>

definition lvCat_total :: "bytes list \<Rightarrow> int" where
  "lvCat_total args = foldl (\<lambda>total arg. total + lengthValueLen (int (length arg))) 0 args"

definition lvCat :: "bytes list \<Rightarrow> bytes" where
  "lvCat args = foldl appendLengthValue [] args"

section \<open>The reference encoding\<close>

text \<open>
  \<open>leb n\<close> is the base-128 notation of a natural number, least significant digit first;
  \<open>appendLEB128\<close> computes it, and the decoder accepts exactly it.
\<close>

fun leb :: "nat \<Rightarrow> bytes" where
  "leb n = (if n < 128 then [of_nat n] else of_nat (n mod 128 + 128) # leb (n div 128))"

declare leb.simps [simp del]

lemma leb_small: "n < 128 \<Longrightarrow> leb n = [of_nat n]"
  by (simp add: leb.simps)

lemma leb_big: "\<not> n < 128 \<Longrightarrow> leb n = of_nat (n mod 128 + 128) # leb (n div 128)"
  by (subst leb.simps) simp

lemma and_7f: "(a :: 'a::len word) AND 0x7f = of_nat (unat a mod 128)"
proof -
  have "a AND 0x7f = take_bit 7 a" by (simp add: take_bit_eq_mask mask_eq_exp_minus_1)
  also have "\<dots> = of_nat (take_bit 7 (unat a))"
    by (rule bit_word_eqI) (simp add: bit_take_bit_iff bit_of_nat_iff bit_unsigned_iff)
  finally show ?thesis by (simp add: take_bit_eq_mod)
qed

lemma ucast_and_7f: "(ucast ((n :: 64 word) AND 0x7f) :: byte) = of_nat (unat n mod 128)"
  by (simp add: and_7f unsigned_of_nat take_bit_eq_mod)

lemma bit_byte_7: "bit (b :: byte) 7 \<longleftrightarrow> 128 \<le> unat b"
proof -
  have "unat b < 256" using unsigned_less [of b, where ?'a = nat] by simp
  then have "unat b div 128 = 0 \<or> unat b div 128 = 1" by arith
  moreover have "bit b 7 \<longleftrightarrow> bit (unat b) 7" by (simp add: bit_unsigned_iff)
  moreover have "bit (unat b) 7 \<longleftrightarrow> odd (unat b div 128)" by (simp add: bit_iff_odd)
  ultimately show ?thesis by (auto simp: div_eq_0_iff)
qed

lemma and_80: "((b :: byte) AND 0x80 = 0) \<longleftrightarrow> unat b < 128"
  using and_exp_eq_0_iff_not_bit [of b 7] by (simp add: bit_byte_7 not_le)

lemma or_80: "c < 128 \<Longrightarrow> (of_nat c :: byte) OR 0x80 = of_nat (c + 128)"
proof -
  assume c: "c < 128"
  have "\<not> bit (of_nat c :: byte) 7" using c by (simp add: bit_byte_7 unat_of_nat)
  then have "(of_nat c :: byte) AND 0x80 = 0"
    using and_exp_eq_0_iff_not_bit [of "of_nat c :: byte" 7] by simp
  then show ?thesis by (simp add: disjunctive_add_eq_or [symmetric])
qed

lemma sint_of_nat: "x < 2 ^ 63 \<Longrightarrow> sint (of_nat x :: 64 word) = int x"
  by (simp add: signed_of_nat signed_take_bit_int_eq_self)

lemma or_push_bit:
  assumes "acc < 2 ^ (7 * i)" and "c < 128" and "i \<le> 8"
  shows "(of_nat acc :: 64 word) OR push_bit (7 * i) (of_nat c) = of_nat (acc + c * 2 ^ (7 * i))"
proof -
  have "(of_nat acc :: 64 word) AND push_bit (7 * i) (of_nat c) = 0"
  proof (rule bit_word_eqI)
    fix n
    have "\<not> bit acc n" if "7 * i \<le> n"
    proof -
      have "acc < 2 ^ n" using assms(1) that by (meson order_less_le_trans one_le_numeral power_increasing)
      then show ?thesis by (simp add: bit_iff_odd)
    qed
    then show "bit ((of_nat acc :: 64 word) AND push_bit (7 * i) (of_nat c)) n = bit (0 :: 64 word) n"
      by (auto simp: bit_and_iff bit_push_bit_iff bit_of_nat_iff)
  qed
  then have "(of_nat acc :: 64 word) OR push_bit (7 * i) (of_nat c) = of_nat acc + push_bit (7 * i) (of_nat c)"
    by (rule disjunctive_add_eq_or [symmetric])
  then show ?thesis by (simp add: push_bit_eq_mult)
qed


lemma appendLEB128_leb: "appendLEB128 dst n = dst @ leb (unat n)"
proof (induction dst n rule: appendLEB128.induct)
  case (1 dst n)
  have z: "drop_bit 7 n = 0 \<longleftrightarrow> unat n < 128"
    using unat_drop_bit_7 [of n] by (auto simp: unat_eq_0 [symmetric] div_eq_0_iff)
  show ?case
  proof (cases "unat n < 128")
    case True
    then show ?thesis
      by (simp add: appendLEB128.simps [of dst n] Let_def z ucast_and_7f leb_small)
  next
    case False
    then have "appendLEB128 dst n
        = appendLEB128 (dst @ [of_nat (unat n mod 128 + 128)]) (drop_bit 7 n)"
      by (simp add: appendLEB128.simps [of dst n] Let_def z ucast_and_7f or_80 del: of_nat_add)
    also have "\<dots> = dst @ [of_nat (unat n mod 128 + 128)] @ leb (unat (drop_bit 7 n))"
      using "1.IH" False by (simp add: z ucast_and_7f or_80 del: of_nat_add)
    also have "\<dots> = dst @ leb (unat n)"
      using leb_big [OF False] by (simp add: unat_drop_bit_7)
    finally show ?thesis .
  qed
qed

lemma leb_not_Nil [simp]: "leb n \<noteq> []"
  by (subst leb.simps) simp

lemma length_leb: "int (length (leb n)) = leb128LenInt (int n)"
proof (induction n rule: leb.induct)
  case (1 n)
  then show ?case
    by (cases "n < 128")
      (simp_all add: leb_small leb_big leb128LenInt.simps [of "int n"] drop_bit_eq_div zdiv_int)
qed

lemma length_leb_le: "n < 2 ^ (7 * k) \<Longrightarrow> 0 < k \<Longrightarrow> length (leb n) \<le> k"
proof (induction n arbitrary: k rule: leb.induct)
  case (1 n)
  show ?case
  proof (cases "n < 128")
    case True
    then show ?thesis using "1.prems" by (simp add: leb_small)
  next
    case False
    then obtain k' where k: "k = Suc k'" and "0 < k'"
      using "1.prems" by (cases k; cases "k - 1") auto
    have "n div 128 < 2 ^ (7 * k')"
      using "1.prems"(1) by (simp add: k power_add less_mult_imp_div_less)
    then have "length (leb (n div 128)) \<le> k'" using "1.IH" False \<open>0 < k'\<close> by blast
    then show ?thesis using False by (simp add: leb_big k)
  qed
qed

lemma less_leb_length: "n < 2 ^ (7 * length (leb n))"
proof (induction n rule: leb.induct)
  case (1 n)
  show ?case
  proof (cases "n < 128")
    case False
    then have "n div 128 < 2 ^ (7 * length (leb (n div 128)))" by (rule "1.IH")
    then have "n < 128 * 2 ^ (7 * length (leb (n div 128)))"
      by (simp add: div_less_iff_less_mult mult.commute)
    then show ?thesis using False by (simp add: leb_big power_add)
  qed (simp add: leb_small)
qed

text \<open>The first byte of an encoding, as the decoder takes it apart.\<close>

lemma leb_hd_simps:
  assumes "unat (hd (leb n)) = h"
  shows "h mod 128 = n mod 128" and "h < 128 \<longleftrightarrow> n < 128"
proof -
  have "h = (if n < 128 then n else n mod 128 + 128)"
    using assms by (cases "n < 128") (simp_all add: leb_small leb_big unat_of_nat del: of_nat_add)
  then show "h mod 128 = n mod 128" and "h < 128 \<longleftrightarrow> n < 128" by auto
qed

definition acc_ok :: "nat \<Rightarrow> nat \<Rightarrow> bool" where
  "acc_ok i acc \<longleftrightarrow> acc < 2 ^ (7 * i)"

lemma acc_ok_step: "acc_ok i acc \<Longrightarrow> c < 128 \<Longrightarrow> acc_ok (Suc i) (acc + c * 2 ^ (7 * i))"
proof -
  assume "acc_ok i acc" and c: "c < 128"
  then have "acc + c * 2 ^ (7 * i) < (c + 1) * 2 ^ (7 * i)" by (simp add: acc_ok_def)
  also have "\<dots> \<le> 128 * 2 ^ (7 * i)" using c by (intro mult_right_mono) auto
  finally show ?thesis by (simp add: acc_ok_def power_add)
qed

lemma acc_ok_63: "acc_ok i acc \<Longrightarrow> i \<le> 9 \<Longrightarrow> acc < 2 ^ 63"
proof -
  assume "acc_ok i acc" "i \<le> 9"
  moreover have "(2::nat) ^ (7 * i) \<le> 2 ^ 63" using \<open>i \<le> 9\<close> by (intro power_increasing) auto
  ultimately show ?thesis unfolding acc_ok_def by linarith
qed

text \<open>One turn of the decoder's loop, with the accumulator as a natural number.\<close>

lemma readLEB128_from_step:
  assumes "acc_ok i acc" and "i < mb" and "mb \<le> 9" and "off < length buf"
    and "h = unat (buf ! off)"
  shows "readLEB128_from buf mb i off (of_nat acc) =
    (if h < 128
     then (if 0 < i \<and> h = 0 then Err (errorf ErrMessage ''non-canonical LEB128'')
           else Ok (int (acc + h * 2 ^ (7 * i)), Suc off))
     else readLEB128_from buf mb (Suc i) (Suc off) (of_nat (acc + h mod 128 * 2 ^ (7 * i))))"
proof -
  define acc' where "acc' = acc + h mod 128 * 2 ^ (7 * i)"
  have i8: "i \<le> 8" using assms by simp
  have acc': "acc_ok (Suc i) acc'" unfolding acc'_def by (rule acc_ok_step [OF assms(1)]) simp
  then have b63: "acc' < 2 ^ 63" by (rule acc_ok_63) (use i8 in simp)
  have w: "(of_nat acc :: 64 word) OR push_bit (7 * i) (ucast (buf ! off AND 0x7f)) = of_nat acc'"
    using or_push_bit [of acc i "h mod 128"] assms(1) i8
    by (simp add: acc'_def acc_ok_def and_7f assms(5) unsigned_of_nat take_bit_eq_mod)
  have p: "push_bit (7 * i) (1 :: 64 word) = of_nat (2 ^ (7 * i))"
    by (simp add: push_bit_eq_mult)
  have "(2::nat) ^ (7 * i) < 2 ^ 63" using i8 by (intro power_strict_increasing) auto
  then have sp: "sint (push_bit (7 * i) (1 :: 64 word)) = 2 ^ (7 * i)"
    unfolding p by (subst sint_of_nat) auto
  have s: "((of_nat acc' :: 64 word) <s push_bit (7 * i) 1) \<longleftrightarrow> acc' < 2 ^ (7 * i)"
    unfolding word_sless_alt sp sint_of_nat [OF b63]
    by (metis of_nat_less_iff of_nat_numeral of_nat_power)
  have z: "acc' < 2 ^ (7 * i) \<longleftrightarrow> h mod 128 = 0"
    using assms(1) by (cases "h mod 128") (auto simp: acc'_def acc_ok_def)
  show ?thesis
    unfolding readLEB128_from.simps [of buf mb i off] Let_def w s z and_80 assms(5) [symmetric]
      sint_of_nat [OF b63] acc'_def [symmetric]
    using assms(2,4) by (auto simp: acc'_def)
qed

lemma readLEB128_from_leb:
  assumes "acc_ok i acc" and "drop off buf = leb v @ rest" and "i + length (leb v) \<le> mb"
    and "mb \<le> 9" and "0 < i \<Longrightarrow> 0 < v"
  shows "readLEB128_from buf mb i off (of_nat acc)
    = Ok (int (acc + v * 2 ^ (7 * i)), off + length (leb v))"
  using assms
proof (induction v arbitrary: i acc off rule: leb.induct)
  case (1 v)
  have off: "off < length buf"
    using "1.prems"(2) by (metis append_is_Nil_conv drop_all leb_not_Nil linorder_not_less)
  have im: "i < mb" using "1.prems"(3) leb_not_Nil [of v] by (cases "leb v") auto
  have hd: "buf ! off = hd (leb v)"
    using "1.prems"(2) off by (metis hd_append2 hd_drop_conv_nth leb_not_Nil)
  define h where "h = unat (buf ! off)"
  have h: "h mod 128 = v mod 128" "h < 128 \<longleftrightarrow> v < 128"
    using leb_hd_simps [of v h] by (simp_all add: h_def hd)
  note step = readLEB128_from_step [OF "1.prems"(1) im "1.prems"(4) off h_def]
  show ?case
  proof (cases "v < 128")
    case True
    then have "h = v" using h by simp
    then show ?thesis using step True "1.prems"(5) by (auto simp: leb_small)
  next
    case False
    let ?acc' = "acc + v mod 128 * 2 ^ (7 * i)"
    have rest: "drop (Suc off) buf = leb (v div 128) @ rest"
      using "1.prems"(2) False off by (simp add: leb_big drop_Suc_Cons flip: Cons_nth_drop_Suc)
    have "readLEB128_from buf mb (Suc i) (Suc off) (of_nat ?acc')
        = Ok (int (?acc' + (v div 128) * 2 ^ (7 * Suc i)), Suc off + length (leb (v div 128)))"
      using False "1.prems"(3,4) rest
      by (intro "1.IH") (auto simp: leb_big acc_ok_step [OF "1.prems"(1)] div_greater_zero_iff)
    moreover have "?acc' + (v div 128) * 2 ^ (7 * Suc i)
        = acc + (v mod 128 + 128 * (v div 128)) * 2 ^ (7 * i)"
      by (simp only: power_add distrib_right mult_Suc_right) simp
    ultimately have "readLEB128_from buf mb (Suc i) (Suc off) (of_nat ?acc')
        = Ok (int (acc + v * 2 ^ (7 * i)), Suc off + length (leb (v div 128)))"
      by (simp only: mod_mult_div_eq)
    then show ?thesis using step False h
      by (simp add: leb_big del: of_nat_add of_nat_mult of_nat_power)
  qed
qed

lemma readLEB128_from_Ok:
  assumes "readLEB128_from buf mb i off (of_nat acc) = Ok (n, off')" and "acc_ok i acc" and "mb \<le> 9"
  shows "\<exists>v. n = int (acc + v * 2 ^ (7 * i)) \<and> off' = off + length (leb v) \<and> off' \<le> length buf
    \<and> take (length (leb v)) (drop off buf) = leb v \<and> i + length (leb v) \<le> mb \<and> (0 < i \<longrightarrow> 0 < v)"
  using assms
proof (induction "mb - i" arbitrary: i off acc)
  case 0
  then show ?case by (simp add: readLEB128_from.simps)
next
  case (Suc k)
  have im: "i < mb" using Suc.hyps(2) by simp
  have off: "off < length buf"
    using Suc.prems(1) im by (auto simp: readLEB128_from.simps [of buf mb i] split: if_splits)
  define h where "h = unat (buf ! off)"
  have h256: "h < 256" using unsigned_less [of "buf ! off", where ?'a = nat] by (simp add: h_def)
  have hb: "buf ! off = of_nat h" by (simp add: h_def)
  note step = readLEB128_from_step [OF Suc.prems(2) im Suc.prems(3) off h_def]
  show ?case
  proof (cases "h < 128")
    case True
    then have "n = int (acc + h * 2 ^ (7 * i))" "off' = Suc off" "0 < i \<longrightarrow> 0 < h"
      using Suc.prems(1) step by (auto split: if_splits)
    moreover have "take (length (leb h)) (drop off buf) = leb h"
      using off True hb by (simp add: leb_small drop_Cons_nth)
    ultimately show ?thesis using True off im by (intro exI [of _ h]) (simp add: leb_small)
  next
    case False
    let ?acc' = "acc + h mod 128 * 2 ^ (7 * i)"
    have "readLEB128_from buf mb (Suc i) (Suc off) (of_nat ?acc') = Ok (n, off')"
      using Suc.prems(1) step False by simp
    moreover have "k = mb - Suc i" using Suc.hyps(2) by simp
    moreover have "acc_ok (Suc i) ?acc'" using Suc.prems(2) by (simp add: acc_ok_step)
    ultimately obtain v where v: "n = int (?acc' + v * 2 ^ (7 * Suc i))"
      "off' = Suc off + length (leb v)" "off' \<le> length buf" "0 < v"
      "take (length (leb v)) (drop (Suc off) buf) = leb v" "Suc i + length (leb v) \<le> mb"
      using Suc.hyps(1) [of "Suc i" "Suc off" ?acc'] Suc.prems(3) by auto
    let ?v = "h mod 128 + 128 * v"
    have big: "\<not> ?v < 128" using v(4) by simp
    have lebv: "leb ?v = of_nat h # leb v"
      using h256 False by (simp add: leb_big [OF big]) (simp add: le_mod_geq)
    have "take (length (leb ?v)) (drop off buf) = leb ?v"
      using off v(5) by (simp add: lebv drop_Cons_nth hb [symmetric])
    moreover have "n = int (acc + ?v * 2 ^ (7 * i))"
      using v(1) by (simp add: algebra_simps power_add)
    ultimately show ?thesis using v by (intro exI [of _ ?v]) (simp add: lebv)
  qed
qed

section \<open>Length-value fields\<close>

lemma leb_split: "leb m @ us = leb n @ vs \<Longrightarrow> m = n \<and> us = vs"
proof (induction m arbitrary: n rule: leb.induct)
  case (1 m)
  have hd: "hd (leb m) = hd (leb n)"
    using "1.prems" by (metis hd_append2 leb_not_Nil)
  then have h: "m mod 128 = n mod 128" "m < 128 \<longleftrightarrow> n < 128"
    using leb_hd_simps [of m "unat (hd (leb m))"] leb_hd_simps [of n "unat (hd (leb m))"] by auto
  show ?case
  proof (cases "m < 128")
    case True
    then show ?thesis using "1.prems" h by (simp add: leb_small)
  next
    case False
    then have "leb (m div 128) @ us = leb (n div 128) @ vs"
      using "1.prems" h by (simp add: leb_big)
    then have "m div 128 = n div 128 \<and> us = vs" using "1.IH" False by blast
    then show ?thesis using h(1) by (metis mod_mult_div_eq)
  qed
qed

interpretation leb: prefix_code leb "\<lambda>_. True"
  by unfold_locales (auto dest: leb_split)

definition go_slice :: "bytes \<Rightarrow> bool" where
  "go_slice d \<longleftrightarrow> length d < 2 ^ 63"

definition lv :: "bytes \<Rightarrow> bytes" where
  "lv d = leb (length d) @ d"

interpretation lv: prefix_code lv "\<lambda>_. True"
proof unfold_locales
  fix x y us vs assume "lv x @ us = lv y @ vs"
  then have "leb (length x) @ (x @ us) = leb (length y) @ (y @ vs)" by (simp add: lv_def)
  then have "length x = length y" "x @ us = y @ vs" using leb_split by blast+
  then show "x = y \<and> us = vs" by simp
qed (simp add: lv_def)

lemma appendLengthValue_lv: "go_slice d \<Longrightarrow> appendLengthValue dst d = dst @ lv d"
  by (simp add: appendLengthValue_def appendLEB128_leb lv_def go_slice_def unat_of_nat)

lemma foldl_appendLengthValue:
  "list_all go_slice args \<Longrightarrow> foldl appendLengthValue dst args = dst @ concat (map lv args)"
  by (induction args arbitrary: dst) (simp_all add: appendLengthValue_lv)

lemma lvCat_lv: "list_all go_slice args \<Longrightarrow> lvCat args = concat (map lv args)"
  by (simp add: lvCat_def foldl_appendLengthValue)

lemma length_lv: "int (length (lv d)) = lengthValueLen (int (length d))"
  by (simp add: lv_def lengthValueLen_def length_leb)

lemma lvCat_total_sum: "foldl (\<lambda>total arg. total + lengthValueLen (int (length arg))) k args
    = k + int (length (concat (map lv args)))"
  by (induction args arbitrary: k) (simp_all add: length_lv [symmetric])

lemma lvCat_capacity: "list_all go_slice args \<Longrightarrow> lvCat_total args = int (length (lvCat args))"
  by (simp add: lvCat_total_def lvCat_total_sum lvCat_lv)

lemma lvCat_inj:
  assumes "list_all go_slice xs" and "list_all go_slice ys" and "lvCat xs = lvCat ys"
  shows "xs = ys"
  using assms by (intro lv.concat_inj) (simp_all add: lvCat_lv list.pred_True)

section \<open>Properties\<close>

text \<open>C31. LEB128 round trip: reading back what \<open>appendLEB128\<close> wrote, anywhere in a buffer, gives
  the number and the offset behind it, when the number fits the \<open>7 * maxBytes\<close> bits that the
  reader accepts (at most nine bytes, so that the signed accumulator never overflows).\<close>

theorem readLEB128_appendLEB128:
  assumes "v < 2 ^ (7 * k)" and "0 < k" and "k \<le> 9"
  shows "readLEB128 (pre @ appendLEB128 [] (of_nat v) @ rest) (length pre) k
    = Ok (int v, length pre + length (appendLEB128 [] (of_nat v)))"
proof -
  have "acc_ok k v" using assms(1) by (simp add: acc_ok_def)
  then have "v < 2 ^ 63" using assms(3) by (rule acc_ok_63)
  then have "unat (of_nat v :: 64 word) = v" by (simp add: unat_of_nat)
  then have app: "appendLEB128 [] (of_nat v) = leb v" by (simp add: appendLEB128_leb)
  show ?thesis
    using readLEB128_from_leb [of 0 0 "length pre" "pre @ leb v @ rest" v rest k]
      length_leb_le [OF assms(1,2)] assms(3)
    by (simp add: readLEB128_def app acc_ok_def)
qed

theorem readLEB128_appendLEB128_witness:
  "readLEB128 ([7] @ appendLEB128 [] (of_nat 65536) @ [9]) (length [7 :: byte]) 3
    = Ok (int 65536, length [7 :: byte] + length (appendLEB128 [] (of_nat 65536)))"
  by (rule readLEB128_appendLEB128) simp_all

text \<open>C32. The decoder is canonical and stays inside the buffer: whenever \<open>readLEB128\<close> succeeds, the
  bytes it consumed are the one encoding that \<open>appendLEB128\<close> produces for the value, the value
  is not negative and below \<open>2^(7*maxBytes)\<close>, and the new offset is at most the buffer's
  length.\<close>

theorem readLEB128_canonical:
  assumes "readLEB128 buf off k = Ok (n, off')" and "k \<le> 9"
  shows "0 \<le> n \<and> n < 2 ^ (7 * k) \<and> off < off' \<and> off' \<le> off + k \<and> off' \<le> length buf
    \<and> take (off' - off) (drop off buf) = appendLEB128 [] (of_int n)"
proof -
  obtain v where v: "n = int v" "off' = off + length (leb v)" "off' \<le> length buf"
    "take (length (leb v)) (drop off buf) = leb v" "length (leb v) \<le> k"
    using readLEB128_from_Ok [of buf k 0 off 0 n off'] assms
    by (auto simp: readLEB128_def acc_ok_def)
  have bound: "v < 2 ^ (7 * k)" using less_leb_length [of v] v(5)
    by (meson order_less_le_trans one_le_numeral power_increasing mult_le_mono2)
  then have "v < 2 ^ 63" using acc_ok_63 [of k v] assms(2) by (simp add: acc_ok_def)
  then have "appendLEB128 [] (of_int n) = leb v"
    by (simp add: v(1) appendLEB128_leb unat_of_nat)
  then show ?thesis using v bound by (simp add: Suc_le_eq)
qed

theorem readLEB128_canonical_witness:
  "readLEB128 [0x80, 0x80, 0x04, 0xff] 0 3 = Ok (65536, 3) \<and>
   (0 \<le> (65536 :: int) \<and> (65536 :: int) < 2 ^ (7 * 3) \<and> (0::nat) < 3 \<and> (3::nat) \<le> 0 + 3
    \<and> 3 \<le> length [0x80, 0x80, 0x04, 0xff :: byte]
    \<and> take (3 - 0) (drop 0 [0x80, 0x80, 0x04, 0xff]) = appendLEB128 [] (of_int 65536))"
proof -
  have "readLEB128 [0x80, 0x80, 0x04, 0xff] 0 3 = Ok (65536, 3)"
    by (simp add: readLEB128_def readLEB128_from.simps)
  with readLEB128_canonical [OF this] show ?thesis by simp
qed

end
