(* ===== verification/Store.thy ===== *)
theory Store
  imports Ristretto Length_Value
begin

text \<open>
  The memory that the package's objects live in. Byte slices, scalars, group elements and the
  mutable structs are cells of one store, numbered by a single counter; a Go pointer or slice
  is the number of its cell, or \<open>None\<close> for nil. Every slice that the package keeps, clears or
  returns covers its whole backing array, so a slice is its array. Aliasing is thus explicit:
  two values share memory exactly when they hold the same number, as copies of an
  \<open>Initiator\<close> or of a \<open>Session\<close> do.

  A \<open>[]byte\<close> of public data that a function computes and nobody keeps, clears or returns is a plain value in
  the model. What holds a secret, or depends on one, has a cell even when the code drops its last pointer to it:
  the receivers of scalar multiplications, the tags, and the key that an HMAC object keeps. Working memory inside the
  functions of Go's library and of the group package, such as digest states and the keys that \<open>hkdf.Key\<close> derives, has none.
  The struct types are those of core.go, transcript.go, terminal_state.go and session.go; a \<open>sync.Mutex\<close> has no cell here,
  it is the subject of the theory of concurrent callers.
\<close>

type_synonym slice = "nat option"

section \<open>Structs\<close>

record irTranscript =
  tr_transcript :: slice
  tr_ya :: slice
  tr_ada :: slice
  tr_yb :: slice
  tr_adb :: slice

record initiatorCore =
  ic_scalar :: "nat option"
  ic_sid :: slice
  ic_ya :: slice
  ic_ada :: slice
  ic_peerID :: slice

record responderCore =
  rc_isk :: slice
  rc_transcript :: irTranscript
  rc_sid :: slice
  rc_peerID :: slice

record singleUseState =
  su_used :: bool
  su_core :: "nat option"
  su_uninitialized :: string

record sessionState =
  ss_closed :: bool
  ss_isk :: slice

section \<open>The store\<close>

record ('s, 'e, 'r) store =
  brk :: nat
  mem :: "nat \<Rightarrow> bytes"
  scalars :: "nat \<Rightarrow> 's"
  elements :: "nat \<Rightarrow> 'e"
  icores :: "nat \<Rightarrow> initiatorCore"
  rcores :: "nat \<Rightarrow> responderCore"
  ustates :: "nat \<Rightarrow> singleUseState"
  sessions :: "nat \<Rightarrow> sessionState"
  rand :: 'r

definition zeros :: "bytes \<Rightarrow> bytes" where
  "zeros b = map (\<lambda>_. 0) b"

text \<open>Reading a slice; a nil slice has no bytes.\<close>

definition content :: "(nat \<Rightarrow> bytes) \<Rightarrow> slice \<Rightarrow> bytes" where
  "content m sl = (case sl of None \<Rightarrow> [] | Some a \<Rightarrow> m a)"

abbreviation rd :: "('s, 'e, 'r) store \<Rightarrow> slice \<Rightarrow> bytes" where
  "rd s sl \<equiv> content (mem s) sl"

definition alloc :: "bytes \<Rightarrow> ('s, 'e, 'r) store \<Rightarrow> slice \<times> ('s, 'e, 'r) store" where
  "alloc v s = (Some (brk s), s\<lparr>brk := Suc (brk s), mem := (mem s)(brk s := v)\<rparr>)"

definition alloc_scalar :: "'s \<Rightarrow> ('s, 'e, 'r) store \<Rightarrow> nat option \<times> ('s, 'e, 'r) store" where
  "alloc_scalar v s = (Some (brk s), s\<lparr>brk := Suc (brk s), scalars := (scalars s)(brk s := v)\<rparr>)"

definition alloc_element :: "'e \<Rightarrow> ('s, 'e, 'r) store \<Rightarrow> nat option \<times> ('s, 'e, 'r) store" where
  "alloc_element v s = (Some (brk s), s\<lparr>brk := Suc (brk s), elements := (elements s)(brk s := v)\<rparr>)"

text \<open>
  bytes.go and the clearing helpers of crypto.go. \<open>clone\<close> of nil is nil; the model hands out
  one cell number per call, used or not, which no code can observe.
\<close>

definition clone :: "slice \<Rightarrow> ('s, 'e, 'r) store \<Rightarrow> slice \<times> ('s, 'e, 'r) store" where
  "clone sl s =
     (case sl of
        None \<Rightarrow> (None, snd (alloc [] s))
      | Some a \<Rightarrow> alloc (mem s a) s)"

definition clearBytes :: "slice \<Rightarrow> ('s, 'e, 'r) store \<Rightarrow> ('s, 'e, 'r) store" where
  "clearBytes sl s =
     (case sl of
        None \<Rightarrow> s
      | Some a \<Rightarrow> s\<lparr>mem := (mem s)(a := zeros (mem s a))\<rparr>)"

definition clearScalar :: "('s, 'e) ristretto \<Rightarrow> nat option \<Rightarrow> ('s, 'e, 'r) store \<Rightarrow> ('s, 'e, 'r) store" where
  "clearScalar R p s =
     (case p of
        None \<Rightarrow> s
      | Some a \<Rightarrow> s\<lparr>scalars := (scalars s)(a := NewScalar R)\<rparr>)"

definition clearElement :: "('s, 'e) ristretto \<Rightarrow> nat option \<Rightarrow> ('s, 'e, 'r) store \<Rightarrow> ('s, 'e, 'r) store" where
  "clearElement R p s =
     (case p of
        None \<Rightarrow> s
      | Some a \<Rightarrow> s\<lparr>elements := (elements s)(a := NewIdentityElement R)\<rparr>)"

section \<open>Closed forms\<close>

text \<open>
  A clone of an unknown slice, as one expression: the slice is nil exactly when the original
  is, and its cell holds the original's bytes in either case.
\<close>

definition slice_at :: "slice \<Rightarrow> nat \<Rightarrow> slice" where
  "slice_at sl a = map_option (\<lambda>_. a) sl"

lemma clone_closed [heap_simps]:
  "clone sl s = (slice_at sl (brk s), s\<lparr>brk := Suc (brk s), mem := (mem s)(brk s := rd s sl)\<rparr>)"
  by (cases sl) (simp_all add: clone_def alloc_def slice_at_def content_def)

lemma alloc_closed [heap_simps]:
  "alloc v s = (Some (brk s), s\<lparr>brk := Suc (brk s), mem := (mem s)(brk s := v)\<rparr>)"
  "alloc_scalar x s = (Some (brk s), s\<lparr>brk := Suc (brk s), scalars := (scalars s)(brk s := x)\<rparr>)"
  "alloc_element y s = (Some (brk s), s\<lparr>brk := Suc (brk s), elements := (elements s)(brk s := y)\<rparr>)"
  by (simp_all add: alloc_def alloc_scalar_def alloc_element_def)

lemma content_Some [simp]: "content m (Some a) = m a"
  and content_None [simp]: "content m None = []"
  by (simp_all add: content_def)

lemma content_upd: "content (m(a := v)) sl = (if sl = Some a then v else content m sl)"
  by (cases sl) auto

lemma content_at: "content m (slice_at sl a) = (if sl = None then [] else m a)"
  by (cases sl) (simp_all add: slice_at_def)

lemma content_at_upd [simp]:
  "content (m(a := content m' sl)) (slice_at sl a) = content m' sl"
  "a \<noteq> b \<Longrightarrow> content (m(a := v)) (slice_at sl b) = content m (slice_at sl b)"
  by (cases sl; simp add: slice_at_def)+

lemma zeros_simps [simp]:
  "zeros [] = []" "length (zeros b) = length b" "zeros (zeros b) = zeros b"
  by (simp_all add: zeros_def)

lemma zeros_eq: "zeros b = replicate (length b) 0"
  by (simp add: zeros_def map_replicate_const)

lemma clear_closed [heap_simps]:
  "clearBytes (Some a) s = s\<lparr>mem := (mem s)(a := zeros (mem s a))\<rparr>"
  "clearBytes None s = s"
  "clearScalar R (Some a) s = s\<lparr>scalars := (scalars s)(a := NewScalar R)\<rparr>"
  "clearScalar R None s = s"
  "clearElement R (Some a) s = s\<lparr>elements := (elements s)(a := NewIdentityElement R)\<rparr>"
  "clearElement R None s = s"
  by (simp_all add: clearBytes_def clearScalar_def clearElement_def)

lemma clearBytes_slice_at [heap_simps]:
  "(sl = None \<Longrightarrow> mem s a = []) \<Longrightarrow>
    clearBytes (slice_at sl a) s = s\<lparr>mem := (mem s)(a := zeros (mem s a))\<rparr>"
  by (cases sl) (simp_all add: clearBytes_def slice_at_def fun_upd_idem)

text \<open>The cells of a list of slices, and clearing them one after the other.\<close>

definition cells :: "slice list \<Rightarrow> nat set" where
  "cells sls = {a. Some a \<in> set sls}"

lemma cells_simps [simp]:
  "cells [] = {}" "cells (None # sls) = cells sls" "cells (Some a # sls) = insert a (cells sls)"
  by (auto simp: cells_def)

lemma mem_clearBytes: "mem (clearBytes sl s) a = (if sl = Some a then zeros (mem s a) else mem s a)"
  by (cases sl) (simp_all add: clear_closed)

lemma clearBytes_simps [simp]:
  "brk (clearBytes sl s) = brk s" "scalars (clearBytes sl s) = scalars s" "elements (clearBytes sl s) = elements s"
  "icores (clearBytes sl s) = icores s" "rcores (clearBytes sl s) = rcores s" "ustates (clearBytes sl s) = ustates s"
  "sessions (clearBytes sl s) = sessions s" "rand (clearBytes sl s) = rand s"
  by (cases sl; simp add: clear_closed)+

lemma fold_clearBytes:
  "fold clearBytes sls s = s\<lparr>mem := (\<lambda>a. if a \<in> cells sls then zeros (mem s a) else mem s a)\<rparr>"
proof (induction sls arbitrary: s)
  case (Cons sl sls)
  have "clearBytes sl s = s\<lparr>mem := (\<lambda>a. if sl = Some a then zeros (mem s a) else mem s a)\<rparr>"
    by (cases sl) (auto simp: clear_closed intro!: store.fold_congs)
  then show ?case using Cons by (auto simp: cells_def intro!: store.fold_congs)
qed simp

lemma slice_at_simps [simp]:
  "slice_at None a = None" "slice_at (Some b) a = Some a"
  "slice_at sl a = None \<longleftrightarrow> sl = None" "slice_at (slice_at sl a) b = slice_at sl b"
  "slice_at sl a = Some b \<longleftrightarrow> sl \<noteq> None \<and> a = b" "Some b = slice_at sl a \<longleftrightarrow> sl \<noteq> None \<and> b = a"
  by (cases sl; simp add: slice_at_def)+

section \<open>Frames\<close>

text \<open>
  \<open>valid s sl\<close>: the cell of the slice has been handed out. \<open>keeps W s t\<close>: the step from
  \<open>s\<close> to \<open>t\<close> hands out new cells only, and no cell that existed before changes its bytes,
  except those in \<open>W\<close>.
\<close>

definition valid :: "('s, 'e, 'r) store \<Rightarrow> slice \<Rightarrow> bool" where
  "valid s sl \<longleftrightarrow> (\<forall>a. sl = Some a \<longrightarrow> a < brk s)"

lemma cells_lt: "\<forall>sl \<in> set sls. valid s sl \<Longrightarrow> x \<in> cells sls \<Longrightarrow> x < brk s"
  by (auto simp: cells_def valid_def)

definition keeps :: "nat set \<Rightarrow> ('s, 'e, 'r) store \<Rightarrow> ('s, 'e, 'r) store \<Rightarrow> bool" where
  "keeps W s t \<longleftrightarrow> brk s \<le> brk t \<and> (\<forall>a < brk s. a \<notin> W \<longrightarrow> mem t a = mem s a)"

text \<open>
  \<open>scrubs W s t\<close>: every cell handed out after \<open>s\<close> holds only zero bytes in \<open>t\<close>, or was never
  written, except those in \<open>W\<close>.
\<close>

definition scrubs :: "nat set \<Rightarrow> ('s, 'e, 'r) store \<Rightarrow> ('s, 'e, 'r) store \<Rightarrow> bool" where
  "scrubs W s t \<longleftrightarrow> (\<forall>a \<ge> brk s. a \<notin> W \<longrightarrow> mem t a = mem s a \<or> zeros (mem t a) = mem t a)"

lemma scrubs_refl [simp]: "scrubs W s s"
  by (simp add: scrubs_def)

lemma scrubs_mono: "scrubs V s t \<Longrightarrow> V \<subseteq> W \<Longrightarrow> scrubs W s t"
  by (auto simp: scrubs_def)

lemma scrubs_trans:
  assumes "keeps {} t u" and "brk s \<le> brk t" and "scrubs V s t" and "scrubs W t u"
  shows "scrubs (V \<union> W) s u"
  unfolding scrubs_def
proof (intro allI impI)
  fix a assume a: "brk s \<le> a" "a \<notin> V \<union> W"
  then have st: "mem t a = mem s a \<or> zeros (mem t a) = mem t a" using assms(3) by (auto simp: scrubs_def)
  have "mem u a = mem t a \<or> zeros (mem u a) = mem u a"
    using assms(1,4) a by (cases "a < brk t") (auto simp: scrubs_def keeps_def)
  then show "mem u a = mem s a \<or> zeros (mem u a) = mem u a" using st by auto
qed

lemma valid_None [simp]: "valid s None"
  and valid_Some [simp]: "valid s (Some a) \<longleftrightarrow> a < brk s"
  by (simp_all add: valid_def)

lemma valid_slice_at: "valid s (slice_at sl a) \<longleftrightarrow> sl = None \<or> a < brk s"
  by (cases sl) simp_all

lemma keeps_refl [simp]: "keeps W s s"
  by (simp add: keeps_def)

lemma keeps_trans:
  "keeps W s t \<Longrightarrow> keeps W' t u \<Longrightarrow> (\<And>a. a \<in> W' \<Longrightarrow> a < brk s \<Longrightarrow> a \<in> W) \<Longrightarrow> keeps W s u"
  unfolding keeps_def by (metis order_less_le_trans order_trans)

lemma keeps_rd: "keeps {} s t \<Longrightarrow> valid s sl \<Longrightarrow> rd t sl = rd s sl"
  by (cases sl) (simp_all add: keeps_def)

text \<open>A valid slice is not one of the cells still to be handed out.\<close>

lemma valid_fresh [simp]: "valid s sl \<Longrightarrow> brk s \<le> a \<Longrightarrow> sl \<noteq> Some a \<and> Some a \<noteq> sl"
  by (auto simp: valid_def)

lemma content_old [simp]: "valid s sl \<Longrightarrow> brk s \<le> a \<Longrightarrow> content (m(a := v)) sl = content m sl"
  by (auto simp: content_upd)

lemma valid_keeps: "keeps W s t \<Longrightarrow> valid s sl \<Longrightarrow> valid t sl"
  by (auto simp: valid_def keeps_def)

lemma valid_upd [simp]:
  "valid (s\<lparr>mem := m\<rparr>) sl = valid s sl" "valid (s\<lparr>scalars := x\<rparr>) sl = valid s sl"
  "valid (s\<lparr>elements := e\<rparr>) sl = valid s sl" "valid (s\<lparr>icores := ic\<rparr>) sl = valid s sl"
  "valid (s\<lparr>rcores := rc\<rparr>) sl = valid s sl" "valid (s\<lparr>ustates := u\<rparr>) sl = valid s sl"
  "valid (s\<lparr>sessions := ss\<rparr>) sl = valid s sl" "valid (s\<lparr>rand := w\<rparr>) sl = valid s sl"
  by (simp_all add: valid_def)

lemma valid_brk [simp]: "valid s sl \<Longrightarrow> brk s \<le> n \<Longrightarrow> valid (s\<lparr>brk := n\<rparr>) sl"
  by (auto simp: valid_def)

text \<open>\<open>frame s t\<close>: the objects other than byte arrays that existed in \<open>s\<close> are unchanged in \<open>t\<close>.\<close>

definition frame :: "('s, 'e, 'r) store \<Rightarrow> ('s, 'e, 'r) store \<Rightarrow> bool" where
  "frame s t \<longleftrightarrow> (\<forall>a < brk s. scalars t a = scalars s a \<and> elements t a = elements s a \<and> icores t a = icores s a
     \<and> rcores t a = rcores s a \<and> ustates t a = ustates s a \<and> sessions t a = sessions s a)"

lemma frame_refl [simp]: "frame s s"
  by (simp add: frame_def)

lemma frame_trans: "frame s t \<Longrightarrow> frame t u \<Longrightarrow> brk s \<le> brk t \<Longrightarrow> frame s u"
  by (auto simp: frame_def)

lemmas store_relations = keeps_def scrubs_def frame_def

section \<open>Steps that only allocate\<close>

text \<open>
  \<open>allocates W s t\<close>: the step from \<open>s\<close> to \<open>t\<close> changes nothing that existed, leaves no bytes in
  its new cells but those in \<open>W\<close>, and makes no new object but sessions. This is the contract
  of every operation below the constructors of the two cores; it composes.
\<close>

definition allocates :: "nat set \<Rightarrow> ('s, 'e, 'r) store \<Rightarrow> ('s, 'e, 'r) store \<Rightarrow> bool" where
  "allocates W s t \<longleftrightarrow> keeps {} s t \<and> scrubs W s t \<and> scalars t = scalars s \<and> elements t = elements s
     \<and> icores t = icores s \<and> rcores t = rcores s \<and> ustates t = ustates s \<and> rand t = rand s
     \<and> (\<forall>a < brk s. sessions t a = sessions s a)"

lemma allocates_refl [simp]: "allocates {} s s"
  by (simp add: allocates_def)

lemma allocates_mono: "allocates V s t \<Longrightarrow> V \<subseteq> W \<Longrightarrow> allocates W s t"
  by (auto simp: allocates_def intro: scrubs_mono)

lemma allocates_brk: "allocates W s t \<Longrightarrow> brk s \<le> brk t"
  by (simp add: allocates_def keeps_def)

lemma allocates_trans:
  assumes "allocates V s t" and "allocates W t u"
  shows "allocates (V \<union> W) s u"
proof -
  have "brk s \<le> brk t" by (rule allocates_brk [OF assms(1)])
  moreover have "keeps {} s u"
    using assms keeps_trans [of "{}" s t "{}" u] by (simp add: allocates_def)
  moreover have "scrubs (V \<union> W) s u"
    using assms scrubs_trans [of t u s V W] \<open>brk s \<le> brk t\<close> by (simp add: allocates_def)
  ultimately show ?thesis using assms by (simp add: allocates_def)
qed

lemma allocates_rd: "allocates W s t \<Longrightarrow> valid s sl \<Longrightarrow> rd t sl = rd s sl"
  by (simp add: allocates_def keeps_rd)

lemma allocates_valid: "allocates W s t \<Longrightarrow> valid s sl \<Longrightarrow> valid t sl"
  using valid_keeps by (auto simp: allocates_def)

lemma allocates_frame: "allocates W s t \<Longrightarrow> frame s t"
  by (simp add: allocates_def frame_def)

text \<open>Clearing a cell that the step handed out.\<close>

lemma allocates_clear:
  assumes "allocates (insert a W) s t" and "brk s \<le> a"
  shows "allocates W s (clearBytes (Some a) t)"
  using assms by (auto simp: allocates_def keeps_def scrubs_def mem_clearBytes)

lemma allocates_clear2:
  assumes "allocates V s t" and "V \<subseteq> insert a (insert b W)" and "brk s \<le> a" and "brk s \<le> b"
  shows "allocates W s (clearBytes (Some a) (clearBytes (Some b) t))"
proof -
  have "allocates (insert b (insert a W)) s t"
    using assms(1) by (rule allocates_mono) (use assms(2) in auto)
  from allocates_clear [OF allocates_clear [OF this assms(4)] assms(3)] show ?thesis .
qed

lemma allocates_alloc:
  assumes "alloc v s = (sl, t)"
  shows "sl = Some (brk s)" and "allocates {brk s} s t" and "mem t (brk s) = v" and "brk s < brk t"
  using assms by (auto simp: alloc_def allocates_def keeps_def scrubs_def)

lemma allocates_clone:
  assumes "clone sl s = (sl', t)" and "valid s sl"
  shows "allocates (cells [sl']) s t" and "rd t sl' = rd s sl" and "valid t sl'" and "sl' = slice_at sl (brk s)"
  using assms
  by (auto simp: clone_closed allocates_def keeps_def scrubs_def valid_slice_at cells_def content_at)

section \<open>Steps that leave something behind\<close>

text \<open>
  \<open>leaves A E W s t\<close>: as \<open>allocates W s t\<close>, but the step also drops cells that nobody clears, byte arrays with
  contents in \<open>A\<close> and group elements with values in \<open>E\<close>. It composes for fixed \<open>A\<close> and \<open>E\<close>, so a
  sequence of calls leaves at most what its calls leave.
\<close>

definition leaves :: "bytes set \<Rightarrow> 'e set \<Rightarrow> nat set \<Rightarrow> ('s, 'e, 'r) store \<Rightarrow> ('s, 'e, 'r) store \<Rightarrow> bool" where
  "leaves A E W s t \<longleftrightarrow> keeps {} s t
     \<and> (\<forall>a \<ge> brk s. a \<notin> W \<longrightarrow> mem t a = mem s a \<or> zeros (mem t a) = mem t a \<or> a < brk t \<and> mem t a \<in> A)
     \<and> (\<forall>a. elements t a = elements s a \<or> brk s \<le> a \<and> a < brk t \<and> elements t a \<in> E)
     \<and> scalars t = scalars s \<and> icores t = icores s \<and> rcores t = rcores s \<and> ustates t = ustates s \<and> rand t = rand s
     \<and> (\<forall>a < brk s. sessions t a = sessions s a)"

lemma leaves_refl [simp]: "leaves A E W s s"
  by (simp add: leaves_def)

lemma leaves_mono: "leaves A E V s t \<Longrightarrow> A \<subseteq> B \<Longrightarrow> E \<subseteq> F \<Longrightarrow> V \<subseteq> W \<Longrightarrow> leaves B F W s t"
  unfolding leaves_def by blast

lemma leaves_brk: "leaves A E W s t \<Longrightarrow> brk s \<le> brk t"
  by (simp add: leaves_def keeps_def)

lemma allocates_leaves: "allocates W s t \<Longrightarrow> leaves A E W s t"
  by (auto simp: allocates_def leaves_def scrubs_def)

lemma leaves_trans:
  assumes "leaves A E V s t" and "leaves A E W t u"
  shows "leaves A E (V \<union> W) s u"
proof -
  have b: "brk s \<le> brk t" "brk t \<le> brk u" using leaves_brk [OF assms(1)] leaves_brk [OF assms(2)] by simp_all
  have "keeps {} s u" using assms keeps_trans [of "{}" s t "{}" u] by (simp add: leaves_def)
  moreover have "mem u a = mem s a \<or> zeros (mem u a) = mem u a \<or> a < brk u \<and> mem u a \<in> A"
    if "brk s \<le> a" "a \<notin> V \<union> W" for a
  proof (cases "a < brk t")
    case True
    then have "mem u a = mem t a" using assms(2) by (simp add: leaves_def keeps_def)
    then show ?thesis using assms(1) that True b by (auto simp: leaves_def)
  next
    case False
    then have "mem t a = mem s a \<or> zeros (mem t a) = mem t a" using assms(1) that by (auto simp: leaves_def)
    moreover have "mem u a = mem t a \<or> zeros (mem u a) = mem u a \<or> a < brk u \<and> mem u a \<in> A"
      using assms(2) that False by (auto simp: leaves_def)
    ultimately show ?thesis by auto
  qed
  moreover have "elements u a = elements s a \<or> brk s \<le> a \<and> a < brk u \<and> elements u a \<in> E" for a
  proof -
    have "elements t a = elements s a \<or> brk s \<le> a \<and> a < brk t \<and> elements t a \<in> E" using assms(1) by (simp add: leaves_def)
    moreover have "elements u a = elements t a \<or> brk t \<le> a \<and> a < brk u \<and> elements u a \<in> E"
      using assms(2) by (simp add: leaves_def)
    ultimately show ?thesis using b by auto
  qed
  ultimately show ?thesis using assms b by (simp add: leaves_def)
qed

lemma leaves_rd: "leaves A E W s t \<Longrightarrow> valid s sl \<Longrightarrow> rd t sl = rd s sl"
  by (simp add: leaves_def keeps_rd)

lemma leaves_valid: "leaves A E W s t \<Longrightarrow> valid s sl \<Longrightarrow> valid t sl"
  using valid_keeps by (auto simp: leaves_def)

lemma leaves_element: "leaves A E W s t \<Longrightarrow> a < brk s \<Longrightarrow> elements t a = elements s a"
  by (auto simp: leaves_def)

lemma leaves_frame: "leaves A E W s t \<Longrightarrow> frame s t"
  by (auto simp: leaves_def frame_def)

lemma leaves_same:
  "leaves A E W s t \<Longrightarrow> scalars t = scalars s \<and> icores t = icores s \<and> rcores t = rcores s \<and> ustates t = ustates s
     \<and> rand t = rand s \<and> keeps {} s t"
  by (simp add: leaves_def)

text \<open>The cells that are left, apart from those in \<open>W\<close>, as one set.\<close>

lemma leaves_scrubs:
  assumes "leaves A E W s t"
  shows "\<exists>V. scrubs (W \<union> V) s t \<and> (\<forall>a \<in> V. brk s \<le> a \<and> a < brk t \<and> mem t a \<in> A)"
  using assms by (intro exI [of _ "{a. brk s \<le> a \<and> a < brk t \<and> mem t a \<in> A}"]) (auto simp: leaves_def scrubs_def)

text \<open>Clearing a cell that the step handed out or that was in use before.\<close>

lemma leaves_clear: "leaves A E (insert a W) s t \<Longrightarrow> brk s \<le> a \<Longrightarrow> leaves A E W s (clearBytes (Some a) t)"
  by (auto simp: leaves_def keeps_def mem_clearBytes)

lemma leaves_clear2:
  assumes "leaves A E V s t" and "V \<subseteq> insert a (insert b W)" and "brk s \<le> a" and "brk s \<le> b"
  shows "leaves A E W s (clearBytes (Some a) (clearBytes (Some b) t))"
proof -
  have "leaves A E (insert b (insert a W)) s t"
    using assms(1) by (rule leaves_mono) (use assms(2) in auto)
  from leaves_clear [OF leaves_clear [OF this assms(4)] assms(3)] show ?thesis .
qed

text \<open>A new cell whose contents are among those that may be left need not be named.\<close>

lemma leaves_forget:
  assumes "leaves A E (X \<union> W) s t" and "\<forall>a \<in> X. brk s \<le> a \<longrightarrow> a < brk t \<and> mem t a \<in> A"
  shows "leaves A E W s t"
  using assms by (auto simp: leaves_def)

text \<open>A group element that is made and dropped.\<close>

lemma leaves_element_alloc:
  assumes "alloc_element v s = (p, t)" and "v \<in> E"
  shows "p = Some (brk s)" and "leaves A E {} s t" and "brk t = Suc (brk s)" and "elements t (brk s) = v"
  using assms by (auto simp: alloc_element_def leaves_def keeps_def split: if_splits)

end
