(* ===== verification/Go_Crypto.thy ===== *)
theory Go_Crypto
  imports Errors
begin

text \<open>
  What the package uses of Go's standard library crypto packages, as executable functions on
  bytes: \<open>sha512.Sum512\<close> (FIPS 180-4), \<open>hmac.New(sha512.New, key)\<close> with one \<open>Write\<close> and
  \<open>Sum\<close> (FIPS 198-1), \<open>hmac.Equal\<close>, and \<open>hkdf.Key\<close> with SHA-512 (RFC 5869).
\<close>

unbundle bit_operations_syntax

section \<open>SHA-512\<close>

type_synonym u64 = "64 word"
type_synonym sha_state = "u64 \<times> u64 \<times> u64 \<times> u64 \<times> u64 \<times> u64 \<times> u64 \<times> u64"

definition sha512_K :: "u64 list" where
  "sha512_K = [
     0x428a2f98d728ae22, 0x7137449123ef65cd, 0xb5c0fbcfec4d3b2f, 0xe9b5dba58189dbbc,
     0x3956c25bf348b538, 0x59f111f1b605d019, 0x923f82a4af194f9b, 0xab1c5ed5da6d8118,
     0xd807aa98a3030242, 0x12835b0145706fbe, 0x243185be4ee4b28c, 0x550c7dc3d5ffb4e2,
     0x72be5d74f27b896f, 0x80deb1fe3b1696b1, 0x9bdc06a725c71235, 0xc19bf174cf692694,
     0xe49b69c19ef14ad2, 0xefbe4786384f25e3, 0x0fc19dc68b8cd5b5, 0x240ca1cc77ac9c65,
     0x2de92c6f592b0275, 0x4a7484aa6ea6e483, 0x5cb0a9dcbd41fbd4, 0x76f988da831153b5,
     0x983e5152ee66dfab, 0xa831c66d2db43210, 0xb00327c898fb213f, 0xbf597fc7beef0ee4,
     0xc6e00bf33da88fc2, 0xd5a79147930aa725, 0x06ca6351e003826f, 0x142929670a0e6e70,
     0x27b70a8546d22ffc, 0x2e1b21385c26c926, 0x4d2c6dfc5ac42aed, 0x53380d139d95b3df,
     0x650a73548baf63de, 0x766a0abb3c77b2a8, 0x81c2c92e47edaee6, 0x92722c851482353b,
     0xa2bfe8a14cf10364, 0xa81a664bbc423001, 0xc24b8b70d0f89791, 0xc76c51a30654be30,
     0xd192e819d6ef5218, 0xd69906245565a910, 0xf40e35855771202a, 0x106aa07032bbd1b8,
     0x19a4c116b8d2d0c8, 0x1e376c085141ab53, 0x2748774cdf8eeb99, 0x34b0bcb5e19b48a8,
     0x391c0cb3c5c95a63, 0x4ed8aa4ae3418acb, 0x5b9cca4f7763e373, 0x682e6ff3d6b2b8a3,
     0x748f82ee5defb2fc, 0x78a5636f43172f60, 0x84c87814a1f0ab72, 0x8cc702081a6439ec,
     0x90befffa23631e28, 0xa4506cebde82bde9, 0xbef9a3f7b2c67915, 0xc67178f2e372532b,
     0xca273eceea26619c, 0xd186b8c721c0c207, 0xeada7dd6cde0eb1e, 0xf57d4f7fee6ed178,
     0x06f067aa72176fba, 0x0a637dc5a2c898a6, 0x113f9804bef90dae, 0x1b710b35131c471b,
     0x28db77f523047d84, 0x32caab7b40c72493, 0x3c9ebe0a15c9bebc, 0x431d67c49c100d4c,
     0x4cc5d4becb3e42b6, 0x597f299cfc657e2a, 0x5fcb6fab3ad6faec, 0x6c44198c4a475817]"

definition sha512_init :: sha_state where
  "sha512_init = (
     0x6a09e667f3bcc908, 0xbb67ae8584caa73b, 0x3c6ef372fe94f82b, 0xa54ff53a5f1d36f1,
     0x510e527fade682d1, 0x9b05688c2b3e6c1f, 0x1f83d9abfb41bd6b, 0x5be0cd19137e2179)"

definition choose_bits :: "u64 \<Rightarrow> u64 \<Rightarrow> u64 \<Rightarrow> u64" where
  "choose_bits x y z = (x AND y) XOR (NOT x AND z)"

definition majority_bits :: "u64 \<Rightarrow> u64 \<Rightarrow> u64 \<Rightarrow> u64" where
  "majority_bits x y z = (x AND y) XOR (x AND z) XOR (y AND z)"

definition big_sigma0 :: "u64 \<Rightarrow> u64" where
  "big_sigma0 x = word_rotr 28 x XOR word_rotr 34 x XOR word_rotr 39 x"
definition big_sigma1 :: "u64 \<Rightarrow> u64" where
  "big_sigma1 x = word_rotr 14 x XOR word_rotr 18 x XOR word_rotr 41 x"
definition small_sigma0 :: "u64 \<Rightarrow> u64" where
  "small_sigma0 x = word_rotr 1 x XOR word_rotr 8 x XOR drop_bit 7 x"
definition small_sigma1 :: "u64 \<Rightarrow> u64" where
  "small_sigma1 x = word_rotr 19 x XOR word_rotr 61 x XOR drop_bit 6 x"

text \<open>Words and bytes, most significant byte first.\<close>

definition word_to_bytes :: "u64 \<Rightarrow> bytes" where
  "word_to_bytes w = map (\<lambda>i. ucast (drop_bit (8 * (7 - i)) w)) [0..<8]"

definition bytes_to_word :: "bytes \<Rightarrow> u64" where
  "bytes_to_word bs = foldl (\<lambda>acc b. push_bit 8 acc OR ucast b) 0 bs"

function chunks :: "nat \<Rightarrow> 'a list \<Rightarrow> 'a list list" where
  "chunks n xs = (if xs = [] \<or> n = 0 then [] else take n xs # chunks n (drop n xs))"
  by pat_completeness auto
termination by (relation "measure (\<lambda>(n, xs). length xs)") auto

declare chunks.simps [simp del]

text \<open>The message schedule, the 80 rounds and the compression of one 128-byte block.\<close>

fun extend_schedule :: "nat \<Rightarrow> u64 list \<Rightarrow> u64 list" where
  "extend_schedule 0 w = w"
| "extend_schedule (Suc n) w =
     (let t = length w
      in extend_schedule n
           (w @ [small_sigma1 (w ! (t - 2)) + w ! (t - 7) + small_sigma0 (w ! (t - 15)) + w ! (t - 16)]))"

definition schedule :: "bytes \<Rightarrow> u64 list" where
  "schedule block = extend_schedule 64 (map bytes_to_word (chunks 8 block))"

fun sha512_round :: "sha_state \<Rightarrow> u64 \<times> u64 \<Rightarrow> sha_state" where
  "sha512_round (a, b, c, d, e, f, g, h) (k, w) =
     (let t1 = h + big_sigma1 e + choose_bits e f g + k + w;
          t2 = big_sigma0 a + majority_bits a b c
      in (t1 + t2, a, b, c, d + t1, e, f, g))"

fun add_state :: "sha_state \<Rightarrow> sha_state \<Rightarrow> sha_state" where
  "add_state (a, b, c, d, e, f, g, h) (a', b', c', d', e', f', g', h') =
     (a + a', b + b', c + c', d + d', e + e', f + f', g + g', h + h')"

definition sha512_block :: "sha_state \<Rightarrow> bytes \<Rightarrow> sha_state" where
  "sha512_block s block = add_state s (foldl sha512_round s (zip sha512_K (schedule block)))"

definition sha512_pad :: "bytes \<Rightarrow> bytes" where
  "sha512_pad m = m @ [0x80] @ replicate ((128 - (length m + 17) mod 128) mod 128) 0
     @ word_to_bytes 0 @ word_to_bytes (of_nat (8 * length m))"

fun state_bytes :: "sha_state \<Rightarrow> bytes" where
  "state_bytes (a, b, c, d, e, f, g, h) = concat (map word_to_bytes [a, b, c, d, e, f, g, h])"

definition Sum512 :: "bytes \<Rightarrow> bytes" where
  "Sum512 m = state_bytes (foldl sha512_block sha512_init (chunks 128 (sha512_pad m)))"

lemma length_word_to_bytes [simp]: "length (word_to_bytes w) = 8"
  by (simp add: word_to_bytes_def)

lemma length_state_bytes [simp]: "length (state_bytes s) = 64"
  by (cases s rule: state_bytes.cases) simp

lemma length_Sum512 [simp]: "length (Sum512 m) = 64"
  by (simp add: Sum512_def)

text \<open>The padding makes the message a whole number of 128-byte blocks.\<close>

lemma sha512_pad_blocks: "length (sha512_pad m) mod 128 = 0"
proof -
  have "(n + ((128 - n mod 128) mod 128)) mod 128 = 0" for n :: nat
  proof -
    have "(n + (128 - n mod 128) mod 128) mod 128 = (n + (128 - n mod 128)) mod 128"
      by (rule mod_add_right_eq)
    also have "n + (128 - n mod 128) = 128 * (n div 128) + 128"
    proof -
      have "n mod 128 < 128" by simp
      then show ?thesis using mult_div_mod_eq [of 128 n] by linarith
    qed
    finally show ?thesis by simp
  qed
  from this [of "length m + 17"] show ?thesis
    by (simp add: sha512_pad_def add.assoc)
qed

section \<open>HMAC-SHA512\<close>

definition hmac_block_key :: "bytes \<Rightarrow> bytes" where
  "hmac_block_key key =
     (let k = (if length key > 128 then Sum512 key else key)
      in k @ replicate (128 - length k) 0)"

definition hmac_sha512 :: "bytes \<Rightarrow> bytes \<Rightarrow> bytes" where
  "hmac_sha512 key msg =
     (let k = hmac_block_key key
      in Sum512 (map (\<lambda>b. b XOR 0x5c) k @ Sum512 (map (\<lambda>b. b XOR 0x36) k @ msg)))"

definition hmac_Equal :: "bytes \<Rightarrow> bytes \<Rightarrow> bool" where
  "hmac_Equal a b \<longleftrightarrow> a = b"

lemma length_hmac_sha512 [simp]: "length (hmac_sha512 key msg) = 64"
  by (simp add: hmac_sha512_def Let_def)

section \<open>HKDF-SHA512\<close>

text \<open>
  \<open>hkdf.Key\<close> extracts with a nil salt (64 zero bytes) and expands: block \<open>i\<close> is the MAC of the
  previous block, the info string and the counter byte, cut at the requested length. A
  request above 255 blocks is an error; a negative one panics when the output is allocated.
\<close>

function hkdf_expand :: "bytes \<Rightarrow> bytes \<Rightarrow> nat \<Rightarrow> byte \<Rightarrow> bytes \<Rightarrow> bytes \<Rightarrow> bytes" where
  "hkdf_expand prk info keyLen counter buf out =
     (if length out < keyLen
      then let counter' = counter + 1;
               buf' = hmac_sha512 prk (buf @ info @ [counter']);
               remain = min (length buf') (keyLen - length out)
           in hkdf_expand prk info keyLen counter' buf' (out @ take remain buf')
      else out)"
  by pat_completeness auto
termination
  by (relation "measure (\<lambda>(prk, info, keyLen, counter, buf, out). keyLen - length out)") auto

declare hkdf_expand.simps [simp del]

definition hkdf_Key :: "bytes \<Rightarrow> bytes option \<Rightarrow> bytes \<Rightarrow> int \<Rightarrow> bytes result" where
  "hkdf_Key secret salt info keyLength =
     (if keyLength > 64 * 255 then Err (External ''hkdf: requested key length too large'')
      else if keyLength < 0 then Panic ''makeslice: cap out of range''
      else let prk = hmac_sha512 (case salt of None \<Rightarrow> replicate 64 0 | Some s \<Rightarrow> s) secret
           in Ok (hkdf_expand prk info (nat keyLength) 0 [] []))"

text \<open>The output stream of the expansion, of which every request is a prefix.\<close>

fun hkdf_blocks :: "bytes \<Rightarrow> bytes \<Rightarrow> nat \<Rightarrow> byte \<Rightarrow> bytes \<Rightarrow> bytes" where
  "hkdf_blocks prk info 0 counter buf = []"
| "hkdf_blocks prk info (Suc n) counter buf =
     (let b = hmac_sha512 prk (buf @ info @ [counter + 1])
      in b @ hkdf_blocks prk info n (counter + 1) b)"

lemma length_hkdf_blocks [simp]: "length (hkdf_blocks prk info n c buf) = 64 * n"
  by (induction n arbitrary: c buf) (simp_all add: Let_def)

lemma hkdf_expand_blocks:
  "keyLen - length out \<le> 64 * n \<Longrightarrow>
    hkdf_expand prk info keyLen c buf out = out @ take (keyLen - length out) (hkdf_blocks prk info n c buf)"
proof (induction n arbitrary: c buf out)
  case 0
  then show ?case by (simp add: hkdf_expand.simps)
next
  case (Suc n)
  show ?case
  proof (cases "length out < keyLen")
    case True
    let ?b = "hmac_sha512 prk (buf @ info @ [c + 1])"
    let ?out = "out @ take (min 64 (keyLen - length out)) ?b"
    have "keyLen - length ?out \<le> 64 * n" using Suc.prems by simp
    then have "hkdf_expand prk info keyLen (c + 1) ?b ?out
        = ?out @ take (keyLen - length ?out) (hkdf_blocks prk info n (c + 1) ?b)"
      by (rule Suc.IH)
    then show ?thesis using True
      by (simp add: hkdf_expand.simps [of prk info keyLen c buf out] Let_def min_def) auto
  qed (simp add: hkdf_expand.simps)
qed

lemma hkdf_expand_stream:
  "keyLen \<le> 64 * n \<Longrightarrow> hkdf_expand prk info keyLen 0 [] [] = take keyLen (hkdf_blocks prk info n 0 [])"
  by (simp add: hkdf_expand_blocks)

lemma length_hkdf_expand [simp]: "length (hkdf_expand prk info keyLen 0 [] []) = keyLen"
  by (subst hkdf_expand_stream [of keyLen keyLen]) simp_all

lemma hkdf_expand_prefix:
  "m \<le> n \<Longrightarrow> take m (hkdf_expand prk info n 0 [] []) = hkdf_expand prk info m 0 [] []"
  by (simp add: hkdf_expand_stream [of n n] hkdf_expand_stream [of m n])

end
