(* ===== verification/Crypto.thy ===== *)
theory Crypto
  imports Store Go_Crypto
begin

text \<open>
  crypto.go, with the transcript id of transcript.go: the generator string and the generator,
  scalar sampling, the intermediate session key and the confirmation tag. Each function that
  clears a scratch buffer allocates that buffer in the store; the values it computes are
  separate functions on bytes.
\<close>

unbundle bit_operations_syntax

section \<open>Constants\<close>

definition dsiRistretto255 :: string where "dsiRistretto255 = ''CPaceRistretto255''"
definition dsiISK :: string where "dsiISK = ''CPaceRistretto255_ISK''"
definition sha512BlockSize :: int where "sha512BlockSize = 128"
definition scalarSize :: nat where "scalarSize = 32"
definition maxScalarTries :: nat where "maxScalarTries = 128"

section \<open>Generator\<close>

definition generatorString :: "bytes \<Rightarrow> bytes \<Rightarrow> bytes \<Rightarrow> bytes \<Rightarrow> int \<Rightarrow> bytes" where
  "generatorString dsi prs ci sid sInBytes =
     (let rawZPADLen = sInBytes - lengthValueLen (int (length prs)) - lengthValueLen (int (length dsi)) - 1;
          zpadLen = max rawZPADLen 0
      in lvCat [dsi, prs, replicate (nat zpadLen) 0, ci, sid])"

definition calculateGenerator ::
  "('s, 'e) ristretto \<Rightarrow> slice \<Rightarrow> slice \<Rightarrow> slice \<Rightarrow> ('s, 'e, 'r) store
     \<Rightarrow> nat option result \<times> ('s, 'e, 'r) store" where
  "calculateGenerator R prs ci sid s =
     (let (genStr, s) = alloc (generatorString (string_bytes dsiRistretto255) (rd s prs) (rd s ci) (rd s sid)
                               sha512BlockSize) s;
          (hash, s) = alloc (Sum512 (rd s genStr)) s;
          s = clearBytes genStr s;
          g = SetUniformBytes R (rd s hash);
          s = clearBytes hash s
      in case g of
           None \<Rightarrow> (Panic ''cpace: SHA-512 output rejected by Ristretto255 SetUniformBytes'', s)
         | Some e \<Rightarrow> (let (p, s) = alloc_element e s in (Ok p, s)))"

section \<open>Scalar sampling\<close>

text \<open>
  The loop of \<open>sampleScalar\<close>: \<open>n\<close> tries are left, \<open>b\<close> is the content of the 32-byte array,
  and the result carries that content and the reader's state. A read that fails writes
  the bytes it got to the front of the array.
\<close>

definition fill :: "bytes \<Rightarrow> bytes \<Rightarrow> bytes" where
  "fill got b = take (length b) (got @ drop (length got) b)"

fun sampleScalar_loop ::
  "('s, 'e) ristretto \<Rightarrow> 'r reader \<Rightarrow> nat \<Rightarrow> bytes \<Rightarrow> 'r \<Rightarrow> ('s result \<times> bytes) \<times> 'r" where
  "sampleScalar_loop R rdr 0 b w =
     ((Err (errorf ErrRandomness ''scalar randomness produced only usable-rejection samples''), b), w)"
| "sampleScalar_loop R rdr (Suc n) b w =
     (case rdr w (length b) of
        ((got, Some e), w') \<Rightarrow>
          ((Err (Errorf [Wrap (Sentinel ErrRandomness), Txt '': scalar randomness: '', Wrap (External e)]),
            fill got b), w')
      | ((got, None), w') \<Rightarrow>
          (let b1 = fill got b;
               b2 = b1[31 := (b1 ! 31) AND 0x0f]
           in case Scalar_SetCanonicalBytes R b2 of
                None \<Rightarrow> sampleScalar_loop R rdr n b2 w'
              | Some s \<Rightarrow>
                  if Scalar_Equal R s (NewScalar R) = 1 then sampleScalar_loop R rdr n b2 w'
                  else ((Ok s, b2), w')))"

text \<open>\<open>sampleScalar\<close>: the array is cleared on every exit, by the deferred \<open>clearBytes\<close>.\<close>

definition sampleScalar ::
  "('s, 'e) ristretto \<Rightarrow> 'r reader \<Rightarrow> ('s, 'e, 'r) store \<Rightarrow> nat option result \<times> ('s, 'e, 'r) store" where
  "sampleScalar R rdr s =
     (let (b, s) = alloc (replicate scalarSize 0) s;
          ((res, b'), w) = sampleScalar_loop R rdr maxScalarTries (rd s b) (rand s);
          s = s\<lparr>mem := (mem s)(the b := b'), rand := w\<rparr>
      in case res of
           Ok y \<Rightarrow> (let (p, s) = alloc_scalar y s in (Ok p, clearBytes b s))
         | Err e \<Rightarrow> (Err e, clearBytes b s)
         | Panic m \<Rightarrow> (Panic m, clearBytes b s))"

text \<open>
  \<open>scalarMult\<close>: the product is made in a new element, which keeps it; only its encoding is returned. The
  pointers are not nil.
\<close>

definition scalarMult :: "('s, 'e) ristretto \<Rightarrow> nat \<Rightarrow> nat \<Rightarrow> ('s, 'e, 'r) store \<Rightarrow> slice \<times> ('s, 'e, 'r) store" where
  "scalarMult R x p s =
     (let (q, s) = alloc_element (Element_ScalarMult R (scalars s x) (elements s p)) s
      in alloc (Element_Bytes R (elements s (the q))) s)"

definition scalarMult_bytes :: "('s, 'e) ristretto \<Rightarrow> 's \<Rightarrow> 'e \<Rightarrow> bytes" where
  "scalarMult_bytes R s p = Element_Bytes R (Element_ScalarMult R s p)"

section \<open>Intermediate session key and confirmation tag\<close>

definition ISK_material :: "bytes \<Rightarrow> bytes \<Rightarrow> bytes \<Rightarrow> bytes" where
  "ISK_material sid k transcript = lvCat [string_bytes dsiISK, sid, k] @ transcript"

definition ISK_value :: "bytes \<Rightarrow> bytes \<Rightarrow> bytes \<Rightarrow> bytes" where
  "ISK_value sid k transcript = Sum512 (ISK_material sid k transcript)"

definition deriveISK ::
  "slice \<Rightarrow> slice \<Rightarrow> slice \<Rightarrow> ('s, 'e, 'r) store \<Rightarrow> slice \<times> ('s, 'e, 'r) store" where
  "deriveISK sid k transcript s =
     (let t = rd s transcript;
          (pre, s) = alloc (lvCat [string_bytes dsiISK, rd s sid, rd s k]) s;
          (material, s) = alloc (rd s pre @ t) s;
          s = clearBytes pre s;
          (digest, s) = alloc (Sum512 (rd s material)) s;
          s = clearBytes material s;
          (out, s) = alloc (rd s digest) s;
          s = clearBytes digest s
      in (out, s))"

definition mac_key_material :: "bytes \<Rightarrow> bytes \<Rightarrow> bytes" where
  "mac_key_material isk sid = string_bytes ''CPaceMac'' @ sid @ isk"

definition tag_value :: "bytes \<Rightarrow> bytes \<Rightarrow> bytes \<Rightarrow> bytes \<Rightarrow> bytes" where
  "tag_value isk sid y ad = hmac_sha512 (Sum512 (mac_key_material isk sid)) (lvCat [y, ad])"

text \<open>
  \<open>hmac.New\<close> keeps the key in the object that it returns, where the package cannot clear it. That object is
  a cell with the key; \<open>Write\<close> and \<open>Sum\<close> compute the tag from it, in a new slice.
\<close>

definition hmac_New :: "slice \<Rightarrow> ('s, 'e, 'r) store \<Rightarrow> slice \<times> ('s, 'e, 'r) store" where
  "hmac_New key s = alloc (rd s key) s"

definition hmac_Sum :: "slice \<Rightarrow> bytes \<Rightarrow> ('s, 'e, 'r) store \<Rightarrow> slice \<times> ('s, 'e, 'r) store" where
  "hmac_Sum m written s = alloc (hmac_sha512 (rd s m) written) s"

definition confirmationTag ::
  "slice \<Rightarrow> slice \<Rightarrow> slice \<Rightarrow> slice \<Rightarrow> ('s, 'e, 'r) store \<Rightarrow> slice \<times> ('s, 'e, 'r) store" where
  "confirmationTag isk sid y ad s =
     (let (keyInput, s) = alloc (string_bytes ''CPaceMac'' @ rd s sid @ rd s isk) s;
          (macKey, s) = alloc (Sum512 (rd s keyInput)) s;
          s = clearBytes keyInput s;
          (m, s) = hmac_New macKey s;
          s = clearBytes macKey s
      in hmac_Sum m (lvCat [rd s y, rd s ad]) s)"

text \<open>What a computed tag leaves in memory: the tag, and the key in the HMAC object.\<close>

definition tag_residue :: "bytes \<Rightarrow> bytes \<Rightarrow> bytes \<Rightarrow> bytes \<Rightarrow> bytes set" where
  "tag_residue isk sid y ad = {tag_value isk sid y ad, Sum512 (mac_key_material isk sid)}"

definition transcriptID :: "bytes \<Rightarrow> bytes" where
  "transcriptID transcript = Sum512 (string_bytes ''CPaceSidOutput'' @ transcript)"

section \<open>Closed forms\<close>

definition generator_value :: "bytes \<Rightarrow> bytes \<Rightarrow> bytes \<Rightarrow> bytes" where
  "generator_value prs ci sid = generatorString (string_bytes dsiRistretto255) prs ci sid 128"

lemma calculateGenerator_closed [heap_simps]:
  "calculateGenerator R prs ci sid s =
    (let v = generator_value (rd s prs) (rd s ci) (rd s sid);
         n = brk s;
         m = (mem s)(n := zeros v, Suc n := replicate 64 0)
     in case SetUniformBytes R (Sum512 v) of
          None \<Rightarrow> (Panic ''cpace: SHA-512 output rejected by Ristretto255 SetUniformBytes'',
                   s\<lparr>brk := Suc (Suc n), mem := m\<rparr>)
        | Some e \<Rightarrow> (Ok (Some (Suc (Suc n))),
                     s\<lparr>brk := Suc (Suc (Suc n)), mem := m, elements := (elements s)(Suc (Suc n) := e)\<rparr>))"
  by (simp add: calculateGenerator_def heap_simps generator_value_def sha512BlockSize_def Let_def
      zeros_eq fun_upd_twist split: option.split)

lemma sampleScalar_closed [heap_simps]:
  "sampleScalar R rdr s =
    (case sampleScalar_loop R rdr 128 (replicate 32 0) (rand s) of
       ((Ok y, b), w) \<Rightarrow>
         (Ok (Some (Suc (brk s))),
          s\<lparr>brk := Suc (Suc (brk s)), mem := (mem s)(brk s := zeros b),
            scalars := (scalars s)(Suc (brk s) := y), rand := w\<rparr>)
     | ((Err e, b), w) \<Rightarrow>
         (Err e, s\<lparr>brk := Suc (brk s), mem := (mem s)(brk s := zeros b), rand := w\<rparr>)
     | ((Panic x, b), w) \<Rightarrow>
         (Panic x, s\<lparr>brk := Suc (brk s), mem := (mem s)(brk s := zeros b), rand := w\<rparr>))"
  by (simp add: sampleScalar_def heap_simps scalarSize_def maxScalarTries_def Let_def
      split: prod.split go.split)

lemma deriveISK_closed [heap_simps]:
  assumes "valid s sid" and "valid s k" and "valid s transcript"
  shows "deriveISK sid k transcript s =
    (let n = brk s; p = lvCat [string_bytes dsiISK, rd s sid, rd s k]
     in (Some (Suc (Suc (Suc n))),
         s\<lparr>brk := Suc (Suc (Suc (Suc n))),
            mem := (mem s)(n := zeros p, Suc n := zeros (p @ rd s transcript), Suc (Suc n) := replicate 64 0,
              Suc (Suc (Suc n)) := ISK_value (rd s sid) (rd s k) (rd s transcript))\<rparr>))"
  by (simp add: deriveISK_def heap_simps Let_def ISK_value_def ISK_material_def zeros_eq)
    (simp add: fun_eq_iff)

lemma scalarMult_closed [heap_simps]:
  "scalarMult R x p s =
    (let v = Element_ScalarMult R (scalars s x) (elements s p); n = brk s
     in (Some (Suc n), s\<lparr>brk := Suc (Suc n), elements := (elements s)(n := v), mem := (mem s)(Suc n := Element_Bytes R v)\<rparr>))"
  by (simp add: scalarMult_def heap_simps Let_def)

lemma confirmationTag_closed [heap_simps]:
  assumes "valid s isk" and "valid s sid" and "valid s y" and "valid s ad"
  shows "confirmationTag isk sid y ad s =
    (let n = brk s; key = Sum512 (mac_key_material (rd s isk) (rd s sid)) in
     (Some (Suc (Suc (Suc n))),
      s\<lparr>brk := Suc (Suc (Suc (Suc n))), mem := (mem s)(n := zeros (mac_key_material (rd s isk) (rd s sid)),
          Suc n := replicate 64 0, Suc (Suc n) := key,
          Suc (Suc (Suc n)) := tag_value (rd s isk) (rd s sid) (rd s y) (rd s ad))\<rparr>))"
  using assms
  by (simp add: confirmationTag_def hmac_New_def hmac_Sum_def heap_simps Let_def tag_value_def mac_key_material_def zeros_eq)
    (simp add: fun_eq_iff)

section \<open>Contracts\<close>

lemma deriveISK_contract:
  assumes "deriveISK sid k transcript s = (isk, t)" and "valid s sid" and "valid s k" and "valid s transcript"
  shows "\<exists>a. isk = Some a \<and> brk s \<le> a \<and> a < brk t \<and> allocates {a} s t
     \<and> mem t a = ISK_value (rd s sid) (rd s k) (rd s transcript)"
  using assms
  by (auto simp: deriveISK_closed [OF assms(2-4)] Let_def allocates_def keeps_def scrubs_def zeros_eq)

lemma confirmationTag_contract:
  assumes "confirmationTag isk sid y ad s = (tag, t)"
    and "valid s isk" and "valid s sid" and "valid s y" and "valid s ad"
  shows "leaves (tag_residue (rd s isk) (rd s sid) (rd s y) (rd s ad)) E {} s t"
    and "\<exists>n. tag = Some n \<and> brk s \<le> n \<and> n < brk t" and "rd t tag = tag_value (rd s isk) (rd s sid) (rd s y) (rd s ad)"
  using assms(1)
  by (auto simp: confirmationTag_closed [OF assms(2-5)] Let_def leaves_def keeps_def zeros_eq tag_residue_def
      split: if_splits)

lemma scalarMult_contract:
  assumes "scalarMult R x p s = (b, t)" and "v = Element_ScalarMult R (scalars s x) (elements s p)" and "v \<in> E"
  shows "b = Some (Suc (brk s))" and "brk t = Suc (Suc (brk s))" and "leaves A E {Suc (brk s)} s t"
    and "mem t (Suc (brk s)) = Element_Bytes R v" and "elements t (brk s) = v"
  using assms by (auto simp: scalarMult_closed Let_def leaves_def keeps_def split: if_splits)

section \<open>Injectivity of the hashed strings\<close>

lemma go_slice_string [simp]:
  "go_slice (string_bytes dsiRistretto255)" "go_slice (string_bytes dsiISK)"
  by (simp_all add: go_slice_def dsiRistretto255_def dsiISK_def)

lemma ISK_material_inj:
  assumes "go_slice sid" "go_slice k" "go_slice sid'" "go_slice k'"
    and "ISK_material sid k t = ISK_material sid' k' t'"
  shows "sid = sid' \<and> k = k' \<and> t = t'"
  using assms lv.concat_split [of "[string_bytes dsiISK, sid, k]" "[string_bytes dsiISK, sid', k']" t t']
  by (simp add: ISK_material_def lvCat_lv)

lemma lengthValueLen_dsi: "lengthValueLen (int (length dsiRistretto255)) = 18"
  by (simp add: dsiRistretto255_def lengthValueLen_def leb128LenInt.simps)

lemma go_slice_zpad [simp]: "go_slice (replicate (108 - n) x)"
  by (simp add: go_slice_def)

text \<open>For this suite the padding is \<open>108 - length prs\<close> zero bytes, none for longer passwords.\<close>

lemma generatorString_eq:
  "generatorString (string_bytes dsiRistretto255) prs ci sid sha512BlockSize
    = lvCat [string_bytes dsiRistretto255, prs, replicate (108 - length prs) 0, ci, sid]"
proof -
  have small: "lengthValueLen (int (length prs)) = 1 + int (length prs)" if "length prs < 128"
    using that by (simp add: lengthValueLen_def leb128LenInt.simps)
  have big: "int (length prs) \<le> lengthValueLen (int (length prs))"
    by (simp only: length_lv [symmetric]) (simp add: lv_def)
  have "nat (max (128 - lengthValueLen (int (length prs)) - 18 - 1) 0) = 108 - length prs"
    using small big by (cases "length prs < 128") (simp_all add: max_def nat_diff_distrib)
  then show ?thesis
    by (simp add: generatorString_def Let_def sha512BlockSize_def lengthValueLen_dsi)
qed

section \<open>Properties\<close>

text \<open>C25. The generator string is injective: two runs hash the same generator string only if the
  password, the channel identifier and the session id are all the same.\<close>

theorem generatorString_inj:
  assumes "go_slice prs" "go_slice ci" "go_slice sid" "go_slice prs'" "go_slice ci'" "go_slice sid'"
    and "generatorString (string_bytes dsiRistretto255) prs ci sid sha512BlockSize
       = generatorString (string_bytes dsiRistretto255) prs' ci' sid' sha512BlockSize"
  shows "prs = prs' \<and> ci = ci' \<and> sid = sid'"
proof -
  have "[string_bytes dsiRistretto255, prs, replicate (108 - length prs) 0, ci, sid]
      = [string_bytes dsiRistretto255, prs', replicate (108 - length prs') 0, ci', sid']"
    using assms by (intro lvCat_inj) (simp_all add: generatorString_eq)
  then show ?thesis by simp
qed

theorem generatorString_inj_witness:
  "generatorString (string_bytes dsiRistretto255) [1] [2] [3] sha512BlockSize
     = generatorString (string_bytes dsiRistretto255) [1] [2] [3] sha512BlockSize
   \<and> [1 :: byte] = [1] \<and> [2 :: byte] = [2] \<and> [3 :: byte] = [3]"
  using generatorString_inj [of "[1]" "[2]" "[3]" "[1]" "[2]" "[3]"] by (simp add: go_slice_def)

text \<open>C26. The layout that draft-21 asks for: the domain separator, the password and a run of zero
  bytes, each length-prefixed, come first and fill the first 128-byte hash block; they fill
  it exactly when the password has at most 108 bytes, and the padding is always short enough
  for a one-byte length prefix, as the comment in \<open>generatorString\<close> assumes.\<close>

theorem generatorString_layout:
  assumes "go_slice prs" "go_slice ci" "go_slice sid"
  shows "\<exists>n. generatorString (string_bytes dsiRistretto255) prs ci sid sha512BlockSize
      = lvCat [string_bytes dsiRistretto255, prs, replicate n 0] @ lvCat [ci, sid]
    \<and> n < 128 \<and> n = 108 - length prs
    \<and> 128 \<le> length (lvCat [string_bytes dsiRistretto255, prs, replicate n 0])
    \<and> (length prs \<le> 108 \<longrightarrow> length (lvCat [string_bytes dsiRistretto255, prs, replicate n 0]) = 128)"
proof -
  let ?d = "string_bytes dsiRistretto255" and ?z = "replicate (108 - length prs) 0"
  have split: "generatorString ?d prs ci sid sha512BlockSize = lvCat [?d, prs, ?z] @ lvCat [ci, sid]"
    using assms by (simp add: generatorString_eq lvCat_lv)
  have ld: "length (lv ?d) = 18" using lengthValueLen_dsi length_lv [of ?d] by simp
  have lz: "length (lv ?z) = 1 + (108 - length prs)" by (simp add: lv_def leb_small)
  have len: "length (lvCat [?d, prs, ?z]) = 18 + length (lv prs) + (1 + (108 - length prs))"
    using assms by (simp add: lvCat_lv ld lz)
  have lp: "length (lv prs) = 1 + length prs \<or> 128 \<le> length prs \<and> length prs < length (lv prs)"
    by (cases "length prs < 128") (simp_all add: lv_def leb_small)
  have "128 \<le> length (lvCat [?d, prs, ?z])" unfolding len using lp by linarith
  moreover have "length prs \<le> 108 \<longrightarrow> length (lvCat [?d, prs, ?z]) = 128"
    unfolding len using lp by linarith
  moreover have "108 - length prs < 128" by simp
  ultimately show ?thesis using split by blast
qed

theorem generatorString_layout_witness:
  "\<exists>n. generatorString (string_bytes dsiRistretto255) (string_bytes ''Password'') [7] [9] sha512BlockSize
      = lvCat [string_bytes dsiRistretto255, string_bytes ''Password'', replicate n 0] @ lvCat [[7], [9]]
    \<and> n < 128 \<and> n = 108 - length (string_bytes ''Password'')
    \<and> 128 \<le> length (lvCat [string_bytes dsiRistretto255, string_bytes ''Password'', replicate n 0])
    \<and> (length (string_bytes ''Password'') \<le> 108 \<longrightarrow>
        length (lvCat [string_bytes dsiRistretto255, string_bytes ''Password'', replicate n 0]) = 128)"
  by (rule generatorString_layout) (simp_all add: go_slice_def)

text \<open>C27. What the confirmation tag and the session key authenticate: for keys of 64 bytes the raw
  concatenation of session id and key under the MAC key hash loses nothing, and the material
  hashed into the session key determines the session id, the Diffie-Hellman result and the
  transcript.\<close>

theorem hashed_material_inj:
  assumes "length isk = 64" "length isk' = 64"
    and "mac_key_material isk sid = mac_key_material isk' sid'"
    and "go_slice sid1" "go_slice k1" "go_slice sid2" "go_slice k2"
    and "ISK_material sid1 k1 t1 = ISK_material sid2 k2 t2"
  shows "sid = sid' \<and> isk = isk' \<and> sid1 = sid2 \<and> k1 = k2 \<and> t1 = t2"
proof -
  have "sid @ isk = sid' @ isk'" using assms(3) by (simp only: mac_key_material_def same_append_eq)
  moreover have "length isk = length isk'" by (simp only: assms(1,2))
  ultimately have "sid = sid' \<and> isk = isk'" by (rule append_eq_append_same_suffix_length)
  then show ?thesis using ISK_material_inj [OF assms(4-8)] by blast
qed

theorem hashed_material_inj_witness:
  "length (Sum512 [0]) = 64 \<and> ([5 :: byte] = [5] \<and> Sum512 [0] = Sum512 [0] \<and> [1 :: byte] = [1] \<and> [2 :: byte] = [2]
     \<and> [3 :: byte] = [3])"
proof (rule conjI [OF length_Sum512])
  show "[5 :: byte] = [5] \<and> Sum512 [0] = Sum512 [0] \<and> [1 :: byte] = [1] \<and> [2 :: byte] = [2] \<and> [3 :: byte] = [3]"
    by (rule hashed_material_inj [OF length_Sum512 length_Sum512 refl _ _ _ _ refl]) (simp_all add: go_slice_def)
qed

section \<open>Scalar sampling\<close>

lemma and_0f: "(x :: byte) AND 0x0f < 16"
proof -
  have "x AND 0x0f \<le> 0x0f" by (rule word_and_le1)
  also have "(0x0f :: byte) < 16" by simp
  finally show ?thesis .
qed

lemma length_fill [simp]: "length (fill got b) = length b"
  by (simp add: fill_def)

lemma sampleScalar_loop_cases:
  assumes "length b = 32" and "sampleScalar_loop R rdr n b w = ((res, b'), w')"
  shows "length b' = 32 \<and> (case res of
      Ok y \<Rightarrow> b' ! 31 < 16 \<and> Scalar_SetCanonicalBytes R b' = Some y \<and> Scalar_Equal R y (NewScalar R) \<noteq> 1
    | Err e \<Rightarrow> errors_Is e ErrRandomness
    | Panic m \<Rightarrow> False)"
  using assms
proof (induction n arbitrary: b w)
  case 0
  then show ?case by auto
next
  case (Suc n)
  obtain got err w1 where rdr: "rdr w 32 = ((got, err), w1)" by (metis surj_pair)
  define b2 where "b2 = (fill got b)[31 := fill got b ! 31 AND 0x0f]"
  have 2: "length b2 = 32" "b2 ! 31 < 16" using Suc.prems(1) and_0f by (auto simp: b2_def)
  note IH = Suc.IH [OF 2(1), of w1]
  note step = Suc.prems(2) [unfolded sampleScalar_loop.simps Suc.prems(1) rdr prod.case Let_def b2_def [symmetric]]
  show ?case
  proof (cases err)
    case (Some e)
    then show ?thesis using step Suc.prems(1) by auto
  next
    case None
    note step = step [unfolded None option.case]
    show ?thesis
    proof (cases "Scalar_SetCanonicalBytes R b2")
      case None
      then show ?thesis using step IH by simp
    next
      case (Some y)
      then show ?thesis using step IH 2 by (cases "Scalar_Equal R y (NewScalar R) = 1") auto
    qed
  qed
qed


text \<open>A reader that counts its calls, and a reader of constant bytes for the witness.\<close>

definition counting :: "'r reader \<Rightarrow> ('r \<times> nat) reader" where
  "counting rdr w k = (case rdr (fst w) k of (x, w') \<Rightarrow> (x, (w', Suc (snd w))))"

definition constant_reader :: "byte \<Rightarrow> unit reader" where
  "constant_reader x w k = ((replicate k x, None), ())"

lemma sampleScalar_loop_counting:
  "snd (snd (sampleScalar_loop R (counting rdr) n b w)) \<le> snd w + n"
proof (induction n arbitrary: b w)
  case (Suc n)
  obtain got err w1 where rdr: "rdr (fst w) (length b) = ((got, err), w1)" by (metis surj_pair)
  have IH: "snd (snd (sampleScalar_loop R (counting rdr) n b' (w1, Suc (snd w)))) \<le> snd w + Suc n" for b'
    using Suc.IH [of b' "(w1, Suc (snd w))"] by simp
  show ?case
    using IH by (simp add: counting_def [of rdr w] rdr Let_def split: option.split)
qed simp

lemma sampleScalar_keeps:
  assumes "sampleScalar R rdr s = (res, t)"
  shows "keeps {} s t \<and> scrubs {} s t \<and> elements t = elements s \<and> icores t = icores s \<and> rcores t = rcores s
     \<and> ustates t = ustates s \<and> sessions t = sessions s \<and> (\<forall>a < brk s. scalars t a = scalars s a)"
  using assms
  by (auto simp: sampleScalar_closed keeps_def scrubs_def split: prod.splits go.splits)

lemma sampleScalar_cases:
  assumes "sampleScalar R rdr s = (res, t)"
  shows "case res of
      Ok p \<Rightarrow> p = Some (Suc (brk s)) \<and> brk t = brk s + 2 \<and> Scalar_Equal R (scalars t (Suc (brk s))) (NewScalar R) \<noteq> 1
    | Err e \<Rightarrow> errors_Is e ErrRandomness \<and> scalars t = scalars s
    | Panic m \<Rightarrow> False"
proof -
  obtain r b w where loop: "sampleScalar_loop R rdr 128 (replicate 32 0) (rand s) = ((r, b), w)"
    by (metis surj_pair)
  from sampleScalar_loop_cases [OF _ this]
  show ?thesis using assms by (auto simp: sampleScalar_closed loop split: go.splits)
qed

text \<open>C22. \<open>sampleScalar\<close> returns a fresh scalar that is not zero, or an error that wraps
  \<open>ErrRandomness\<close>; it never panics, and on every exit the sampled bytes have been zeroed while
  no other memory has changed.\<close>

theorem sampleScalar_result:
  "\<exists>res t. sampleScalar R rdr s = (res, t) \<and> keeps {} s t \<and> mem t (brk s) = replicate 32 0 \<and>
    (case res of
       Ok p \<Rightarrow> \<exists>a. p = Some a \<and> brk s < a \<and> a < brk t \<and> Scalar_Equal R (scalars t a) (NewScalar R) \<noteq> 1
     | Err e \<Rightarrow> errors_Is e ErrRandomness \<and> scalars t = scalars s
     | Panic m \<Rightarrow> False)"
proof -
  obtain r b w where loop: "sampleScalar_loop R rdr 128 (replicate 32 0) (rand s) = ((r, b), w)"
    by (metis surj_pair)
  obtain res t where eq: "sampleScalar R rdr s = (res, t)" by fastforce
  have "length b = 32" using sampleScalar_loop_cases [OF _ loop] by simp
  then have "mem t (brk s) = replicate 32 0"
    using eq by (auto simp: sampleScalar_closed loop zeros_eq split: go.splits)
  moreover have "keeps {} s t" using sampleScalar_keeps [OF eq] by blast
  ultimately show ?thesis
    using eq sampleScalar_cases [OF eq] by (auto split: go.splits)
qed

text \<open>C23. \<open>sampleScalar\<close> makes at most 128 reads of its source, whatever the source and the
  group do.\<close>

theorem sampleScalar_reads:
  "snd (rand (snd (sampleScalar R (counting rdr) s))) \<le> snd (rand s) + maxScalarTries"
proof -
  obtain r b w where loop: "sampleScalar_loop R (counting rdr) 128 (replicate 32 0) (rand s) = ((r, b), w)"
    by (metis surj_pair)
  then show ?thesis
    using sampleScalar_loop_counting [of R rdr 128 "replicate 32 0" "rand s"]
    by (simp add: sampleScalar_closed maxScalarTries_def split: go.split)
qed

lemma sampleScalar_loop_first:
  assumes "scalar_laws R" and "rdr w 32 = ((got, None), w')" and "length b = 32" and "length got = 32"
    and "masked = got[31 := got ! 31 AND 0x0f]"
    and "Scalar_SetCanonicalBytes R masked \<noteq> Some (NewScalar R)"
  shows "\<exists>y. Scalar_SetCanonicalBytes R masked = Some y
     \<and> sampleScalar_loop R rdr (Suc n) b w = ((Ok y, masked), w')"
proof -
  have f: "fill got b = got" using assms(3,4) by (simp add: fill_def)
  have "length masked = 32" "masked ! 31 < 16" using assms(4,5) and_0f by auto
  then obtain y where y: "Scalar_SetCanonicalBytes R masked = Some y" using assms(1) by (auto simp: scalar_laws_def)
  moreover have "Scalar_Equal R y (NewScalar R) \<noteq> 1" using assms(1,6) y by (auto simp: scalar_laws_def)
  ultimately show ?thesis
    using assms(2,3) f by (simp add: assms(5) Let_def)
qed

text \<open>C24. The comment in \<open>sampleScalar\<close> is right: for a group order above \<open>2^252\<close> the decoder
  cannot reject a masked sample, so the first read whose masked bytes are not the zero scalar
  ends the loop with that scalar.\<close>

theorem sampleScalar_one_read:
  assumes "scalar_laws R" and "rdr (rand s) 32 = ((got, None), w')" and "length got = 32"
    and "Scalar_SetCanonicalBytes R (got[31 := got ! 31 AND 0x0f]) \<noteq> Some (NewScalar R)"
  shows "\<exists>y t. Scalar_SetCanonicalBytes R (got[31 := got ! 31 AND 0x0f]) = Some y
     \<and> sampleScalar R rdr s = (Ok (Some (Suc (brk s))), t) \<and> scalars t (Suc (brk s)) = y \<and> rand t = w'"
proof -
  let ?m = "got[31 := got ! 31 AND 0x0f]"
  have "\<exists>y. Scalar_SetCanonicalBytes R ?m = Some y
      \<and> sampleScalar_loop R rdr (Suc 127) (replicate 32 0) (rand s) = ((Ok y, ?m), w')"
    by (rule sampleScalar_loop_first [of R rdr "rand s" got w' "replicate 32 0"]) (simp_all add: assms)
  then obtain y where "Scalar_SetCanonicalBytes R ?m = Some y"
    and "sampleScalar_loop R rdr 128 (replicate 32 0) (rand s) = ((Ok y, ?m), w')"
    by auto
  then show ?thesis by (simp add: sampleScalar_closed)
qed

text \<open>The store that witnesses start from: nothing handed out, over the residues modulo 7.\<close>

definition empty_store :: "'r \<Rightarrow> (7, 7, 'r) store" where
  "empty_store w = \<lparr>brk = 0, mem = (\<lambda>_. []), scalars = (\<lambda>_. 0), elements = (\<lambda>_. 0),
     icores = (\<lambda>_. \<lparr>ic_scalar = None, ic_sid = None, ic_ya = None, ic_ada = None, ic_peerID = None\<rparr>),
     rcores = (\<lambda>_. \<lparr>rc_isk = None, rc_transcript = \<lparr>tr_transcript = None, tr_ya = None, tr_ada = None,
                     tr_yb = None, tr_adb = None\<rparr>, rc_sid = None, rc_peerID = None\<rparr>),
     ustates = (\<lambda>_. \<lparr>su_used = False, su_core = None, su_uninitialized = []\<rparr>),
     sessions = (\<lambda>_. \<lparr>ss_closed = False, ss_isk = None\<rparr>), rand = w\<rparr>"

lemma empty_store_simps [simp]:
  "brk (empty_store w) = 0" "mem (empty_store w) = (\<lambda>_. [])" "rand (empty_store w) = w"
  by (simp_all add: empty_store_def)

theorem sampleScalar_one_read_witness:
  "\<exists>y t. Scalar_SetCanonicalBytes residues ((replicate 32 3)[31 := 3]) = Some y
     \<and> sampleScalar residues (constant_reader 3) (empty_store ()) = (Ok (Some (Suc 0)), t) \<and> scalars t (Suc 0) = y
     \<and> rand t = ()"
  using sampleScalar_one_read [of residues "constant_reader 3" "empty_store ()" "replicate 32 3" "()"]
  by (auto simp: residues_laws constant_reader_def) (simp_all add: residues_def)

end
