(* ===== verification/Caps.thy ===== *)
theory Caps
  imports Errors
begin

text \<open>
  caps.go: the package-owned length caps, one named field each, with the two checks that
  caller inputs and wire messages go through. The sizes of a public share and of a
  confirmation tag (crypto.go) are here because the exact fields use them.
\<close>

section \<open>Constants\<close>

definition pointSize :: int where "pointSize = 32"
definition tagSize :: int where "tagSize = 64"

definition maxPasswordLength :: int where "maxPasswordLength = push_bit 10 4"
definition maxIDLength :: int where "maxIDLength = push_bit 10 4"
definition maxContextLength :: int where "maxContextLength = push_bit 10 1"
definition maxSessionIDLength :: int where "maxSessionIDLength = push_bit 10 1"
definition maxAssociatedDataLength :: int where "maxAssociatedDataLength = push_bit 10 64"

lemma size_simps [simp]: "pointSize = 32" "tagSize = 64"
  by (simp_all add: pointSize_def tagSize_def)

lemma max_simps [simp]:
  "maxPasswordLength = 4096" "maxIDLength = 4096" "maxContextLength = 1024"
  "maxSessionIDLength = 1024" "maxAssociatedDataLength = 65536"
  by (simp_all add: maxPasswordLength_def maxIDLength_def maxContextLength_def
      maxSessionIDLength_def maxAssociatedDataLength_def push_bit_eq_mult)

section \<open>Capped fields\<close>

record packageCapField =
  pcf_name :: string
  pcf_length :: int
  pcf_exact :: bool

definition newCappedPackageCapField :: "string \<Rightarrow> int \<Rightarrow> packageCapField" where
  "newCappedPackageCapField name maxLen = \<lparr>pcf_name = name, pcf_length = maxLen, pcf_exact = False\<rparr>"

definition newExactPackageCapField :: "string \<Rightarrow> int \<Rightarrow> packageCapField" where
  "newExactPackageCapField name wantLen = \<lparr>pcf_name = name, pcf_length = wantLen, pcf_exact = True\<rparr>"

definition validateInputLength :: "packageCapField \<Rightarrow> int \<Rightarrow> unit result" where
  "validateInputLength f n =
     (if n > pcf_length f
      then Err (Errorf [Wrap (Sentinel ErrInvalidInput), Txt '': '', Txt (pcf_name f), Txt '' too large''])
      else Ok ())"

definition validateMessageLength :: "packageCapField \<Rightarrow> int \<Rightarrow> unit result" where
  "validateMessageLength f n =
     (if pcf_exact f then
        (if n \<noteq> pcf_length f
         then Err (Errorf [Wrap (Sentinel ErrMessage), Txt '': '', Txt (pcf_name f), Txt '' length''])
         else Ok ())
      else if n > pcf_length f
        then Err (Errorf [Wrap (Sentinel ErrMessage), Txt '': '', Txt (pcf_name f), Txt '' field too large''])
        else Ok ())"

definition passwordCap :: packageCapField where
  "passwordCap = newCappedPackageCapField ''password'' maxPasswordLength"
definition selfIDCap :: packageCapField where
  "selfIDCap = newCappedPackageCapField ''self id'' maxIDLength"
definition peerIDCap :: packageCapField where
  "peerIDCap = newCappedPackageCapField ''peer id'' maxIDLength"
definition contextCap :: packageCapField where
  "contextCap = newCappedPackageCapField ''context'' maxContextLength"
definition sessionIDCap :: packageCapField where
  "sessionIDCap = newCappedPackageCapField ''session id'' maxSessionIDLength"
definition localAssociatedDataCap :: packageCapField where
  "localAssociatedDataCap = newCappedPackageCapField ''local associated data'' maxAssociatedDataLength"

definition messageASessionIDCap :: packageCapField where
  "messageASessionIDCap = newCappedPackageCapField ''message A session id'' maxSessionIDLength"
definition messageAPointCap :: packageCapField where
  "messageAPointCap = newExactPackageCapField ''message A point'' pointSize"
definition messageAAssociatedDataCap :: packageCapField where
  "messageAAssociatedDataCap = newCappedPackageCapField ''message A associated data'' maxAssociatedDataLength"
definition messageBPointCap :: packageCapField where
  "messageBPointCap = newExactPackageCapField ''message B point'' pointSize"
definition messageBAssociatedDataCap :: packageCapField where
  "messageBAssociatedDataCap = newCappedPackageCapField ''message B associated data'' maxAssociatedDataLength"
definition messageBTagCap :: packageCapField where
  "messageBTagCap = newExactPackageCapField ''message B tag'' tagSize"
definition messageCTagCap :: packageCapField where
  "messageCTagCap = newExactPackageCapField ''message C tag'' tagSize"

lemmas cap_field_defs = newCappedPackageCapField_def newExactPackageCapField_def

lemmas message_cap_defs = messageASessionIDCap_def messageAPointCap_def
  messageAAssociatedDataCap_def messageBPointCap_def messageBAssociatedDataCap_def
  messageBTagCap_def messageCTagCap_def cap_field_defs

lemmas input_cap_defs = passwordCap_def selfIDCap_def peerIDCap_def contextCap_def
  sessionIDCap_def localAssociatedDataCap_def cap_field_defs

section \<open>What a field accepts\<close>

text \<open>\<open>field_ok f d\<close>: the length of the wire field \<open>d\<close> passes \<open>validateMessageLength f\<close>.\<close>

definition field_ok :: "packageCapField \<Rightarrow> bytes \<Rightarrow> bool" where
  "field_ok f d \<longleftrightarrow>
     (if pcf_exact f then int (length d) = pcf_length f else int (length d) \<le> pcf_length f)"

lemma validateMessageLength_Ok:
  "validateMessageLength f (int (length d)) = Ok u \<longleftrightarrow> field_ok f d"
  by (simp add: validateMessageLength_def field_ok_def)

lemma validateMessageLength_cases:
  obtains "validateMessageLength f n = Ok ()"
  | e where "validateMessageLength f n = Err e" "errors_Is e ErrMessage"
  by (cases "validateMessageLength f n = Ok ()")
    (auto simp: validateMessageLength_def split: if_splits)

end
