(* ===== verification/Peer_Share.thy ===== *)
theory Peer_Share
  imports Crypto Caps
begin

text \<open>
  peer_share.go: decoding of the peer's public share, the verified scalar multiplication and
  the mapping of their errors to the exported sentinels with role context. Elements are cells of the
  store: the receiver of the decoding, and the receiver of the multiplication, which keeps the shared
  secret as a group element that nothing clears. Its encoding is a slice, which the callers clear.
  Arithmetic on nil pointers is a panic.
\<close>

section \<open>Operations\<close>

type_synonym peerShareRole = string

definition initiatorPeerShare :: peerShareRole where "initiatorPeerShare = ''initiator''"
definition responderPeerShare :: peerShareRole where "responderPeerShare = ''responder''"

definition isIdentityEncoding :: "bytes \<Rightarrow> bool" where
  "isIdentityEncoding encoded = hmac_Equal encoded (replicate (nat pointSize) 0)"

text \<open>A rejected encoding leaves the receiver of \<open>SetCanonicalBytes\<close> as it was, the identity.\<close>

definition decodePublicShare ::
  "('s, 'e) ristretto \<Rightarrow> bytes \<Rightarrow> ('s, 'e, 'r) store \<Rightarrow> nat option result \<times> ('s, 'e, 'r) store" where
  "decodePublicShare R encoded s =
     (if int (length encoded) \<noteq> pointSize then (Err (errorf ErrAbort ''invalid peer share length''), s)
      else case Element_SetCanonicalBytes R encoded of
             None \<Rightarrow> (Err (errorf_wrap ErrAbort ErrPeerShareEncoding), snd (alloc_element (NewIdentityElement R) s))
           | Some v \<Rightarrow>
               (let (p, s) = alloc_element v s
                in if isIdentityEncoding (Element_Bytes R (elements s (the p)))
                   then (Err (errorf_wrap ErrAbort ErrPeerShareIdentity), s)
                   else (Ok p, s)))"

definition wrapError :: "peerShareRole \<Rightarrow> gerror \<Rightarrow> gerror" where
  "wrapError r err =
     (if errors_Is err ErrPeerShareEncoding then
        Errorf [Wrap (Sentinel ErrAbort), Txt '': invalid '', Txt r, Txt '' share: '', Wrap (Sentinel ErrPeerShareEncoding)]
      else if errors_Is err ErrPeerShareIdentity then
        Errorf [Wrap (Sentinel ErrAbort), Txt '': invalid '', Txt r, Txt '' share: '', Wrap (Sentinel ErrPeerShareIdentity)]
      else err)"

definition scalarMultVFYElement ::
  "('s, 'e) ristretto \<Rightarrow> nat option \<Rightarrow> nat option \<Rightarrow> ('s, 'e, 'r) store \<Rightarrow> slice result \<times> ('s, 'e, 'r) store" where
  "scalarMultVFYElement R x p s =
     (case (x, p) of
        (Some a, Some e) \<Rightarrow>
          (let (q, s) = alloc_element (Element_ScalarMult R (scalars s a) (elements s e)) s;
               (out, s) = alloc (Element_Bytes R (elements s (the q))) s
           in if isIdentityEncoding (rd s out) then (Err (errorf ErrAbort ''neutral-element shared secret''), s)
              else (Ok out, s))
      | _ \<Rightarrow> (Panic ''nil pointer dereference'', s))"

definition scalarMultVFY ::
  "('s, 'e) ristretto \<Rightarrow> nat option \<Rightarrow> bytes \<Rightarrow> ('s, 'e, 'r) store \<Rightarrow> slice result \<times> ('s, 'e, 'r) store" where
  "scalarMultVFY R x encoded s =
     (case decodePublicShare R encoded s of
        (Ok p, s) \<Rightarrow> scalarMultVFYElement R x p s
      | (Err e, s) \<Rightarrow> (Err e, s)
      | (Panic m, s) \<Rightarrow> (Panic m, s))"

definition role_decode ::
  "('s, 'e) ristretto \<Rightarrow> peerShareRole \<Rightarrow> bytes \<Rightarrow> ('s, 'e, 'r) store \<Rightarrow> nat option result \<times> ('s, 'e, 'r) store" where
  "role_decode R r encoded s =
     (case decodePublicShare R encoded s of
        (Ok p, s) \<Rightarrow> (Ok p, s)
      | (Err e, s) \<Rightarrow> (Err (wrapError r e), s)
      | (Panic m, s) \<Rightarrow> (Panic m, s))"

definition sharedSecret ::
  "('s, 'e) ristretto \<Rightarrow> peerShareRole \<Rightarrow> nat option \<Rightarrow> bytes \<Rightarrow> ('s, 'e, 'r) store
     \<Rightarrow> slice result \<times> ('s, 'e, 'r) store" where
  "sharedSecret R r x encoded s =
     (case scalarMultVFY R x encoded s of
        (Ok k, s) \<Rightarrow> (Ok k, s)
      | (Err e, s) \<Rightarrow> (Err (wrapError r e), s)
      | (Panic m, s) \<Rightarrow> (Panic m, s))"

definition sharedSecretElement ::
  "('s, 'e) ristretto \<Rightarrow> peerShareRole \<Rightarrow> nat option \<Rightarrow> nat option \<Rightarrow> ('s, 'e, 'r) store
     \<Rightarrow> slice result \<times> ('s, 'e, 'r) store" where
  "sharedSecretElement R r x p s =
     (case scalarMultVFYElement R x p s of
        (Ok k, s) \<Rightarrow> (Ok k, s)
      | (Err e, s) \<Rightarrow> (Err (wrapError r e), s)
      | (Panic m, s) \<Rightarrow> (Panic m, s))"

section \<open>Closed forms\<close>

lemma isIdentityEncoding_iff [simp]: "isIdentityEncoding b \<longleftrightarrow> b = replicate 32 0"
  by (simp add: isIdentityEncoding_def hmac_Equal_def pointSize_def)

lemma wrapError_simps [simp]:
  "wrapError r (errorf_wrap ErrAbort ErrPeerShareEncoding) =
     Errorf [Wrap (Sentinel ErrAbort), Txt '': invalid '', Txt r, Txt '' share: '', Wrap (Sentinel ErrPeerShareEncoding)]"
  "wrapError r (errorf_wrap ErrAbort ErrPeerShareIdentity) =
     Errorf [Wrap (Sentinel ErrAbort), Txt '': invalid '', Txt r, Txt '' share: '', Wrap (Sentinel ErrPeerShareIdentity)]"
  "wrapError r (errorf ErrAbort m) = errorf ErrAbort m"
  by (simp_all add: wrapError_def)

text \<open>The abstract meaning of a share: the element that it encodes, when it is a usable one.\<close>

definition share :: "('s, 'e) ristretto \<Rightarrow> bytes \<Rightarrow> 'e option" where
  "share R b =
     (if length b = 32 then
        (case Element_SetCanonicalBytes R b of
           None \<Rightarrow> None
         | Some p \<Rightarrow> if Element_Bytes R p = replicate 32 0 then None else Some p)
      else None)"

text \<open>The decoding on values, and the group elements that it can leave behind.\<close>

definition decoded_share :: "('s, 'e) ristretto \<Rightarrow> peerShareRole \<Rightarrow> bytes \<Rightarrow> 'e result" where
  "decoded_share R r encoded =
     (if length encoded \<noteq> 32 then Err (errorf ErrAbort ''invalid peer share length'')
      else case Element_SetCanonicalBytes R encoded of
             None \<Rightarrow> Err (wrapError r (errorf_wrap ErrAbort ErrPeerShareEncoding))
           | Some v \<Rightarrow>
               if Element_Bytes R v = replicate 32 0 then Err (wrapError r (errorf_wrap ErrAbort ErrPeerShareIdentity))
               else Ok v)"

definition decoded_elements :: "('s, 'e) ristretto \<Rightarrow> bytes \<Rightarrow> 'e set" where
  "decoded_elements R encoded = insert (NewIdentityElement R) (set_option (Element_SetCanonicalBytes R encoded))"

lemma decoded_share_Ok_iff: "decoded_share R r b = Ok p \<longleftrightarrow> share R b = Some p"
  by (auto simp: decoded_share_def share_def split: option.splits if_splits)

lemma decoded_share_Err: "decoded_share R r b = Err e \<Longrightarrow> errors_Is e ErrAbort"
  by (auto simp: decoded_share_def split: option.splits if_splits)

lemma decoded_share_total: "decoded_share R r b \<noteq> Panic m"
  by (auto simp: decoded_share_def split: option.splits)

lemma share_None: "share R b = None \<Longrightarrow> \<exists>e. decoded_share R r b = Err e \<and> errors_Is e ErrAbort"
  using decoded_share_Ok_iff [of R r b] decoded_share_Err [of R r b] decoded_share_total [of R r b]
  by (cases "decoded_share R r b") auto

lemma share_decoded: "share R b = Some p \<Longrightarrow> p \<in> decoded_elements R b"
  by (auto simp: share_def decoded_elements_def split: if_splits option.splits)

lemma role_decode_contract:
  assumes "role_decode R r b s = (res, t)" and "decoded_elements R b \<subseteq> E"
  shows "leaves A E {} s t" and "case decoded_share R r b of
      Ok p \<Rightarrow> res = Ok (Some (brk s)) \<and> brk t = Suc (brk s) \<and> elements t (brk s) = p
    | Err e \<Rightarrow> res = Err e
    | Panic m \<Rightarrow> False"
  using assms
  by (auto simp: role_decode_def decodePublicShare_def decoded_share_def decoded_elements_def pointSize_def heap_simps Let_def
      leaves_def keeps_def split: option.splits if_splits)

lemma sharedSecretElement_closed [heap_simps]:
  "sharedSecretElement R r (Some a) (Some e) s =
     (let v = Element_ScalarMult R (scalars s a) (elements s e); k = Element_Bytes R v; n = brk s;
          t = s\<lparr>brk := Suc (Suc n), elements := (elements s)(n := v), mem := (mem s)(Suc n := k)\<rparr>
      in if k = replicate 32 0 then (Err (errorf ErrAbort ''neutral-element shared secret''), t)
         else (Ok (Some (Suc n)), t))"
  by (simp add: sharedSecretElement_def scalarMultVFYElement_def heap_simps Let_def)

lemma sharedSecret_decode:
  "sharedSecret R r x b s =
     (case role_decode R r b s of
        (Ok p, s) \<Rightarrow> sharedSecretElement R r x p s
      | (Err e, s) \<Rightarrow> (Err e, s)
      | (Panic m, s) \<Rightarrow> (Panic m, s))"
  by (simp add: sharedSecret_def role_decode_def scalarMultVFY_def sharedSecretElement_def split: go.split prod.split)

section \<open>Contract\<close>

lemma sharedSecretElement_contract:
  assumes "sharedSecretElement R r (Some a) (Some e) s = (res, t)"
    and "v = Element_ScalarMult R (scalars s a) (elements s e)" and "v \<in> E"
  shows "elements t (brk s) = v \<and> (case res of
      Ok k \<Rightarrow> k = Some (Suc (brk s)) \<and> brk t = Suc (Suc (brk s)) \<and> leaves A E {Suc (brk s)} s t
         \<and> mem t (Suc (brk s)) = Element_Bytes R v \<and> Element_Bytes R v \<noteq> replicate 32 0
    | Err err \<Rightarrow> err = errorf ErrAbort ''neutral-element shared secret'' \<and> leaves A E {} s t
         \<and> Element_Bytes R v = replicate 32 0
    | Panic m \<Rightarrow> False)"
  using assms
  by (auto simp: sharedSecretElement_closed Let_def leaves_def keeps_def zeros_eq split: if_splits)

section \<open>Properties\<close>

lemma role_decode_cases:
  "case role_decode R r encoded s of (res, t) \<Rightarrow> keeps {} s t \<and> frame s t \<and> (case res of
     Ok p \<Rightarrow> p = Some (brk s) \<and> brk s < brk t \<and> length encoded = 32
       \<and> Element_SetCanonicalBytes R encoded = Some (elements t (brk s)) \<and> Element_Bytes R (elements t (brk s)) \<noteq> replicate 32 0
   | Err e \<Rightarrow>
       (\<forall>x. errors_Is e x \<longleftrightarrow>
          x = ErrAbort
          \<or> x = ErrPeerShareEncoding \<and> length encoded = 32 \<and> Element_SetCanonicalBytes R encoded = None
          \<or> x = ErrPeerShareIdentity \<and> length encoded = 32
             \<and> (\<exists>p. Element_SetCanonicalBytes R encoded = Some p \<and> Element_Bytes R p = replicate 32 0))
       \<and> error_text e =
           (if length encoded \<noteq> 32 then ''cpace: protocol abort: invalid peer share length''
            else ''cpace: protocol abort: invalid '' @ r @ '' share: '' @
              (if Element_SetCanonicalBytes R encoded = None then ''cpace: peer share encoding''
               else ''cpace: peer share identity''))
   | Panic m \<Rightarrow> False)"
  by (auto simp: role_decode_def decodePublicShare_def pointSize_def heap_simps Let_def keeps_def frame_def split: option.split)

lemma sharedSecret_cases:
  "\<exists>res t. sharedSecret R r (Some a) encoded s = (res, t) \<and> keeps {} s t \<and> frame s t \<and>
    (case res of
       Ok k \<Rightarrow> (\<exists>p. share R encoded = Some p \<and> rd t k = scalarMult_bytes R (scalars s a) p \<and> rd t k \<noteq> replicate 32 0)
     | Err e \<Rightarrow> errors_Is e ErrAbort \<and> (case share R encoded of
           None \<Rightarrow> True
         | Some p \<Rightarrow> scalarMult_bytes R (scalars s a) p = replicate 32 0)
     | Panic m \<Rightarrow> False)"
proof -
  obtain q u where D: "role_decode R r encoded s = (q, u)" by fastforce
  note dec = role_decode_contract [OF D, where E = UNIV, simplified]
  show ?thesis
  proof (cases "decoded_share R r encoded")
    case (Ok p)
    then have sh: "share R encoded = Some p" and q: "q = Ok (Some (brk s))" "elements u (brk s) = p"
      using dec(2) decoded_share_Ok_iff [of R r encoded p] by simp_all
    obtain res t where S: "sharedSecretElement R r (Some a) (Some (brk s)) u = (res, t)" by fastforce
    have same: "scalars u = scalars s" using leaves_same [OF dec(1)] by simp
    note K = sharedSecretElement_contract [OF S refl, where E = UNIV and A = UNIV, simplified, unfolded q(2) same]
    have "leaves UNIV UNIV {} u t \<or> leaves UNIV UNIV {Suc (brk u)} u t" using K by (auto split: go.splits)
    then have "leaves UNIV UNIV {Suc (brk u)} u t" by (blast intro: leaves_mono)
    from leaves_trans [OF dec(1) this] have "leaves UNIV UNIV ({} \<union> {Suc (brk u)}) s t" .
    then have "keeps {} s t" "frame s t" using leaves_same leaves_frame by blast+
    then show ?thesis
      using K by (simp add: sharedSecret_decode D q(1) S sh scalarMult_bytes_def split: go.splits)
  next
    case (Err e)
    then have "q = Err e" "errors_Is e ErrAbort" "share R encoded = None"
      using dec(2) decoded_share_Err [OF Err] decoded_share_Ok_iff [of R r encoded] by (auto split: option.splits)
    then show ?thesis
      using leaves_same [OF dec(1)] leaves_frame [OF dec(1)] by (simp add: sharedSecret_decode D)
  next
    case (Panic m)
    then show ?thesis by (simp add: decoded_share_total)
  qed
qed

text \<open>C20. Classification of a peer share, for either role: it is accepted exactly when it is the
  32-byte encoding of an element whose canonical encoding is not that of the identity, and that element is the one
  returned; every rejection wraps \<open>ErrAbort\<close>, is \<open>ErrPeerShareEncoding\<close> exactly for 32 bytes that do not
  decode and \<open>ErrPeerShareIdentity\<close> exactly for the identity, names the role in its text in
  these two cases, and matches no other sentinel. Decoding does not panic. And the Diffie-Hellman
  result that reaches the key derivation is that of the accepted share and never the encoding of the neutral
  element, whatever the scalar: \<open>sharedSecret\<close> fails with \<open>ErrAbort\<close> otherwise, and changes no
  existing memory.\<close>

theorem peer_share_classification:
  "(case role_decode R r encoded s of (res, t) \<Rightarrow> keeps {} s t \<and> frame s t \<and> (case res of
     Ok p \<Rightarrow> p = Some (brk s) \<and> brk s < brk t \<and> length encoded = 32
       \<and> Element_SetCanonicalBytes R encoded = Some (elements t (brk s)) \<and> Element_Bytes R (elements t (brk s)) \<noteq> replicate 32 0
   | Err e \<Rightarrow>
       (\<forall>x. errors_Is e x \<longleftrightarrow>
          x = ErrAbort
          \<or> x = ErrPeerShareEncoding \<and> length encoded = 32 \<and> Element_SetCanonicalBytes R encoded = None
          \<or> x = ErrPeerShareIdentity \<and> length encoded = 32
             \<and> (\<exists>p. Element_SetCanonicalBytes R encoded = Some p \<and> Element_Bytes R p = replicate 32 0))
       \<and> error_text e =
           (if length encoded \<noteq> 32 then ''cpace: protocol abort: invalid peer share length''
            else ''cpace: protocol abort: invalid '' @ r @ '' share: '' @
              (if Element_SetCanonicalBytes R encoded = None then ''cpace: peer share encoding''
               else ''cpace: peer share identity''))
   | Panic m \<Rightarrow> False))
   \<and> (\<exists>res t. sharedSecret R r (Some a) encoded s = (res, t) \<and> keeps {} s t \<and> frame s t \<and>
    (case res of
       Ok k \<Rightarrow> (\<exists>p. share R encoded = Some p \<and> rd t k = scalarMult_bytes R (scalars s a) p \<and> rd t k \<noteq> replicate 32 0)
     | Err e \<Rightarrow> errors_Is e ErrAbort \<and> (case share R encoded of
           None \<Rightarrow> True
         | Some p \<Rightarrow> scalarMult_bytes R (scalars s a) p = replicate 32 0)
     | Panic m \<Rightarrow> False))"
  using role_decode_cases sharedSecret_cases by (rule conjI)

lemma identity_encoding: "encoding_laws R \<Longrightarrow> Element_Bytes R e = replicate 32 0 \<longleftrightarrow> e = NewIdentityElement R"
  unfolding encoding_laws_def by (metis option.inject)

text \<open>C21. The comment in \<open>scalarMultVFYElement\<close> is right: in a group of prime order a scalar that is
  not zero times any share that decodes is not the identity, so the neutral-element branch is
  unreachable after \<open>sampleScalar\<close>.\<close>

theorem neutral_branch_unreachable:
  assumes "encoding_laws R" and "prime_order_law R"
    and "role_decode R r encoded s = (Ok (Some e), u)" and "scalars s a \<noteq> NewScalar R"
  shows "\<exists>k t. sharedSecret R r (Some a) encoded s = (Ok k, t)
     \<and> rd t k = Element_Bytes R (Element_ScalarMult R (scalars s a) (elements u e))"
proof -
  have sh: "Element_SetCanonicalBytes R encoded = Some (elements u e)" "Element_Bytes R (elements u e) \<noteq> replicate 32 0"
    using role_decode_cases [where R = R and r = r and encoded = encoded and s = s] by (simp_all add: assms(3) split: option.splits)
  have "scalars u = scalars s"
    using leaves_same [OF role_decode_contract(1) [OF assms(3) subset_UNIV]] by simp
  moreover have "elements u e \<noteq> NewIdentityElement R" using assms(1) sh(2) by (auto simp: identity_encoding)
  then have "Element_Bytes R (Element_ScalarMult R (scalars s a) (elements u e)) \<noteq> replicate 32 0"
    using assms(1,2,4) by (auto simp: identity_encoding prime_order_law_def)
  ultimately show ?thesis by (simp add: sharedSecret_decode assms(3) sharedSecretElement_closed Let_def)
qed

lemma share_residues: "share residues (residue_bytes e) = (if e = 0 then None else Some e)"
proof -
  have B: "Element_Bytes residues = residue_bytes" by (simp add: residues_def)
  have "Element_SetCanonicalBytes residues (residue_bytes e) = Some e" and "length (residue_bytes e) = 32"
    and "residue_bytes 0 = replicate 32 0"
    using residues_encoding by (simp_all add: encoding_laws_def B) (simp add: residues_def)
  then show ?thesis using residue_bytes_inject [of e 0] by (simp add: share_def B)
qed

theorem neutral_branch_unreachable_witness:
  "\<exists>k t. sharedSecret residues responderPeerShare (Some 0) (residue_bytes 3)
        ((empty_store ())\<lparr>scalars := \<lambda>_. 2\<rparr>) = (Ok k, t)
     \<and> rd t k = residue_bytes 6"
proof -
  let ?s = "(empty_store ())\<lparr>scalars := \<lambda>_. 2\<rparr>"
  obtain res u where D: "role_decode residues responderPeerShare (residue_bytes 3) ?s = (res, u)" by fastforce
  have "decoded_share residues responderPeerShare (residue_bytes 3) = Ok 3"
    by (simp add: decoded_share_Ok_iff share_residues)
  then have "res = Ok (Some 0)" "elements u 0 = 3" using role_decode_contract(2) [OF D subset_UNIV] by simp_all
  then show ?thesis
    using neutral_branch_unreachable [OF residues_encoding residues_laws(3), of responderPeerShare "residue_bytes 3" ?s 0 u 0] D
    by (simp add: residues_def)
qed

end
