(* ===== verification/Transcript.thy ===== *)
theory Transcript
  imports Peer_Share
begin

text \<open>
  transcript.go: the initiator-responder transcript, a struct of five slices that it owns, the
  values derived from it, and its wipe.
\<close>

section \<open>Operations\<close>

definition newIRTranscript ::
  "slice \<Rightarrow> slice \<Rightarrow> slice \<Rightarrow> slice \<Rightarrow> ('s, 'e, 'r) store \<Rightarrow> irTranscript \<times> ('s, 'e, 'r) store" where
  "newIRTranscript ya ada yb adb s =
     (let (ya, s) = clone ya s;
          (ada, s) = clone ada s;
          (yb, s) = clone yb s;
          (adb, s) = clone adb s;
          transcript = lvCat [rd s ya, rd s ada];
          (transcript, s) = alloc (transcript @ lvCat [rd s yb, rd s adb]) s
      in (\<lparr>tr_transcript = transcript, tr_ya = ya, tr_ada = ada, tr_yb = yb, tr_adb = adb\<rparr>, s))"

definition tr_transcriptID :: "irTranscript \<Rightarrow> ('s, 'e, 'r) store \<Rightarrow> slice \<times> ('s, 'e, 'r) store" where
  "tr_transcriptID t s = alloc (transcriptID (rd s (tr_transcript t))) s"

definition tr_deriveISK :: "irTranscript \<Rightarrow> slice \<Rightarrow> slice \<Rightarrow> ('s, 'e, 'r) store \<Rightarrow> slice \<times> ('s, 'e, 'r) store" where
  "tr_deriveISK t sid k s = deriveISK sid k (tr_transcript t) s"

definition initiatorAD :: "irTranscript \<Rightarrow> ('s, 'e, 'r) store \<Rightarrow> slice \<times> ('s, 'e, 'r) store" where
  "initiatorAD t s = clone (tr_ada t) s"

text \<open>\<open>clear\<close> on a pointer to the struct: the struct is returned with its fields nil.\<close>

definition tr_clear ::
  "irTranscript option \<Rightarrow> ('s, 'e, 'r) store \<Rightarrow> irTranscript option \<times> ('s, 'e, 'r) store" where
  "tr_clear p s =
     (case p of
        None \<Rightarrow> (None, s)
      | Some t \<Rightarrow>
          (let s = clearBytes (tr_transcript t) s;
               s = clearBytes (tr_ya t) s;
               s = clearBytes (tr_ada t) s;
               s = clearBytes (tr_yb t) s;
               s = clearBytes (tr_adb t) s
           in (Some (t\<lparr>tr_transcript := None, tr_ya := None, tr_ada := None, tr_yb := None, tr_adb := None\<rparr>), s)))"

definition initiatorConfirmationTag ::
  "irTranscript \<Rightarrow> slice \<Rightarrow> slice \<Rightarrow> ('s, 'e, 'r) store \<Rightarrow> slice \<times> ('s, 'e, 'r) store" where
  "initiatorConfirmationTag t isk sid s = confirmationTag isk sid (tr_ya t) (tr_ada t) s"

definition responderConfirmationTag ::
  "irTranscript \<Rightarrow> slice \<Rightarrow> slice \<Rightarrow> ('s, 'e, 'r) store \<Rightarrow> slice \<times> ('s, 'e, 'r) store" where
  "responderConfirmationTag t isk sid s = confirmationTag isk sid (tr_yb t) (tr_adb t) s"

section \<open>Specification\<close>

definition transcript_value :: "bytes \<Rightarrow> bytes \<Rightarrow> bytes \<Rightarrow> bytes \<Rightarrow> bytes" where
  "transcript_value ya ada yb adb = lvCat [ya, ada] @ lvCat [yb, adb]"

text \<open>\<open>transcript_at s t ya ada yb adb\<close>: in \<open>s\<close> the struct \<open>t\<close> holds the transcript of these values.\<close>

definition transcript_at ::
  "('s, 'e, 'r) store \<Rightarrow> irTranscript \<Rightarrow> bytes \<Rightarrow> bytes \<Rightarrow> bytes \<Rightarrow> bytes \<Rightarrow> bool" where
  "transcript_at s t ya ada yb adb \<longleftrightarrow>
     valid s (tr_transcript t) \<and> valid s (tr_ya t) \<and> valid s (tr_ada t) \<and> valid s (tr_yb t) \<and> valid s (tr_adb t)
     \<and> rd s (tr_transcript t) = transcript_value ya ada yb adb
     \<and> rd s (tr_ya t) = ya \<and> rd s (tr_ada t) = ada \<and> rd s (tr_yb t) = yb \<and> rd s (tr_adb t) = adb"

definition transcript_cells :: "irTranscript \<Rightarrow> nat set" where
  "transcript_cells t = (\<Union>sl \<in> {tr_transcript t, tr_ya t, tr_ada t, tr_yb t, tr_adb t}. set_option sl)"

lemma transcript_cells_lt: "transcript_at s t ya ada yb adb \<Longrightarrow> x \<in> transcript_cells t \<Longrightarrow> x < brk s"
  by (rule cells_lt [of "[tr_transcript t, tr_ya t, tr_ada t, tr_yb t, tr_adb t]"])
    (simp_all add: transcript_at_def transcript_cells_def cells_def eq_commute)

lemma transcript_at_leaves:
  "transcript_at s t ya ada yb adb \<Longrightarrow> leaves A E W s s' \<Longrightarrow> transcript_at s' t ya ada yb adb"
  by (simp add: transcript_at_def leaves_rd leaves_valid)

lemma newIRTranscript_closed [heap_simps]:
  assumes "valid s ya" "valid s ada" "valid s yb" "valid s adb"
  shows "newIRTranscript ya ada yb adb s =
    (let n = brk s in
     (\<lparr>tr_transcript = Some (Suc (Suc (Suc (Suc n)))), tr_ya = slice_at ya n, tr_ada = slice_at ada (Suc n),
        tr_yb = slice_at yb (Suc (Suc n)), tr_adb = slice_at adb (Suc (Suc (Suc n)))\<rparr>,
      s\<lparr>brk := Suc (Suc (Suc (Suc (Suc n)))),
         mem := (mem s)(n := rd s ya, Suc n := rd s ada, Suc (Suc n) := rd s yb, Suc (Suc (Suc n)) := rd s adb,
           Suc (Suc (Suc (Suc n))) := transcript_value (rd s ya) (rd s ada) (rd s yb) (rd s adb))\<rparr>))"
  using assms
  by (simp add: newIRTranscript_def heap_simps Let_def transcript_value_def)

lemma newIRTranscript_at:
  assumes "valid s ya" "valid s ada" "valid s yb" "valid s adb"
    and "newIRTranscript ya ada yb adb s = (t, s')"
  shows "transcript_at s' t (rd s ya) (rd s ada) (rd s yb) (rd s adb)"
  using assms by (auto simp: heap_simps Let_def transcript_at_def valid_slice_at)

lemma newIRTranscript_contract:
  assumes "newIRTranscript ya ada yb adb s = (t, s')"
    and "valid s ya" "valid s ada" "valid s yb" "valid s adb"
  shows "allocates (transcript_cells t) s s'"
    and "transcript_at s' t (rd s ya) (rd s ada) (rd s yb) (rd s adb)"
    and "\<forall>a \<in> transcript_cells t. brk s \<le> a"
proof -
  obtain n m where n: "n = brk s" and t: "t = \<lparr>tr_transcript = Some (Suc (Suc (Suc (Suc n)))), tr_ya = slice_at ya n,
        tr_ada = slice_at ada (Suc n), tr_yb = slice_at yb (Suc (Suc n)), tr_adb = slice_at adb (Suc (Suc (Suc n)))\<rparr>"
    using assms by (simp add: newIRTranscript_closed Let_def)
  have cells: "a \<in> transcript_cells t \<longleftrightarrow> a = Suc (Suc (Suc (Suc n))) \<or> ya \<noteq> None \<and> a = n \<or> ada \<noteq> None \<and> a = Suc n
      \<or> yb \<noteq> None \<and> a = Suc (Suc n) \<or> adb \<noteq> None \<and> a = Suc (Suc (Suc n))" for a
    by (auto simp add: t transcript_cells_def slice_at_def)
  then show "\<forall>a \<in> transcript_cells t. brk s \<le> a" by (auto simp: n)
  have "mem s' a = mem s a \<or> zeros (mem s' a) = mem s' a" if "a \<notin> transcript_cells t" for a
    using that assms by (auto simp: cells n newIRTranscript_closed Let_def)
  then show "allocates (transcript_cells t) s s'"
    using assms by (auto simp: newIRTranscript_closed Let_def allocates_def keeps_def scrubs_def)
  show "transcript_at s' t (rd s ya) (rd s ada) (rd s yb) (rd s adb)"
    by (rule newIRTranscript_at [OF assms(2-5,1)])
qed

lemma transcript_inj:
  assumes "list_all go_slice [ya, ada, yb, adb]" and "list_all go_slice [ya', ada', yb', adb']"
    and "transcript_value ya ada yb adb = transcript_value ya' ada' yb' adb'"
  shows "ya = ya' \<and> ada = ada' \<and> yb = yb' \<and> adb = adb'"
proof -
  have "lvCat [ya, ada, yb, adb] = lvCat [ya', ada', yb', adb']"
    using assms by (simp add: transcript_value_def lvCat_lv)
  then show ?thesis using lvCat_inj [OF assms(1,2)] by simp
qed

section \<open>Properties\<close>

text \<open>C28. A transcript that \<open>newIRTranscript\<close> builds owns fresh copies of the four wire values and
  the concatenation of their length-value encodings; the values it was built from are unchanged, and that
  concatenation, hence what the session key and the transcript id are computed from,
  determines the four values.\<close>

theorem newIRTranscript_correct:
  assumes "valid s ya" "valid s ada" "valid s yb" "valid s adb"
    and "list_all go_slice [rd s ya, rd s ada, rd s yb, rd s adb]"
  shows "\<exists>t s'. newIRTranscript ya ada yb adb s = (t, s') \<and> keeps {} s s' \<and> frame s s'
     \<and> transcript_at s' t (rd s ya) (rd s ada) (rd s yb) (rd s adb)
     \<and> (\<forall>a \<in> transcript_cells t. brk s \<le> a \<and> a < brk s')
     \<and> (\<forall>ya' ada' yb' adb'. list_all go_slice [ya', ada', yb', adb']
          \<and> rd s' (tr_transcript t) = transcript_value ya' ada' yb' adb'
          \<longrightarrow> ya' = rd s ya \<and> ada' = rd s ada \<and> yb' = rd s yb \<and> adb' = rd s adb)"
proof -
  obtain t s' where eq: "newIRTranscript ya ada yb adb s = (t, s')" by fastforce
  have at: "transcript_at s' t (rd s ya) (rd s ada) (rd s yb) (rd s adb)"
    by (rule newIRTranscript_at [OF assms(1-4) eq])
  have "keeps {} s s'" "frame s s'" "\<forall>a \<in> transcript_cells t. brk s \<le> a \<and> a < brk s'"
    using assms(1-4) eq
    by (auto simp: heap_simps Let_def store_relations transcript_cells_def slice_at_def)
  then show ?thesis
    using eq at transcript_inj [OF _ assms(5)] by (auto simp: transcript_at_def)
qed

theorem newIRTranscript_correct_witness:
  "\<exists>t s'. newIRTranscript (Some 0) None (Some 1) (Some 1) ((empty_store ())\<lparr>brk := 2, mem := \<lambda>a. [of_nat a]\<rparr>) = (t, s')
     \<and> transcript_at s' t [0] [] [1] [1]"
  using newIRTranscript_correct [of "(empty_store ())\<lparr>brk := 2, mem := \<lambda>a. [of_nat a]\<rparr>" "Some 0" None "Some 1" "Some 1"]
  by (auto simp: go_slice_def)

end
