(* ===== verification/Input.thy ===== *)
theory Input
  imports Transcript
begin

text \<open>
  input.go: validation and copying of the caller's input, its normal form for either role, the
  channel identifier, and the wipes of both copies. The receiver of a pointer method is passed
  and returned.
\<close>

section \<open>Data\<close>

record inputStruct =
  in_Password :: slice
  in_SelfID :: slice
  in_PeerID :: slice
  in_Context :: slice
  in_SessionID :: slice
  in_LocalAssociatedData :: slice
  in_AllowEmptySessionID :: bool

record callerInput =
  cl_password :: slice
  cl_selfID :: slice
  cl_peerID :: slice
  cl_context :: slice
  cl_sid :: slice
  cl_localAD :: slice

record normalizedInput =
  ni_password :: slice
  ni_initiatorID :: slice
  ni_responderID :: slice
  ni_ci :: slice
  ni_sid :: slice
  ni_ad :: slice

type_synonym callerInputRole = byte

definition initiatorInputRole :: callerInputRole where "initiatorInputRole = 0"
definition responderInputRole :: callerInputRole where "responderInputRole = 1"

definition DraftVersion :: string where "DraftVersion = ''draft-irtf-cfrg-cpace-21''"
definition suiteName :: string where "suiteName = ''CPACE-RISTR255-SHA512''"

section \<open>Validation\<close>

fun required_loop :: "(nat \<Rightarrow> bytes) \<Rightarrow> (string \<times> slice) list \<Rightarrow> unit result" where
  "required_loop m [] = Ok ()"
| "required_loop m ((name, value) # rest) =
     (if length (content m value) = 0
      then Err (Errorf [Wrap (Sentinel ErrInvalidInput), Txt '': empty '', Txt name])
      else required_loop m rest)"

definition validateRequiredCallerInputFields :: "inputStruct \<Rightarrow> (nat \<Rightarrow> bytes) \<Rightarrow> unit result" where
  "validateRequiredCallerInputFields input m =
     required_loop m [(''password'', in_Password input), (''self id'', in_SelfID input), (''peer id'', in_PeerID input)]"

fun cap_loop :: "(nat \<Rightarrow> bytes) \<Rightarrow> (packageCapField \<times> slice) list \<Rightarrow> unit result" where
  "cap_loop m [] = Ok ()"
| "cap_loop m ((cap, value) # rest) =
     (case validateInputLength cap (int (length (content m value))) of
        Ok u \<Rightarrow> cap_loop m rest
      | Err e \<Rightarrow> Err e
      | Panic p \<Rightarrow> Panic p)"

definition validateCallerInputCapFields :: "inputStruct \<Rightarrow> (nat \<Rightarrow> bytes) \<Rightarrow> unit result" where
  "validateCallerInputCapFields input m =
     cap_loop m [(passwordCap, in_Password input), (selfIDCap, in_SelfID input), (peerIDCap, in_PeerID input),
       (contextCap, in_Context input), (sessionIDCap, in_SessionID input),
       (localAssociatedDataCap, in_LocalAssociatedData input)]"

definition acceptInput :: "inputStruct \<Rightarrow> ('s, 'e, 'r) store \<Rightarrow> callerInput result \<times> ('s, 'e, 'r) store" where
  "acceptInput input s =
     (case validateRequiredCallerInputFields input (mem s) of
        Err e \<Rightarrow> (Err e, s)
      | Panic p \<Rightarrow> (Panic p, s)
      | Ok _ \<Rightarrow>
          if length (rd s (in_SessionID input)) = 0 \<and> \<not> in_AllowEmptySessionID input
          then (Err (errorf_wrap ErrInvalidInput ErrEmptySessionID), s)
          else case validateCallerInputCapFields input (mem s) of
                 Err e \<Rightarrow> (Err e, s)
               | Panic p \<Rightarrow> (Panic p, s)
               | Ok _ \<Rightarrow>
                   (let (password, s) = clone (in_Password input) s;
                        (selfID, s) = clone (in_SelfID input) s;
                        (peerID, s) = clone (in_PeerID input) s;
                        (context, s) = clone (in_Context input) s;
                        (sid, s) = clone (in_SessionID input) s;
                        (localAD, s) = clone (in_LocalAssociatedData input) s
                    in (Ok \<lparr>cl_password = password, cl_selfID = selfID, cl_peerID = peerID,
                            cl_context = context, cl_sid = sid, cl_localAD = localAD\<rparr>, s)))"

section \<open>Normal form\<close>

definition callerInput_wipe :: "callerInput option \<Rightarrow> ('s, 'e, 'r) store \<Rightarrow> ('s, 'e, 'r) store" where
  "callerInput_wipe c s =
     (case c of
        None \<Rightarrow> s
      | Some c \<Rightarrow>
          (let s = clearBytes (cl_password c) s;
               s = clearBytes (cl_selfID c) s;
               s = clearBytes (cl_peerID c) s;
               s = clearBytes (cl_context c) s;
               s = clearBytes (cl_sid c) s
           in clearBytes (cl_localAD c) s))"

definition mapTranscriptIDs :: "callerInputRole \<Rightarrow> callerInput \<Rightarrow> (slice \<times> slice) result" where
  "mapTranscriptIDs r input =
     (if r = initiatorInputRole then Ok (cl_selfID input, cl_peerID input)
      else if r = responderInputRole then Ok (cl_peerID input, cl_selfID input)
      else Panic ''cpace: internal caller input role mismatch'')"

definition buildCI :: "bytes \<Rightarrow> bytes \<Rightarrow> bytes \<Rightarrow> bytes" where
  "buildCI initiatorID responderID context =
     lvCat [string_bytes ''CPace-Go-CI'', string_bytes DraftVersion, string_bytes suiteName,
       string_bytes ''initiator'', initiatorID, string_bytes ''responder'', responderID,
       string_bytes ''context'', context]"

definition handoff ::
  "callerInput \<Rightarrow> callerInputRole \<Rightarrow> ('s, 'e, 'r) store
     \<Rightarrow> normalizedInput result \<times> callerInput \<times> ('s, 'e, 'r) store" where
  "handoff c role s =
     (case mapTranscriptIDs role c of
        Panic p \<Rightarrow> (Panic p, c, s)
      | Err e \<Rightarrow> (Err e, c, s)
      | Ok (initiatorID, responderID) \<Rightarrow>
          (let (ci, s) = alloc (buildCI (rd s initiatorID) (rd s responderID) (rd s (cl_context c))) s;
               s = clearBytes (cl_context c) s;
               c = c\<lparr>cl_context := None\<rparr>;
               ni = \<lparr>ni_password = cl_password c, ni_initiatorID = initiatorID, ni_responderID = responderID,
                     ni_ci = ci, ni_sid = cl_sid c, ni_ad = cl_localAD c\<rparr>;
               c = c\<lparr>cl_password := None, cl_selfID := None, cl_peerID := None, cl_sid := None, cl_localAD := None\<rparr>
           in (Ok ni, c, s)))"

definition normalizedInput_wipe :: "normalizedInput \<Rightarrow> ('s, 'e, 'r) store \<Rightarrow> ('s, 'e, 'r) store" where
  "normalizedInput_wipe ni s =
     (let s = clearBytes (ni_password ni) s;
          s = clearBytes (ni_initiatorID ni) s;
          s = clearBytes (ni_responderID ni) s;
          s = clearBytes (ni_ci ni) s;
          s = clearBytes (ni_sid ni) s
      in clearBytes (ni_ad ni) s)"

text \<open>The deferred \<open>caller.wipe()\<close> runs after \<open>handoff\<close>, on the struct that it left, and on a panic too.\<close>

definition normalizeInput ::
  "inputStruct \<Rightarrow> callerInputRole \<Rightarrow> ('s, 'e, 'r) store \<Rightarrow> normalizedInput result \<times> ('s, 'e, 'r) store" where
  "normalizeInput input role s =
     (case acceptInput input s of
        (Err e, s) \<Rightarrow> (Err e, s)
      | (Panic p, s) \<Rightarrow> (Panic p, s)
      | (Ok caller, s) \<Rightarrow>
          (let (res, caller, s) = handoff caller role s
           in (res, callerInput_wipe (Some caller) s)))"

definition normalizeStartInput ::
  "inputStruct \<Rightarrow> ('s, 'e, 'r) store \<Rightarrow> normalizedInput result \<times> ('s, 'e, 'r) store" where
  "normalizeStartInput input s = normalizeInput input initiatorInputRole s"

definition normalizeRespondInput ::
  "inputStruct \<Rightarrow> ('s, 'e, 'r) store \<Rightarrow> normalizedInput result \<times> ('s, 'e, 'r) store" where
  "normalizeRespondInput input s = normalizeInput input responderInputRole s"

section \<open>Specification\<close>

text \<open>What the package accepts, on the bytes of the six fields.\<close>

record inputs =
  iv_password :: bytes
  iv_self :: bytes
  iv_peer :: bytes
  iv_context :: bytes
  iv_sid :: bytes
  iv_ad :: bytes
  iv_allow_empty :: bool

definition inputs_of :: "(nat \<Rightarrow> bytes) \<Rightarrow> inputStruct \<Rightarrow> inputs" where
  "inputs_of m i = \<lparr>iv_password = content m (in_Password i), iv_self = content m (in_SelfID i),
     iv_peer = content m (in_PeerID i), iv_context = content m (in_Context i), iv_sid = content m (in_SessionID i),
     iv_ad = content m (in_LocalAssociatedData i), iv_allow_empty = in_AllowEmptySessionID i\<rparr>"

definition acceptable :: "inputs \<Rightarrow> bool" where
  "acceptable v \<longleftrightarrow>
     iv_password v \<noteq> [] \<and> length (iv_password v) \<le> 4096
   \<and> iv_self v \<noteq> [] \<and> length (iv_self v) \<le> 4096
   \<and> iv_peer v \<noteq> [] \<and> length (iv_peer v) \<le> 4096
   \<and> length (iv_context v) \<le> 1024
   \<and> (iv_sid v \<noteq> [] \<or> iv_allow_empty v) \<and> length (iv_sid v) \<le> 1024
   \<and> length (iv_ad v) \<le> 65536"

definition valid_input :: "('s, 'e, 'r) store \<Rightarrow> inputStruct \<Rightarrow> bool" where
  "valid_input s i \<longleftrightarrow> valid s (in_Password i) \<and> valid s (in_SelfID i) \<and> valid s (in_PeerID i)
     \<and> valid s (in_Context i) \<and> valid s (in_SessionID i) \<and> valid s (in_LocalAssociatedData i)"

text \<open>The error of a rejected input: the first failing check in the order of \<open>acceptInput\<close>.\<close>

definition input_error :: "inputs \<Rightarrow> gerror option" where
  "input_error v =
    (let empty = \<lambda>f. Some (Errorf [Wrap (Sentinel ErrInvalidInput), Txt '': empty '', Txt f]);
         large = \<lambda>f. Some (Errorf [Wrap (Sentinel ErrInvalidInput), Txt '': '', Txt f, Txt '' too large''])
     in if iv_password v = [] then empty ''password''
        else if iv_self v = [] then empty ''self id''
        else if iv_peer v = [] then empty ''peer id''
        else if iv_sid v = [] \<and> \<not> iv_allow_empty v then Some (errorf_wrap ErrInvalidInput ErrEmptySessionID)
        else if 4096 < length (iv_password v) then large ''password''
        else if 4096 < length (iv_self v) then large ''self id''
        else if 4096 < length (iv_peer v) then large ''peer id''
        else if 1024 < length (iv_context v) then large ''context''
        else if 1024 < length (iv_sid v) then large ''session id''
        else if 65536 < length (iv_ad v) then large ''local associated data''
        else None)"

lemma input_error_None: "input_error v = None \<longleftrightarrow> acceptable v"
  by (auto simp: input_error_def acceptable_def Let_def)

lemma input_error_Is:
  "input_error v = Some e \<Longrightarrow> errors_Is e ErrInvalidInput \<and> (errors_Is e x \<longrightarrow> x = ErrInvalidInput \<or> x = ErrEmptySessionID)
     \<and> (errors_Is e ErrEmptySessionID \<longrightarrow> iv_sid v = [] \<and> \<not> iv_allow_empty v)"
  by (auto simp: input_error_def Let_def split: if_splits)

lemma validate_closed:
  "(case validateRequiredCallerInputFields input m of
        Err e \<Rightarrow> f e
      | Panic p \<Rightarrow> g p
      | Ok _ \<Rightarrow>
          if length (content m (in_SessionID input)) = 0 \<and> \<not> in_AllowEmptySessionID input
          then f (errorf_wrap ErrInvalidInput ErrEmptySessionID)
          else case validateCallerInputCapFields input m of
                 Err e \<Rightarrow> f e
               | Panic p \<Rightarrow> g p
               | Ok _ \<Rightarrow> r)
   = (case input_error (inputs_of m input) of Some e \<Rightarrow> f e | None \<Rightarrow> r)"
  by (simp add: validateRequiredCallerInputFields_def validateCallerInputCapFields_def validateInputLength_def
      input_error_def inputs_of_def input_cap_defs Let_def cap_field_defs)

text \<open>The normal form of the input of either role, on bytes.\<close>

record norm =
  nv_password :: bytes
  nv_initiatorID :: bytes
  nv_responderID :: bytes
  nv_ci :: bytes
  nv_sid :: bytes
  nv_ad :: bytes

definition norm_of :: "(nat \<Rightarrow> bytes) \<Rightarrow> normalizedInput \<Rightarrow> norm" where
  "norm_of m ni = \<lparr>nv_password = content m (ni_password ni), nv_initiatorID = content m (ni_initiatorID ni),
     nv_responderID = content m (ni_responderID ni), nv_ci = content m (ni_ci ni), nv_sid = content m (ni_sid ni),
     nv_ad = content m (ni_ad ni)\<rparr>"

definition normal_form :: "callerInputRole \<Rightarrow> inputs \<Rightarrow> norm" where
  "normal_form role v =
    (let iid = (if role = initiatorInputRole then iv_self v else iv_peer v);
         rid = (if role = initiatorInputRole then iv_peer v else iv_self v)
     in \<lparr>nv_password = iv_password v, nv_initiatorID = iid, nv_responderID = rid,
         nv_ci = buildCI iid rid (iv_context v), nv_sid = iv_sid v, nv_ad = iv_ad v\<rparr>)"

section \<open>Closed forms\<close>

lemma acceptInput_closed [heap_simps]:
  assumes "valid_input s input"
  shows "acceptInput input s =
    (case input_error (inputs_of (mem s) input) of
       Some e \<Rightarrow> (Err e, s)
     | None \<Rightarrow>
        (let n = brk s; m = mem s in
         (Ok \<lparr>cl_password = slice_at (in_Password input) n, cl_selfID = slice_at (in_SelfID input) (Suc n),
              cl_peerID = slice_at (in_PeerID input) (Suc (Suc n)),
              cl_context = slice_at (in_Context input) (Suc (Suc (Suc n))),
              cl_sid = slice_at (in_SessionID input) (Suc (Suc (Suc (Suc n)))),
              cl_localAD = slice_at (in_LocalAssociatedData input) (Suc (Suc (Suc (Suc (Suc n)))))\<rparr>,
          s\<lparr>brk := Suc (Suc (Suc (Suc (Suc (Suc n))))),
             mem := m(n := content m (in_Password input), Suc n := content m (in_SelfID input),
               Suc (Suc n) := content m (in_PeerID input), Suc (Suc (Suc n)) := content m (in_Context input),
               Suc (Suc (Suc (Suc n))) := content m (in_SessionID input),
               Suc (Suc (Suc (Suc (Suc n)))) := content m (in_LocalAssociatedData input))\<rparr>)))"
  using assms
  unfolding valid_input_def acceptInput_def
    validate_closed [where f = "\<lambda>e. (Err e, s)" and g = "\<lambda>p. (Panic p, s)"]
  by (elim conjE) (simp add: heap_simps Let_def split: option.split)

definition norm_slices :: "callerInputRole \<Rightarrow> inputStruct \<Rightarrow> nat \<Rightarrow> normalizedInput" where
  "norm_slices role input n =
    (let selfID = slice_at (in_SelfID input) (Suc n); peerID = slice_at (in_PeerID input) (Suc (Suc n))
     in \<lparr>ni_password = slice_at (in_Password input) n,
         ni_initiatorID = (if role = initiatorInputRole then selfID else peerID),
         ni_responderID = (if role = initiatorInputRole then peerID else selfID),
         ni_ci = Some (Suc (Suc (Suc (Suc (Suc (Suc n)))))),
         ni_sid = slice_at (in_SessionID input) (Suc (Suc (Suc (Suc n)))),
         ni_ad = slice_at (in_LocalAssociatedData input) (Suc (Suc (Suc (Suc (Suc n)))))\<rparr>)"

lemma normalizeInput_closed [heap_simps]:
  assumes "valid_input s input" and "role = initiatorInputRole \<or> role = responderInputRole"
  shows "normalizeInput input role s =
    (case input_error (inputs_of (mem s) input) of
       Some e \<Rightarrow> (Err e, s)
     | None \<Rightarrow>
        (let n = brk s; m = mem s in
         (Ok (norm_slices role input n),
          s\<lparr>brk := Suc (Suc (Suc (Suc (Suc (Suc (Suc n)))))),
             mem := m(n := content m (in_Password input), Suc n := content m (in_SelfID input),
               Suc (Suc n) := content m (in_PeerID input), Suc (Suc (Suc n)) := zeros (content m (in_Context input)),
               Suc (Suc (Suc (Suc n))) := content m (in_SessionID input),
               Suc (Suc (Suc (Suc (Suc n)))) := content m (in_LocalAssociatedData input),
               Suc (Suc (Suc (Suc (Suc (Suc n))))) := nv_ci (normal_form role (inputs_of m input)))\<rparr>)))"
  using assms(2)
  by (auto simp: normalizeInput_def handoff_def callerInput_wipe_def mapTranscriptIDs_def norm_slices_def
      normal_form_def inputs_of_def initiatorInputRole_def responderInputRole_def
      acceptInput_closed [OF assms(1)] heap_simps Let_def fun_upd_twist split: option.split)

lemma buildCI_inj:
  assumes "list_all go_slice [iid, rid, context, iid', rid', context']"
    and "buildCI iid rid context = buildCI iid' rid' context'"
  shows "iid = iid' \<and> rid = rid' \<and> context = context'"
proof -
  have g: "go_slice (string_bytes x)" if "length x < 2 ^ 63" for x using that by (simp add: go_slice_def)
  have "[string_bytes ''CPace-Go-CI'', string_bytes DraftVersion, string_bytes suiteName,
       string_bytes ''initiator'', iid, string_bytes ''responder'', rid,
       string_bytes ''context'', context] = [string_bytes ''CPace-Go-CI'', string_bytes DraftVersion, string_bytes suiteName,
       string_bytes ''initiator'', iid', string_bytes ''responder'', rid',
       string_bytes ''context'', context']"
    using assms by (intro lvCat_inj) (simp_all add: buildCI_def g DraftVersion_def suiteName_def)
  then show ?thesis by simp
qed

text \<open>The wipe of a normal form zeroes the six cells and nothing else.\<close>

definition ni_cells :: "normalizedInput \<Rightarrow> nat set" where
  "ni_cells ni = cells [ni_password ni, ni_initiatorID ni, ni_responderID ni, ni_ci ni, ni_sid ni, ni_ad ni]"

lemma ni_cells_slices:
  "a \<in> ni_cells (norm_slices role input n) \<longleftrightarrow>
     in_Password input \<noteq> None \<and> a = n \<or> in_SelfID input \<noteq> None \<and> a = Suc n
   \<or> in_PeerID input \<noteq> None \<and> a = Suc (Suc n) \<or> a = Suc (Suc (Suc (Suc (Suc (Suc n)))))
   \<or> in_SessionID input \<noteq> None \<and> a = Suc (Suc (Suc (Suc n)))
   \<or> in_LocalAssociatedData input \<noteq> None \<and> a = Suc (Suc (Suc (Suc (Suc n))))"
  by (auto simp add: ni_cells_def norm_slices_def Let_def cells_def simp del: not_None_eq)

lemma normalizedInput_wipe_closed [heap_simps]:
  "normalizedInput_wipe ni s = s\<lparr>mem := (\<lambda>a. if a \<in> ni_cells ni then zeros (mem s a) else mem s a)\<rparr>"
  using fold_clearBytes [of "[ni_password ni, ni_initiatorID ni, ni_responderID ni, ni_ci ni, ni_sid ni, ni_ad ni]" s]
  by (simp add: normalizedInput_wipe_def ni_cells_def)

section \<open>Properties\<close>

lemma norm_slices_at:
  assumes "valid_input s input" and "role = initiatorInputRole \<or> role = responderInputRole"
    and "normalizeInput input role s = (Ok ni, t)"
  shows "ni = norm_slices role input (brk s) \<and> acceptable (inputs_of (mem s) input)
     \<and> norm_of (mem t) ni = normal_form role (inputs_of (mem s) input)"
  using assms(2,3)
  by (auto simp: normalizeInput_closed [OF assms(1,2)] input_error_None [symmetric] norm_slices_def norm_of_def
      normal_form_def inputs_of_def Let_def initiatorInputRole_def responderInputRole_def split: option.splits)

lemma normalizeInput_step:
  assumes "valid_input s input" and "role = initiatorInputRole \<or> role = responderInputRole"
    and "normalizeInput input role s = (Ok ni, t)"
  shows "keeps {} s t" and "frame s t" and "scrubs (ni_cells ni) s t"
    and "\<forall>a \<in> ni_cells ni. brk s \<le> a \<and> a < brk t" and "rand t = rand s"
    and "scalars t = scalars s \<and> elements t = elements s \<and> icores t = icores s \<and> rcores t = rcores s
      \<and> ustates t = ustates s \<and> sessions t = sessions s"
proof -
  have t: "t = snd (normalizeInput input role s)" and ni: "ni = norm_slices role input (brk s)"
    and ok: "input_error (inputs_of (mem s) input) = None"
    using norm_slices_at [OF assms] by (simp_all add: assms(3) input_error_None)
  note closed = normalizeInput_closed [OF assms(1,2)] ok Let_def
  show "keeps {} s t" "frame s t" "rand t = rand s" "scalars t = scalars s \<and> elements t = elements s \<and> icores t = icores s
      \<and> rcores t = rcores s \<and> ustates t = ustates s \<and> sessions t = sessions s"
    by (simp_all add: t closed keeps_def frame_def)
  show "\<forall>a \<in> ni_cells ni. brk s \<le> a \<and> a < brk t"
    by (auto simp: t closed ni ni_cells_slices)
  have "mem t a = mem s a \<or> zeros (mem t a) = mem t a" if "a \<notin> ni_cells ni" for a
    using that
    by (simp add: t closed ni ni_cells_slices split: if_split) (elim conjE, intro conjI impI; simp)
  then show "scrubs (ni_cells ni) s t" by (simp add: scrubs_def)
qed

lemma normalizeInput_accepts:
  assumes "valid_input s input" and "role = initiatorInputRole \<or> role = responderInputRole"
    and "acceptable (inputs_of (mem s) input)"
  shows "\<exists>ni t. normalizeInput input role s = (Ok ni, t)"
  using assms(3) by (simp add: normalizeInput_closed [OF assms(1,2)] input_error_None [symmetric] Let_def)

text \<open>C14. Acceptance of a caller's input, for either role: it is normalised exactly when it is within the
  documented limits; otherwise the error is the one of the first failing check, it wraps
  \<open>ErrInvalidInput\<close> and nothing has been copied. It never panics, the caller's memory is
  untouched, and the normal form has the identities in transcript order.\<close>

theorem normalizeInput_correct:
  assumes "valid_input s input" and "role = initiatorInputRole \<or> role = responderInputRole"
  shows "\<exists>res t. normalizeInput input role s = (res, t) \<and> keeps {} s t \<and> frame s t \<and>
    (case res of
       Ok ni \<Rightarrow> acceptable (inputs_of (mem s) input)
         \<and> norm_of (mem t) ni = normal_form role (inputs_of (mem s) input)
     | Err e \<Rightarrow> \<not> acceptable (inputs_of (mem s) input) \<and> t = s
         \<and> input_error (inputs_of (mem s) input) = Some e \<and> errors_Is e ErrInvalidInput
     | Panic p \<Rightarrow> False)"
proof (cases "input_error (inputs_of (mem s) input)")
  case None
  obtain t where eq: "normalizeInput input role s = (Ok (norm_slices role input (brk s)), t)"
    and t: "keeps {} s t" "frame s t"
    by (simp add: normalizeInput_closed [OF assms] None Let_def store_relations)
  then show ?thesis using norm_slices_at [OF assms eq] by simp
next
  case (Some e)
  then show ?thesis
    using input_error_Is [OF Some] input_error_None [of "inputs_of (mem s) input"]
    by (simp add: normalizeInput_closed [OF assms])
qed

definition sample_input :: inputStruct where
  "sample_input = \<lparr>in_Password = Some 0, in_SelfID = Some 1, in_PeerID = Some 2, in_Context = None,
     in_SessionID = Some 3, in_LocalAssociatedData = None, in_AllowEmptySessionID = False\<rparr>"

definition sample_store :: "'r \<Rightarrow> (7, 7, 'r) store" where
  "sample_store w = (empty_store w)\<lparr>brk := 4, mem := (\<lambda>a. if a < 4 then [of_nat a] else [])\<rparr>"

lemma sample_simps [simp]:
  "valid_input (sample_store w) sample_input"
  "acceptable (inputs_of (mem (sample_store w)) sample_input)"
  by (simp_all add: valid_input_def sample_input_def sample_store_def acceptable_def inputs_of_def)

lemma sample_values:
  "inputs_of (mem (sample_store w)) sample_input = \<lparr>iv_password = [0], iv_self = [1], iv_peer = [2],
     iv_context = [], iv_sid = [3], iv_ad = [], iv_allow_empty = False\<rparr>"
  by (simp add: sample_input_def sample_store_def inputs_of_def)

theorem normalizeInput_correct_witness:
  "\<exists>ni t. normalizeInput sample_input responderInputRole (sample_store ()) = (Ok ni, t)
     \<and> norm_of (mem t) ni = normal_form responderInputRole (inputs_of (mem (sample_store ())) sample_input)
     \<and> nv_initiatorID (norm_of (mem t) ni) = [2] \<and> nv_responderID (norm_of (mem t) ni) = [1]"
proof -
  obtain res t where "normalizeInput sample_input responderInputRole (sample_store ()) = (res, t)"
    and "case res of
       Ok ni \<Rightarrow> acceptable (inputs_of (mem (sample_store ())) sample_input)
         \<and> norm_of (mem t) ni = normal_form responderInputRole (inputs_of (mem (sample_store ())) sample_input)
     | Err e \<Rightarrow> \<not> acceptable (inputs_of (mem (sample_store ())) sample_input) \<and> t = sample_store ()
         \<and> input_error (inputs_of (mem (sample_store ())) sample_input) = Some e \<and> errors_Is e ErrInvalidInput
     | Panic p \<Rightarrow> False"
    using normalizeInput_correct [OF sample_simps(1) [of "()"] disjI2 [OF refl]] by (elim exE conjE)
  moreover have "normal_form responderInputRole (inputs_of (mem (sample_store ())) sample_input)
      = \<lparr>nv_password = [0], nv_initiatorID = [2], nv_responderID = [1], nv_ci = buildCI [2] [1] [],
         nv_sid = [3], nv_ad = []\<rparr>"
    by (simp add: normal_form_def sample_values initiatorInputRole_def responderInputRole_def Let_def)
  ultimately show ?thesis by (cases res) simp_all
qed

text \<open>C15. Every copy that is made of the caller's input is erased: after the wipe of the normal form,
  which its callers defer, all cells handed out by \<open>normalizeInput\<close> hold zeros, including the
  context, which the normal form does not hold any more.\<close>

theorem normalizeInput_wiped:
  assumes "valid_input s input" and "role = initiatorInputRole \<or> role = responderInputRole"
    and "normalizeInput input role s = (Ok ni, t)"
  shows "scrubs {} s (normalizedInput_wipe ni t) \<and> keeps {} s (normalizedInput_wipe ni t)"
proof -
  note step = normalizeInput_step [OF assms]
  have "keeps {} s (normalizedInput_wipe ni t)"
    using step(1,4) by (auto simp: normalizedInput_wipe_closed keeps_def dest: leD)
  moreover have "scrubs {} s (normalizedInput_wipe ni t)"
    using step(3) by (simp add: normalizedInput_wipe_closed scrubs_def)
  ultimately show ?thesis by simp
qed

theorem normalizeInput_wiped_witness:
  "\<exists>ni t. normalizeInput sample_input initiatorInputRole (sample_store ()) = (Ok ni, t)
     \<and> scrubs {} (sample_store ()) (normalizedInput_wipe ni t)"
proof -
  obtain ni t where eq: "normalizeInput sample_input initiatorInputRole (sample_store ()) = (Ok ni, t)"
    using normalizeInput_accepts [OF sample_simps(1) [of "()"] disjI1 [OF refl] sample_simps(2)] by (elim exE)
  show ?thesis
    using eq normalizeInput_wiped [OF sample_simps(1) disjI1 [OF refl] eq, THEN conjunct1] by (intro exI conjI)
qed

text \<open>C16. The parties of a session agree on the channel identifier exactly when the responder's
  configuration mirrors the initiator's: self and peer swapped, and the same context. In
  particular two initiators, or parties that disagree on an identity, hash different identifiers.\<close>

theorem buildCI_agreement:
  assumes "acceptable v" and "acceptable w"
  shows "nv_ci (normal_form initiatorInputRole v) = nv_ci (normal_form responderInputRole w)
     \<longleftrightarrow> iv_self v = iv_peer w \<and> iv_peer v = iv_self w \<and> iv_context v = iv_context w"
proof -
  have "list_all go_slice [iv_self v, iv_peer v, iv_context v, iv_peer w, iv_self w, iv_context w]"
    using assms by (simp add: acceptable_def go_slice_def)
  then show ?thesis
    using buildCI_inj [of "iv_self v" "iv_peer v" "iv_context v" "iv_peer w" "iv_self w" "iv_context w"]
    by (auto simp: normal_form_def Let_def initiatorInputRole_def responderInputRole_def)
qed

theorem buildCI_agreement_witness:
  "nv_ci (normal_form initiatorInputRole \<lparr>iv_password = [1], iv_self = [2], iv_peer = [3], iv_context = [],
      iv_sid = [9], iv_ad = [], iv_allow_empty = False\<rparr>)
   = nv_ci (normal_form responderInputRole \<lparr>iv_password = [1], iv_self = [3], iv_peer = [2], iv_context = [],
      iv_sid = [9], iv_ad = [], iv_allow_empty = False\<rparr>)"
  by (subst buildCI_agreement) (simp_all add: acceptable_def)

end
