(* ===== verification/Session.thy ===== *)
theory Session
  imports Input
begin

text \<open>
  session.go: the confirmed session. A \<open>Session\<close> value is a record whose \<open>state\<close> pointer is a
  cell of the store, so that copies of it share the close state and the key; a \<open>*Session\<close> is
  an option of that record, since no method assigns to its fields. The lock serialises
  \<open>Close\<close> and \<open>Export\<close>: each is one step.
\<close>

section \<open>Operations\<close>

record sessionStruct =
  s_state :: "nat option"
  s_transcriptID :: slice
  s_peerAD :: slice
  s_peerID :: slice

definition maxHKDFOutput :: int where "maxHKDFOutput = 255 * 64"

definition TranscriptID :: "sessionStruct option \<Rightarrow> ('s, 'e, 'r) store \<Rightarrow> slice \<times> ('s, 'e, 'r) store" where
  "TranscriptID p s = (case p of None \<Rightarrow> (None, s) | Some S \<Rightarrow> clone (s_transcriptID S) s)"

definition PeerAssociatedData :: "sessionStruct option \<Rightarrow> ('s, 'e, 'r) store \<Rightarrow> slice \<times> ('s, 'e, 'r) store" where
  "PeerAssociatedData p s = (case p of None \<Rightarrow> (None, s) | Some S \<Rightarrow> clone (s_peerAD S) s)"

definition PeerID :: "sessionStruct option \<Rightarrow> ('s, 'e, 'r) store \<Rightarrow> slice \<times> ('s, 'e, 'r) store" where
  "PeerID p s = (case p of None \<Rightarrow> (None, s) | Some S \<Rightarrow> clone (s_peerID S) s)"

definition Session_Close :: "sessionStruct option \<Rightarrow> ('s, 'e, 'r) store \<Rightarrow> unit result \<times> ('s, 'e, 'r) store" where
  "Session_Close p s =
     (case p of
        None \<Rightarrow> (Ok (), s)
      | Some S \<Rightarrow>
          (case s_state S of
             None \<Rightarrow> (Err (errorf ErrInvalidInput ''nil session''), s)
           | Some a \<Rightarrow>
               if ss_closed (sessions s a) then (Ok (), s)
               else
                 (let s = clearBytes (ss_isk (sessions s a)) s;
                      s = s\<lparr>sessions := (sessions s)(a := (sessions s a)\<lparr>ss_isk := None\<rparr>)\<rparr>;
                      s = s\<lparr>sessions := (sessions s)(a := (sessions s a)\<lparr>ss_closed := True\<rparr>)\<rparr>
                  in (Ok (), s))))"

definition export_info :: "bytes \<Rightarrow> bytes \<Rightarrow> bytes" where
  "export_info label context = lvCat [string_bytes ''CPaceExport'', label, context]"

definition Export ::
  "sessionStruct option \<Rightarrow> bytes \<Rightarrow> bytes \<Rightarrow> int \<Rightarrow> ('s, 'e, 'r) store \<Rightarrow> slice result \<times> ('s, 'e, 'r) store" where
  "Export p label context n s =
     (case Option.bind p s_state of
        None \<Rightarrow> (Err (errorf ErrInvalidInput ''nil session''), s)
      | Some a \<Rightarrow>
          if ss_closed (sessions s a) then (Err (Sentinel ErrSessionClosed), s)
          else if n < 0 \<or> n > maxHKDFOutput then (Err (errorf ErrInvalidInput ''invalid export length''), s)
          else
            (let info = export_info label context
             in case hkdf_Key (rd s (ss_isk (sessions s a))) None info n of
                  Err e \<Rightarrow>
                    (Err (Errorf [Wrap (Sentinel ErrInvalidInput), Txt '': export failed: '', Wrap e]), s)
                | Panic m \<Rightarrow> (Panic m, s)
                | Ok out \<Rightarrow> (let (out, s) = alloc out s in (Ok out, s))))"

definition newSession ::
  "slice \<Rightarrow> slice \<Rightarrow> slice \<Rightarrow> slice \<Rightarrow> ('s, 'e, 'r) store \<Rightarrow> sessionStruct \<times> ('s, 'e, 'r) store" where
  "newSession isk tid peerAD peerID s =
     (let (isk, s) = clone isk s;
          a = brk s;
          s = s\<lparr>brk := Suc a, sessions := (sessions s)(a := \<lparr>ss_closed = False, ss_isk = isk\<rparr>)\<rparr>;
          (tid, s) = clone tid s;
          (peerAD, s) = clone peerAD s;
          (peerID, s) = clone peerID s
      in (\<lparr>s_state = Some a, s_transcriptID = tid, s_peerAD = peerAD, s_peerID = peerID\<rparr>, s))"

section \<open>Specification\<close>

text \<open>What a confirmed session is about, and a \<open>Session\<close> that holds it and is open.\<close>

record confirmed =
  cf_isk :: bytes
  cf_transcriptID :: bytes
  cf_peerAD :: bytes
  cf_peerID :: bytes

definition session_metadata :: "('s, 'e, 'r) store \<Rightarrow> sessionStruct \<Rightarrow> bytes \<times> bytes \<times> bytes" where
  "session_metadata s S = (rd s (s_transcriptID S), rd s (s_peerAD S), rd s (s_peerID S))"

definition session_at :: "('s, 'e, 'r) store \<Rightarrow> sessionStruct \<Rightarrow> confirmed \<Rightarrow> bool" where
  "session_at s S c \<longleftrightarrow>
     (case s_state S of
        None \<Rightarrow> False
      | Some a \<Rightarrow> a < brk s \<and> \<not> ss_closed (sessions s a) \<and> valid s (ss_isk (sessions s a))
          \<and> ss_isk (sessions s a) \<notin> {None, s_transcriptID S, s_peerAD S, s_peerID S} \<and> rd s (ss_isk (sessions s a)) = cf_isk c)
   \<and> valid s (s_transcriptID S) \<and> valid s (s_peerAD S) \<and> valid s (s_peerID S)
   \<and> session_metadata s S = (cf_transcriptID c, cf_peerAD c, cf_peerID c)"

definition session_cells :: "('s, 'e, 'r) store \<Rightarrow> sessionStruct \<Rightarrow> nat set" where
  "session_cells s S = cells [Option.bind (s_state S) (\<lambda>a. ss_isk (sessions s a)), s_transcriptID S, s_peerAD S, s_peerID S]"

text \<open>All cells of a session: those of its slices, and the state that its copies share.\<close>

definition session_owned :: "('s, 'e, 'r) store \<Rightarrow> sessionStruct \<Rightarrow> nat set" where
  "session_owned s S = set_option (s_state S) \<union> session_cells s S"

lemma session_owned_iff [simp]: "x \<in> session_owned s S \<longleftrightarrow> s_state S = Some x \<or> x \<in> session_cells s S"
  by (simp add: session_owned_def eq_commute)

text \<open>The exported bytes: a prefix of one HKDF-SHA512 output stream per key, label and context.\<close>

definition export_stream :: "bytes \<Rightarrow> bytes \<Rightarrow> bytes \<Rightarrow> bytes" where
  "export_stream isk label context =
     hkdf_blocks (hmac_sha512 (replicate 64 0) isk) (export_info label context) 255 0 []"

lemma length_export_stream [simp]: "length (export_stream isk label context) = 16320"
  by (simp add: export_stream_def)

lemma hkdf_Key_export:
  "0 \<le> n \<Longrightarrow> n \<le> 16320 \<Longrightarrow>
    hkdf_Key isk None (export_info label context) n = Ok (take (nat n) (export_stream isk label context))"
  using hkdf_expand_stream [of "nat n" 255] by (simp add: hkdf_Key_def export_stream_def Let_def)

section \<open>Closed forms\<close>

lemma newSession_closed [heap_simps]:
  assumes "valid s isk" "valid s tid" "valid s peerAD" "valid s peerID"
  shows "newSession isk tid peerAD peerID s =
    (let n = brk s; m = mem s in
     (\<lparr>s_state = Some (Suc n), s_transcriptID = slice_at tid (Suc (Suc n)),
        s_peerAD = slice_at peerAD (Suc (Suc (Suc n))), s_peerID = slice_at peerID (Suc (Suc (Suc (Suc n))))\<rparr>,
      s\<lparr>brk := Suc (Suc (Suc (Suc (Suc n)))),
         mem := m(n := content m isk, Suc (Suc n) := content m tid, Suc (Suc (Suc n)) := content m peerAD,
           Suc (Suc (Suc (Suc n))) := content m peerID),
         sessions := (sessions s)(Suc n := \<lparr>ss_closed = False, ss_isk = slice_at isk n\<rparr>)\<rparr>))"
  using assms by (simp add: newSession_def heap_simps Let_def)

lemma sessionState_closed: "x\<lparr>ss_isk := None, ss_closed := True\<rparr> = \<lparr>ss_closed = True, ss_isk = None\<rparr>"
  by (cases x) simp

lemma Session_Close_closed [heap_simps]:
  "Session_Close (Some S) s =
     (case s_state S of
        None \<Rightarrow> (Err (errorf ErrInvalidInput ''nil session''), s)
      | Some a \<Rightarrow>
          if ss_closed (sessions s a) then (Ok (), s)
          else (Ok (), (clearBytes (ss_isk (sessions s a)) s)
                 \<lparr>sessions := (sessions s)(a := \<lparr>ss_closed = True, ss_isk = None\<rparr>)\<rparr>))"
  by (simp add: Session_Close_def Let_def sessionState_closed split: option.split)

lemma Export_closed [heap_simps]:
  "Export p label context n s =
     (case Option.bind p s_state of
        None \<Rightarrow> (Err (errorf ErrInvalidInput ''nil session''), s)
      | Some a \<Rightarrow>
          if ss_closed (sessions s a) then (Err (Sentinel ErrSessionClosed), s)
          else if n < 0 \<or> n > 16320 then (Err (errorf ErrInvalidInput ''invalid export length''), s)
          else (Ok (Some (brk s)),
                s\<lparr>brk := Suc (brk s),
                   mem := (mem s)(brk s :=
                     take (nat n) (export_stream (rd s (ss_isk (sessions s a))) label context))\<rparr>))"
  by (simp add: Export_def maxHKDFOutput_def hkdf_Key_export alloc_closed Let_def split: option.split)

section \<open>Contract\<close>

lemma newSession_contract:
  assumes "newSession isk tid peerAD peerID s = (S, t)"
    and "valid s isk" "valid s tid" "valid s peerAD" "valid s peerID" and "isk \<noteq> None"
  shows "allocates (session_cells t S) s t"
    and "session_at t S \<lparr>cf_isk = rd s isk, cf_transcriptID = rd s tid, cf_peerAD = rd s peerAD, cf_peerID = rd s peerID\<rparr>"
    and "\<forall>a \<in> session_owned t S. brk s \<le> a"
proof -
  obtain n where n: "n = brk s" and S: "S = \<lparr>s_state = Some (Suc n), s_transcriptID = slice_at tid (Suc (Suc n)),
        s_peerAD = slice_at peerAD (Suc (Suc (Suc n))), s_peerID = slice_at peerID (Suc (Suc (Suc (Suc n))))\<rparr>"
    and sess: "sessions t (Suc n) = \<lparr>ss_closed = False, ss_isk = slice_at isk n\<rparr>"
    using assms by (auto simp: newSession_closed Let_def)
  have cells: "a \<in> session_cells t S \<longleftrightarrow> a = n \<or> tid \<noteq> None \<and> a = Suc (Suc n)
      \<or> peerAD \<noteq> None \<and> a = Suc (Suc (Suc n)) \<or> peerID \<noteq> None \<and> a = Suc (Suc (Suc (Suc n)))" for a
    using assms(6) by (auto simp add: S sess session_cells_def cells_def)
  then show "\<forall>a \<in> session_owned t S. brk s \<le> a" by (auto simp: n S)
  have "mem t a = mem s a \<or> zeros (mem t a) = mem t a" if "a \<notin> session_cells t S" for a
    using that assms by (auto simp: cells n newSession_closed Let_def)
  then show "allocates (session_cells t S) s t"
    using assms by (auto simp: newSession_closed Let_def allocates_def keeps_def scrubs_def)
  show "session_at t S \<lparr>cf_isk = rd s isk, cf_transcriptID = rd s tid, cf_peerAD = rd s peerAD, cf_peerID = rd s peerID\<rparr>"
    using assms by (auto simp: newSession_closed Let_def session_at_def session_metadata_def valid_slice_at content_at)
qed

lemma session_cells_clear [simp]: "session_cells (clearBytes sl s) S = session_cells s S"
  by (simp add: session_cells_def)

lemma session_at_clear:
  assumes "session_at s S c" and "a \<notin> session_cells s S"
  shows "session_at (clearBytes (Some a) s) S c"
proof -
  have "rd (clearBytes (Some a) s) sl = rd s sl" if "sl \<noteq> Some a" for sl
    using that by (auto simp: clear_closed content_upd)
  then show ?thesis
    using assms
    by (auto simp: session_at_def session_cells_def cells_def session_metadata_def valid_def split: option.splits)
qed

section \<open>The life of sessions\<close>

text \<open>One step of a program that uses sessions: any method call on any session, or a new one.\<close>

inductive session_step :: "('s, 'e, 'r) store \<Rightarrow> ('s, 'e, 'r) store \<Rightarrow> bool" where
  export: "Export p label context n s = (r, t) \<Longrightarrow> session_step s t"
| close: "Session_Close p s = (r, t) \<Longrightarrow> session_step s t"
| transcriptID: "TranscriptID p s = (r, t) \<Longrightarrow> session_step s t"
| peerAssociatedData: "PeerAssociatedData p s = (r, t) \<Longrightarrow> session_step s t"
| peerID: "PeerID p s = (r, t) \<Longrightarrow> session_step s t"
| newSession: "valid s isk \<Longrightarrow> valid s tid \<Longrightarrow> valid s ad \<Longrightarrow> valid s pid \<Longrightarrow>
    newSession isk tid ad pid s = (S, t) \<Longrightarrow> session_step s t"

inductive_cases session_stepE: "session_step s t"

text \<open>A cell that holds zeros keeps them, and a closed session stays closed.\<close>

lemma session_step_closed:
  assumes "session_step s t"
  shows "brk s \<le> brk t
    \<and> (a < brk s \<longrightarrow> ss_closed (sessions s a) \<longrightarrow> sessions t a = sessions s a)
    \<and> (c < brk s \<longrightarrow> zeros (mem s c) = mem s c \<longrightarrow> mem t c = mem s c)
    \<and> (c < brk s \<longrightarrow> mem t c = mem s c \<or> mem t c = zeros (mem s c))"
  using assms
proof (cases rule: session_step.cases)
  case (close p r)
  then show ?thesis
    by (cases p)
      (auto simp: Session_Close_def Session_Close_closed mem_clearBytes split: option.splits if_splits)
qed (auto simp: heap_simps Let_def TranscriptID_def PeerAssociatedData_def PeerID_def split: option.splits if_splits)

lemma session_steps_closed:
  assumes "session_step\<^sup>*\<^sup>* s t" and "a < brk s" and "ss_closed (sessions s a)"
    and "c < brk s" and "zeros (mem s c) = mem s c"
  shows "sessions t a = sessions s a \<and> mem t c = mem s c \<and> brk s \<le> brk t"
  using assms(1)
proof (induction rule: rtranclp_induct)
  case (step t u)
  then show ?case using session_step_closed [OF step.hyps(2), of a c] assms(2-5) by auto
qed simp

section \<open>Properties\<close>

text \<open>C18. \<open>Export\<close> in full, for any receiver, nil and zero ones included: with an open session and a
  length from 0 to 16320 it returns fresh bytes, exactly that many, which are a prefix of the one
  HKDF-SHA512 stream of the session key, label and context, so shorter requests are prefixes of
  longer ones; a closed session gives \<open>ErrSessionClosed\<close>, anything else \<open>ErrInvalidInput\<close> with
  nothing changed. It never panics and never changes a session or existing memory.\<close>

theorem Export_correct:
  "\<exists>res t. Export p label context n s = (res, t) \<and> keeps {} s t \<and> sessions t = sessions s
    \<and> (case Option.bind p s_state of
         None \<Rightarrow> (\<exists>e. res = Err e \<and> errors_Is e ErrInvalidInput) \<and> t = s
       | Some a \<Rightarrow>
          if ss_closed (sessions s a) then res = Err (Sentinel ErrSessionClosed) \<and> t = s
          else if 0 \<le> n \<and> n \<le> maxHKDFOutput
          then \<exists>c. res = Ok (Some c) \<and> c = brk s \<and> int (length (mem t c)) = n
             \<and> mem t c = take (nat n) (export_stream (rd s (ss_isk (sessions s a))) label context)
          else (\<exists>e. res = Err e \<and> errors_Is e ErrInvalidInput) \<and> t = s)"
  by (cases "Option.bind p s_state") (auto simp: Export_closed keeps_def maxHKDFOutput_def)

text \<open>C19. The HKDF info strings of two different (label, context) pairs are different and neither is
  a prefix of the other: exports under different pairs are domain separated.\<close>

theorem export_info_prefix_free:
  assumes "go_slice label" "go_slice context" "go_slice label'" "go_slice context'"
    and "export_info label context @ z = export_info label' context'"
  shows "label = label' \<and> context = context' \<and> z = []"
proof -
  have "go_slice (string_bytes ''CPaceExport'')" by (simp add: go_slice_def)
  then show ?thesis
    using lv.concat_prefix_free [of "[string_bytes ''CPaceExport'', label, context]"
        "[string_bytes ''CPaceExport'', label', context']" z] assms
    by (simp add: export_info_def lvCat_lv)
qed

theorem export_info_prefix_free_witness:
  "export_info [1] [2, 3] @ [] = export_info [1] [2, 3] \<and> [1 :: byte] = [1] \<and> [2 :: byte, 3] = [2, 3] \<and> ([] :: bytes) = []"
  using export_info_prefix_free [of "[1]" "[2, 3]" "[1]" "[2, 3]" "[]"] by (simp add: go_slice_def)

text \<open>C17. Closing an open session erases the key bytes and is final: a second \<open>Close\<close> of any copy does
  nothing, and after any further calls on any sessions every \<open>Export\<close> on any copy fails with
  \<open>ErrSessionClosed\<close> and the key cell still holds zeros. The metadata stays readable.\<close>

theorem Session_Close_final:
  assumes "session_at s S c" and "s_state S' = s_state S"
  shows "\<exists>t a k. Session_Close (Some S) s = (Ok (), t) \<and> s_state S = Some a
    \<and> ss_isk (sessions s a) = Some k \<and> mem t k = zeros (cf_isk c)
    \<and> session_metadata t S = (cf_transcriptID c, cf_peerAD c, cf_peerID c)
    \<and> (\<forall>u. session_step\<^sup>*\<^sup>* t u \<longrightarrow>
          Session_Close (Some S') u = (Ok (), u) \<and> mem u k = zeros (cf_isk c)
          \<and> (\<forall>label context n. Export (Some S') label context n u = (Err (Sentinel ErrSessionClosed), u)))"
proof -
  obtain a k where a: "s_state S = Some a" "a < brk s" "\<not> ss_closed (sessions s a)"
      "ss_isk (sessions s a) = Some k" "k < brk s" "mem s k = cf_isk c"
    and distinct: "Some k \<notin> {s_transcriptID S, s_peerAD S, s_peerID S}"
    and md: "session_metadata s S = (cf_transcriptID c, cf_peerAD c, cf_peerID c)"
    using assms(1) by (auto simp: session_at_def split: option.splits)
  define t where "t = (clearBytes (Some k) s)\<lparr>sessions := (sessions s)(a := \<lparr>ss_closed = True, ss_isk = None\<rparr>)\<rparr>"
  have eq: "Session_Close (Some S) s = (Ok (), t)" using a by (simp add: Session_Close_closed t_def)
  have k: "mem t k = zeros (cf_isk c)" using a by (simp add: t_def mem_clearBytes)
  have "session_metadata t S = (cf_transcriptID c, cf_peerAD c, cf_peerID c)"
    using md distinct by (simp add: session_metadata_def t_def clear_closed content_upd eq_commute)
  moreover have "Session_Close (Some S') u = (Ok (), u) \<and> mem u k = zeros (cf_isk c)
      \<and> (\<forall>label context n. Export (Some S') label context n u = (Err (Sentinel ErrSessionClosed), u))"
    if "session_step\<^sup>*\<^sup>* t u" for u
  proof -
    have "sessions u a = sessions t a \<and> mem u k = mem t k"
      using session_steps_closed [OF that, of a k] a k by (simp add: t_def)
    then show ?thesis
      using a assms(2) k by (simp add: Session_Close_closed Export_closed t_def)
  qed
  ultimately show ?thesis using eq a k by blast
qed

definition sample_session :: sessionStruct where
  "sample_session = \<lparr>s_state = Some 4, s_transcriptID = Some 1, s_peerAD = None, s_peerID = Some 2\<rparr>"

theorem Session_Close_final_witness:
  "\<exists>t. Session_Close (Some sample_session) ((sample_store ())\<lparr>brk := 5, sessions := \<lambda>_. \<lparr>ss_closed = False, ss_isk = Some 3\<rparr>\<rparr>)
     = (Ok (), t) \<and> mem t 3 = [0]
     \<and> Export (Some sample_session) [] [] 64 t = (Err (Sentinel ErrSessionClosed), t)"
proof -
  let ?s = "(sample_store ())\<lparr>brk := 5, sessions := \<lambda>_. \<lparr>ss_closed = False, ss_isk = Some 3\<rparr>\<rparr>"
  have "session_at ?s sample_session \<lparr>cf_isk = [3], cf_transcriptID = [1], cf_peerAD = [], cf_peerID = [2]\<rparr>"
    by (simp add: session_at_def session_metadata_def sample_session_def sample_store_def)
  from Session_Close_final [OF this refl] show ?thesis
    by (auto simp: sample_session_def zeros_def)
qed

end
