(* ===== verification/Framing.thy ===== *)
theory Framing
  imports Length_Value Caps
begin

text \<open>
  framing.go: the wire format of the messages A, B and C, a three-byte header and a fixed
  sequence of length-value fields, with the encoder, the reader and the decoder.
\<close>

section \<open>Data\<close>

definition currentSuite :: byte where "currentSuite = 0x01"
definition wireFormatV1 :: byte where "wireFormatV1 = 0xc1"
definition wireSuite :: byte where "wireSuite = currentSuite"
definition roleA :: byte where "roleA = 0x01"
definition roleB :: byte where "roleB = 0x02"
definition roleC :: byte where "roleC = 0x03"

definition maxMessageLength :: int where "maxMessageLength = push_bit 10 128"
definition maxLEB128BytesForField :: nat where "maxLEB128BytesForField = 3"
definition messageHeaderSize :: nat where "messageHeaderSize = 3"

definition maxValidMessageALength :: int where
  "maxValidMessageALength = int messageHeaderSize +
     int maxLEB128BytesForField + maxSessionIDLength +
     int maxLEB128BytesForField + pointSize +
     int maxLEB128BytesForField + maxAssociatedDataLength"
definition maxValidMessageBLength :: int where
  "maxValidMessageBLength = int messageHeaderSize +
     int maxLEB128BytesForField + pointSize +
     int maxLEB128BytesForField + maxAssociatedDataLength +
     int maxLEB128BytesForField + tagSize"
definition maxValidMessageCLength :: int where
  "maxValidMessageCLength = int messageHeaderSize + int maxLEB128BytesForField + tagSize"

record messageA = ma_sid :: bytes  ma_ya :: bytes  ma_ada :: bytes
record messageB = mb_yb :: bytes  mb_adb :: bytes  mb_tag :: bytes
record messageC = mc_tag :: bytes

record messageSpec =
  ms_name :: string
  ms_role :: byte
  ms_fields :: "packageCapField list"

definition messageASpec :: messageSpec where
  "messageASpec = \<lparr>ms_name = ''A'', ms_role = roleA,
     ms_fields = [messageASessionIDCap, messageAPointCap, messageAAssociatedDataCap]\<rparr>"
definition messageBSpec :: messageSpec where
  "messageBSpec = \<lparr>ms_name = ''B'', ms_role = roleB,
     ms_fields = [messageBPointCap, messageBAssociatedDataCap, messageBTagCap]\<rparr>"
definition messageCSpec :: messageSpec where
  "messageCSpec = \<lparr>ms_name = ''C'', ms_role = roleC, ms_fields = [messageCTagCap]\<rparr>"

section \<open>Encoding\<close>

text \<open>The capacity that \<open>encode\<close> reserves, and the bytes that it appends.\<close>

definition encode_capacity :: "bytes list \<Rightarrow> int" where
  "encode_capacity flds =
     foldl (\<lambda>capacity field. capacity + lengthValueLen (int (length field))) (int messageHeaderSize) flds"

definition encode :: "messageSpec \<Rightarrow> bytes list \<Rightarrow> bytes result" where
  "encode spec flds =
     (if length flds \<noteq> length (ms_fields spec)
      then Panic ''cpace: internal message framing field count mismatch''
      else Ok (foldl appendLengthValue [wireFormatV1, wireSuite, ms_role spec] flds))"

definition encodeMessageA :: "bytes \<Rightarrow> bytes \<Rightarrow> bytes \<Rightarrow> bytes result" where
  "encodeMessageA sid ya ada = encode messageASpec [sid, ya, ada]"
definition encodeMessageB :: "bytes \<Rightarrow> bytes \<Rightarrow> bytes \<Rightarrow> bytes result" where
  "encodeMessageB yb adb tag = encode messageBSpec [yb, adb, tag]"
definition encodeMessageC :: "bytes \<Rightarrow> bytes result" where
  "encodeMessageC tag = encode messageCSpec [tag]"

section \<open>Decoding\<close>

record messageReader =
  mr_buf :: bytes
  mr_off :: nat

definition newMessageReader :: "bytes \<Rightarrow> messageSpec \<Rightarrow> messageReader result" where
  "newMessageReader buf spec =
     (if length buf < messageHeaderSize then Err (errorf ErrMessage ''truncated header'')
      else if buf ! 0 \<noteq> wireFormatV1 then Err (errorf ErrMessage ''wrong wire format version'')
      else if buf ! 1 \<noteq> wireSuite then Err (errorf ErrMessage ''wrong suite'')
      else if buf ! 2 \<noteq> ms_role spec then Err (errorf ErrMessage ''wrong role'')
      else if int (length buf) > maxMessageLength then Err (errorf ErrMessage ''message too large'')
      else Ok \<lparr>mr_buf = buf, mr_off = messageHeaderSize\<rparr>)"

definition readField :: "messageReader \<Rightarrow> packageCapField \<Rightarrow> (bytes \<times> messageReader) result" where
  "readField r spec =
     (case readLEB128 (mr_buf r) (mr_off r) maxLEB128BytesForField of
        Err e \<Rightarrow> Err e
      | Panic m \<Rightarrow> Panic m
      | Ok (n, nxt) \<Rightarrow>
         (case validateMessageLength spec n of
            Err e \<Rightarrow> Err e
          | Panic m \<Rightarrow> Panic m
          | Ok _ \<Rightarrow>
              if int (length (mr_buf r)) - int nxt < n
              then Err (Errorf [Wrap (Sentinel ErrMessage), Txt '': truncated '', Txt (pcf_name spec), Txt '' field''])
              else (case slice_expr (mr_buf r) (int nxt) (int nxt + n) of
                      Err e \<Rightarrow> Err e
                    | Panic m \<Rightarrow> Panic m
                    | Ok out \<Rightarrow> Ok (out, r\<lparr>mr_off := nat (int nxt + n)\<rparr>))))"

definition reader_done :: "messageReader \<Rightarrow> unit result" where
  "reader_done r =
     (if mr_off r \<noteq> length (mr_buf r) then Err (errorf ErrMessage ''trailing data'') else Ok ())"

text \<open>The loop of \<open>decode\<close> over the field specifications, then the check for trailing data.\<close>

fun readFields :: "messageReader \<Rightarrow> packageCapField list \<Rightarrow> (bytes list \<times> messageReader) result" where
  "readFields r [] = Ok ([], r)"
| "readFields r (field # rest) =
     (case readField r field of
        Err e \<Rightarrow> Err e
      | Panic m \<Rightarrow> Panic m
      | Ok (d, r') \<Rightarrow>
         (case readFields r' rest of
            Err e \<Rightarrow> Err e
          | Panic m \<Rightarrow> Panic m
          | Ok (ds, r'') \<Rightarrow> Ok (d # ds, r'')))"

definition decode :: "messageSpec \<Rightarrow> bytes \<Rightarrow> bytes list result" where
  "decode spec buf =
     (case newMessageReader buf spec of
        Err e \<Rightarrow> Err e
      | Panic m \<Rightarrow> Panic m
      | Ok r \<Rightarrow>
         (case readFields r (ms_fields spec) of
            Err e \<Rightarrow> Err e
          | Panic m \<Rightarrow> Panic m
          | Ok (flds, r') \<Rightarrow>
             (case reader_done r' of
                Err e \<Rightarrow> Err e
              | Panic m \<Rightarrow> Panic m
              | Ok _ \<Rightarrow> Ok flds)))"

text \<open>\<open>fields[i]\<close> out of range would be a panic; the decoder returns one field per specification.\<close>

definition decodeMessageA :: "bytes \<Rightarrow> messageA result" where
  "decodeMessageA buf =
     (case decode messageASpec buf of
        Err e \<Rightarrow> Err e
      | Panic m \<Rightarrow> Panic m
      | Ok flds \<Rightarrow>
         if length flds < 3 then Panic ''index out of range''
         else Ok \<lparr>ma_sid = flds ! 0, ma_ya = flds ! 1, ma_ada = flds ! 2\<rparr>)"

definition decodeMessageB :: "bytes \<Rightarrow> messageB result" where
  "decodeMessageB buf =
     (case decode messageBSpec buf of
        Err e \<Rightarrow> Err e
      | Panic m \<Rightarrow> Panic m
      | Ok flds \<Rightarrow>
         if length flds < 3 then Panic ''index out of range''
         else Ok \<lparr>mb_yb = flds ! 0, mb_adb = flds ! 1, mb_tag = flds ! 2\<rparr>)"

definition decodeMessageC :: "bytes \<Rightarrow> messageC result" where
  "decodeMessageC buf =
     (case decode messageCSpec buf of
        Err e \<Rightarrow> Err e
      | Panic m \<Rightarrow> Panic m
      | Ok flds \<Rightarrow>
         if length flds < 1 then Panic ''index out of range''
         else Ok \<lparr>mc_tag = flds ! 0\<rparr>)"

section \<open>The wire format as a code\<close>

text \<open>
  \<open>decode_iff\<close> is the exact description of the decoder for any specification whose caps fit
  the three-byte length prefix: it accepts a buffer if and only if the buffer is the header
  followed by the encodings of fields that respect their caps, and no longer than the
  aggregate cap.
\<close>

lemmas framing_consts [simp] = messageHeaderSize_def maxLEB128BytesForField_def

lemma maxMessageLength [simp]: "maxMessageLength = 131072"
  by (simp add: maxMessageLength_def push_bit_eq_mult)

definition cap_wf :: "packageCapField \<Rightarrow> bool" where
  "cap_wf f \<longleftrightarrow> pcf_length f < 2 ^ 21"

lemma field_ok_length: "cap_wf f \<Longrightarrow> field_ok f d \<Longrightarrow> length d < 2 ^ 21"
  by (auto simp: cap_wf_def field_ok_def split: if_splits)

lemma readField_iff:
  assumes "cap_wf f"
  shows "readField r f = Ok (d, r') \<longleftrightarrow>
    field_ok f d \<and> r' = r\<lparr>mr_off := mr_off r + length (lv d)\<rparr> \<and>
    (\<exists>rest. drop (mr_off r) (mr_buf r) = lv d @ rest)"
proof
  assume ok: "readField r f = Ok (d, r')"
  then obtain n nxt where rl: "readLEB128 (mr_buf r) (mr_off r) 3 = Ok (n, nxt)"
    by (auto simp: readField_def split: go.splits)
  from readLEB128_from_Ok [of "mr_buf r" 3 0 "mr_off r" 0 n nxt] rl
  obtain v where v: "n = int v" "nxt = mr_off r + length (leb v)"
    "take (length (leb v)) (drop (mr_off r) (mr_buf r)) = leb v" "nxt \<le> length (mr_buf r)"
    by (auto simp: readLEB128_def acc_ok_def)
  have len: "int (length (mr_buf r)) - int nxt \<ge> int v"
    and val: "validateMessageLength f (int v) = Ok ()"
    and d: "d = take v (drop nxt (mr_buf r))"
    and r': "r' = r\<lparr>mr_off := nxt + v\<rparr>"
    using ok rl v(1) by (auto simp: readField_def slice_expr_def nat_int_add split: go.splits if_splits)
  have ld: "length d = v" using len d v(4) by simp
  have "drop (mr_off r) (mr_buf r) = leb v @ drop nxt (mr_buf r)"
    using v(2,3) append_take_drop_id [of "length (leb v)" "drop (mr_off r) (mr_buf r)"]
    by (simp add: add.commute)
  also have "drop nxt (mr_buf r) = d @ drop v (drop nxt (mr_buf r))" by (simp only: d append_take_drop_id)
  finally have "drop (mr_off r) (mr_buf r) = lv d @ drop v (drop nxt (mr_buf r))"
    by (simp add: lv_def ld)
  then show "field_ok f d \<and> r' = r\<lparr>mr_off := mr_off r + length (lv d)\<rparr> \<and>
    (\<exists>rest. drop (mr_off r) (mr_buf r) = lv d @ rest)"
    using val [unfolded ld [symmetric]] r' v(2) ld
    by (auto simp: lv_def validateMessageLength_Ok add.assoc)
next
  assume "field_ok f d \<and> r' = r\<lparr>mr_off := mr_off r + length (lv d)\<rparr> \<and>
    (\<exists>rest. drop (mr_off r) (mr_buf r) = lv d @ rest)"
  then obtain rest where ok: "field_ok f d" and r': "r' = r\<lparr>mr_off := mr_off r + length (lv d)\<rparr>"
    and dr: "drop (mr_off r) (mr_buf r) = leb (length d) @ d @ rest"
    by (auto simp: lv_def)
  have l21: "length d < 2 ^ (7 * 3)" using field_ok_length [OF assms ok] by simp
  have rl: "readLEB128 (mr_buf r) (mr_off r) 3
      = Ok (int (length d), mr_off r + length (leb (length d)))"
    using readLEB128_from_leb [of 0 0 "mr_off r" "mr_buf r" "length d" "d @ rest" 3] dr
      length_leb_le [OF l21] by (simp add: readLEB128_def acc_ok_def)
  have l: "length (mr_buf r) = mr_off r + length (leb (length d)) + length d + length rest"
    using arg_cong [OF dr, of length]
    by (cases "mr_off r \<le> length (mr_buf r)") auto
  have "drop (mr_off r + length (leb (length d))) (mr_buf r) = d @ rest"
    using list_eq_take_mid(2) [OF dr] .
  then have "take (length d) (drop (mr_off r + length (leb (length d))) (mr_buf r)) = d" by simp
  moreover have "validateMessageLength f (int (length d)) = Ok ()"
    using ok by (simp add: validateMessageLength_Ok)
  ultimately show "readField r f = Ok (d, r')"
    using rl r' l by (simp add: readField_def slice_expr_def lv_def nat_int_add add.assoc)
qed

lemma readFields_iff:
  assumes "list_all cap_wf fs"
  shows "readFields r fs = Ok (ds, r') \<longleftrightarrow>
    list_all2 field_ok fs ds \<and> r' = r\<lparr>mr_off := mr_off r + length (concat (map lv ds))\<rparr> \<and>
    (\<exists>rest. drop (mr_off r) (mr_buf r) = concat (map lv ds) @ rest)"
  using assms
proof (induction fs arbitrary: r ds)
  case Nil
  then show ?case by auto
next
  case (Cons f fs)
  then have wf: "cap_wf f" and IH: "\<And>r ds. readFields r fs = Ok (ds, r') \<longleftrightarrow>
    list_all2 field_ok fs ds \<and> r' = r\<lparr>mr_off := mr_off r + length (concat (map lv ds))\<rparr> \<and>
    (\<exists>rest. drop (mr_off r) (mr_buf r) = concat (map lv ds) @ rest)"
    by simp_all
  have "readFields r (f # fs) = Ok (ds, r') \<longleftrightarrow>
    (\<exists>d ds' r1. ds = d # ds' \<and> readField r f = Ok (d, r1) \<and> readFields r1 fs = Ok (ds', r'))"
    by (auto split: go.splits)
  also have "\<dots> \<longleftrightarrow> (\<exists>d ds'. ds = d # ds' \<and> field_ok f d \<and> list_all2 field_ok fs ds' \<and>
      r' = r\<lparr>mr_off := mr_off r + length (lv d) + length (concat (map lv ds'))\<rparr> \<and>
      (\<exists>rest. drop (mr_off r) (mr_buf r) = lv d @ rest) \<and>
      (\<exists>rest. drop (mr_off r + length (lv d)) (mr_buf r) = concat (map lv ds') @ rest))"
    unfolding readField_iff [OF wf] IH by auto
  also have "\<dots> \<longleftrightarrow> (\<exists>d ds'. ds = d # ds' \<and> field_ok f d \<and> list_all2 field_ok fs ds' \<and>
      r' = r\<lparr>mr_off := mr_off r + length (lv d) + length (concat (map lv ds'))\<rparr> \<and>
      (\<exists>rest. drop (mr_off r) (mr_buf r) = lv d @ concat (map lv ds') @ rest))"
    by (auto dest: list_eq_take_mid(2)) (metis list_eq_take_mid(2))+
  finally show ?case by (cases ds) (auto simp: add.assoc)
qed


definition header :: "messageSpec \<Rightarrow> bytes" where
  "header spec = [wireFormatV1, wireSuite, ms_role spec]"

lemma newMessageReader_Ok:
  "newMessageReader buf spec = Ok r \<longleftrightarrow>
    take 3 buf = header spec \<and> length buf \<le> 131072 \<and> r = \<lparr>mr_buf = buf, mr_off = 3\<rparr>"
proof (cases "length buf < 3")
  case True
  then have "take 3 buf \<noteq> header spec" by (auto simp: header_def dest: arg_cong [where f = length])
  then show ?thesis using True by (simp add: newMessageReader_def)
next
  case False
  then obtain a b c rest where "buf = a # b # c # rest"
    by (metis Suc_le_length_iff length_Cons not_less numeral_3_eq_3)
  then show ?thesis by (auto simp: newMessageReader_def header_def)
qed

lemma decode_Ok_parts:
  "decode spec buf = Ok ds \<longleftrightarrow> (\<exists>r r'. newMessageReader buf spec = Ok r \<and>
     readFields r (ms_fields spec) = Ok (ds, r') \<and> reader_done r' = Ok ())"
  by (auto simp: decode_def split: go.splits)

lemma decode_iff:
  assumes "list_all cap_wf (ms_fields spec)"
  shows "decode spec buf = Ok ds \<longleftrightarrow> list_all2 field_ok (ms_fields spec) ds
    \<and> length buf \<le> 131072 \<and> buf = header spec @ concat (map lv ds)"
    (is "?L \<longleftrightarrow> ?R")
proof -
  have "?L \<longleftrightarrow> take 3 buf = header spec \<and> length buf \<le> 131072 \<and>
      list_all2 field_ok (ms_fields spec) ds \<and>
      (\<exists>rest. drop 3 buf = concat (map lv ds) @ rest) \<and>
      3 + length (concat (map lv ds)) = length buf"
    unfolding decode_Ok_parts newMessageReader_Ok readFields_iff [OF assms]
    by (auto simp: reader_done_def)
  also have "\<dots> \<longleftrightarrow> list_all2 field_ok (ms_fields spec) ds \<and> length buf \<le> 131072 \<and>
      take 3 buf = header spec \<and> drop 3 buf = concat (map lv ds)"
  proof -
    have "(\<exists>rest. drop 3 buf = concat (map lv ds) @ rest)
        \<and> 3 + length (concat (map lv ds)) = length buf \<longleftrightarrow> drop 3 buf = concat (map lv ds)"
      if "take 3 buf = header spec"
    proof -
      have "3 \<le> length buf" using arg_cong [OF that, of length] by (simp add: header_def)
      moreover have "rest = []" if "drop 3 buf = xs @ rest" "3 + length xs = length buf" for xs rest
        using arg_cong [OF that(1), of length] that(2) length_0_conv [of rest]
        unfolding length_drop length_append by linarith
      moreover have "3 + length xs = length buf" if "drop 3 buf = xs" "3 \<le> length buf" for xs
        using that by auto
      ultimately show ?thesis by (metis append_Nil2)
    qed
    then show ?thesis by blast
  qed
  also have "\<dots> \<longleftrightarrow> ?R"
    by (auto simp: header_def) (metis append_take_drop_id append_Cons append_Nil)
  finally show ?thesis .
qed

lemma encode_eq:
  assumes "length ds = length (ms_fields spec)" and "list_all go_slice ds"
  shows "encode spec ds = Ok (header spec @ concat (map lv ds))"
  using assms by (simp add: encode_def header_def foldl_appendLengthValue)

lemma field_ok_go_slice: "cap_wf f \<Longrightarrow> field_ok f d \<Longrightarrow> go_slice d"
  using field_ok_length [of f d] by (simp add: go_slice_def)

lemma fields_ok_go_slice:
  assumes "list_all cap_wf fs" and "list_all2 field_ok fs ds"
  shows "list_all go_slice ds"
  using assms(2,1) by (induction) (auto intro: field_ok_go_slice)

section \<open>Errors\<close>

lemma readLEB128_from_error:
  "readLEB128_from buf mb i off n \<noteq> Panic m \<and>
   (readLEB128_from buf mb i off n = Err e \<longrightarrow> errors_Is e ErrMessage)"
  by (induction buf mb i off n rule: readLEB128_from.induct)
    (subst readLEB128_from.simps, subst (2) readLEB128_from.simps, auto simp: Let_def)

text \<open>Results that are a value or an error wrapping \<open>ErrMessage\<close>, never a panic.\<close>

definition message_result :: "'a result \<Rightarrow> bool" where
  "message_result r \<longleftrightarrow> (case r of Ok _ \<Rightarrow> True | Err e \<Rightarrow> errors_Is e ErrMessage | Panic _ \<Rightarrow> False)"

lemma message_result_simps [simp]:
  "message_result (Ok x)" "message_result (Err e) \<longleftrightarrow> errors_Is e ErrMessage"
  "\<not> message_result (Panic m)"
  by (simp_all add: message_result_def)

lemma message_result_readLEB128: "message_result (readLEB128 buf off k)"
  using readLEB128_from_error
  by (cases "readLEB128 buf off k") (auto simp: readLEB128_def)

lemma readLEB128_nonneg: "readLEB128 buf off 3 = Ok (n, nxt) \<Longrightarrow> 0 \<le> n"
  using readLEB128_canonical [of buf off 3 n nxt] by simp

lemma message_result_validate: "message_result (validateMessageLength f n)"
  by (simp add: validateMessageLength_def)

lemma message_result_readField: "message_result (readField r f)"
proof (cases "readLEB128 (mr_buf r) (mr_off r) 3")
  case (Ok p)
  then obtain n nxt where p: "readLEB128 (mr_buf r) (mr_off r) 3 = Ok (n, nxt)" by (cases p) auto
  then show ?thesis using readLEB128_nonneg [OF p] message_result_validate [of f n]
    by (auto simp: readField_def slice_expr_def split: go.splits)
qed (use message_result_readLEB128 [of "mr_buf r" "mr_off r" 3] in \<open>simp_all add: readField_def\<close>)

lemma message_result_readFields: "message_result (readFields r fs)"
proof (induction fs arbitrary: r)
  case (Cons f fs)
  show ?case
  proof (cases "readField r f")
    case (Ok p)
    then show ?thesis using Cons [of "snd p"]
      by (cases p; cases "readFields (snd p) fs") auto
  qed (use message_result_readField [of r f] in simp_all)
qed simp

lemma message_result_newMessageReader: "message_result (newMessageReader buf spec)"
  by (simp add: newMessageReader_def)

lemma message_result_decode: "message_result (decode spec buf)"
proof (cases "newMessageReader buf spec")
  case (Ok r)
  then show ?thesis using message_result_readFields [of r "ms_fields spec"]
    by (cases "readFields r (ms_fields spec)") (auto simp: decode_def reader_done_def split: go.splits)
qed (use message_result_newMessageReader [of buf spec] in \<open>simp_all add: decode_def\<close>)

section \<open>The codec contract\<close>

text \<open>
  What a user of the framing relies on: encoding a valid message succeeds, decoding accepts
  exactly the encodings of valid messages, a rejection is an error wrapping
  \<open>ErrMessage\<close> and never a panic, and no encoding is a proper prefix of another. Round trip,
  canonicity, injectivity and the rejection of truncated or extended buffers follow once for
  every codec.
\<close>

locale message_codec =
  fixes enc :: "'m \<Rightarrow> bytes result" and dec :: "bytes \<Rightarrow> 'm result" and valid :: "'m \<Rightarrow> bool"
  assumes enc_total: "valid m \<Longrightarrow> \<exists>buf. enc m = Ok buf"
    and dec_iff: "dec buf = Ok m \<longleftrightarrow> valid m \<and> enc m = Ok buf"
    and dec_result: "message_result (dec buf)"
    and prefix_free: "valid m \<Longrightarrow> valid m' \<Longrightarrow> enc m = Ok buf \<Longrightarrow> enc m' = Ok (buf @ z) \<Longrightarrow> z = []"
begin

lemma round_trip: "valid m \<Longrightarrow> \<exists>buf. enc m = Ok buf \<and> dec buf = Ok m"
  using enc_total dec_iff by blast

lemma canonical: "dec buf = Ok m \<Longrightarrow> enc m = Ok buf"
  using dec_iff by blast

lemma enc_inject: "valid m \<Longrightarrow> valid m' \<Longrightarrow> enc m = enc m' \<Longrightarrow> m = m'"
  using round_trip dec_iff by (metis go.inject(1))

lemma rejected: "(\<And>m. dec buf \<noteq> Ok m) \<Longrightarrow> \<exists>e. dec buf = Err e \<and> errors_Is e ErrMessage"
  using dec_result [of buf] by (cases "dec buf") auto

lemma extension_rejected:
  assumes "dec buf = Ok m" and "z \<noteq> []"
  shows "\<exists>e. dec (buf @ z) = Err e \<and> errors_Is e ErrMessage"
  using assms by (intro rejected) (metis dec_iff prefix_free)

lemma truncation_rejected:
  assumes "dec buf = Ok m" and "k < length buf"
  shows "\<exists>e. dec (take k buf) = Err e \<and> errors_Is e ErrMessage"
proof (rule rejected)
  fix m' show "dec (take k buf) \<noteq> Ok m'"
  proof
    assume "dec (take k buf) = Ok m'"
    then have "drop k buf = []"
      using assms(1) prefix_free [of m' m "take k buf" "drop k buf"]
      by (simp add: dec_iff append_take_drop_id del: drop_eq_Nil)
    with assms(2) show False by simp
  qed
qed

end

text \<open>
  A codec on field lists gives one on the message records whose decoder only regroups the
  fields.
\<close>

locale record_codec = base: message_codec enc dec valid
  for enc :: "'f \<Rightarrow> bytes result" and dec :: "bytes \<Rightarrow> 'f result" and valid :: "'f \<Rightarrow> bool" +
  fixes pack :: "'m \<Rightarrow> 'f" and rdec :: "bytes \<Rightarrow> 'm result"
  assumes rdec_iff: "rdec buf = Ok m \<longleftrightarrow> dec buf = Ok (pack m)"
    and rdec_result: "message_result (rdec buf)"

sublocale record_codec \<subseteq> msg: message_codec "\<lambda>m. enc (pack m)" rdec "\<lambda>m. valid (pack m)"
  by unfold_locales (auto simp: base.enc_total rdec_iff base.dec_iff rdec_result intro: base.prefix_free)

definition fields_valid :: "messageSpec \<Rightarrow> bytes list \<Rightarrow> bool" where
  "fields_valid spec ds \<longleftrightarrow> list_all2 field_ok (ms_fields spec) ds
    \<and> length (header spec @ concat (map lv ds)) \<le> 131072"

lemma message_codec_spec:
  assumes wf: "list_all cap_wf (ms_fields spec)"
  shows "message_codec (encode spec) (decode spec) (fields_valid spec)"
proof unfold_locales
  have enc: "encode spec ds = Ok (header spec @ concat (map lv ds))" if "fields_valid spec ds" for ds
    using that fields_ok_go_slice [OF wf]
    by (intro encode_eq) (auto simp: fields_valid_def list_all2_lengthD)
  fix m m' buf z
  show "fields_valid spec m \<Longrightarrow> \<exists>buf. encode spec m = Ok buf" by (simp add: enc)
  show "(decode spec buf = Ok m) = (fields_valid spec m \<and> encode spec m = Ok buf)"
    by (auto simp: decode_iff [OF wf] enc fields_valid_def)
  show "message_result (decode spec buf)" by (rule message_result_decode)
  assume v: "fields_valid spec m" "fields_valid spec m'"
    and e: "encode spec m = Ok buf" "encode spec m' = Ok (buf @ z)"
  then have "length m = length m'" by (auto simp: fields_valid_def dest!: list_all2_lengthD)
  moreover have "concat (map lv m) @ z = concat (map lv m')" using e enc v by auto
  ultimately show "z = []" using lv.concat_prefix_free [of m m' z] by (simp add: list.pred_True)
qed

lemma specs_cap_wf:
  "list_all cap_wf (ms_fields messageASpec)" "list_all cap_wf (ms_fields messageBSpec)"
  "list_all cap_wf (ms_fields messageCSpec)"
  by (simp_all add: messageASpec_def messageBSpec_def messageCSpec_def message_cap_defs cap_wf_def)

definition packA :: "messageA \<Rightarrow> bytes list" where "packA m = [ma_sid m, ma_ya m, ma_ada m]"
definition packB :: "messageB \<Rightarrow> bytes list" where "packB m = [mb_yb m, mb_adb m, mb_tag m]"
definition packC :: "messageC \<Rightarrow> bytes list" where "packC m = [mc_tag m]"

lemma decode_length: "list_all cap_wf (ms_fields spec) \<Longrightarrow> decode spec buf = Ok ds \<Longrightarrow>
    length ds = length (ms_fields spec)"
  by (auto simp: decode_iff dest: list_all2_lengthD)

lemma list_of_length_3: "length ds = 3 \<Longrightarrow> \<exists>a b c. ds = [a, b, c]"
  by (auto simp: numeral_3_eq_3 length_Suc_conv)

interpretation codecA: record_codec "encode messageASpec" "decode messageASpec" "fields_valid messageASpec"
  packA decodeMessageA
proof (intro record_codec.intro record_codec_axioms.intro)
  show "message_codec (encode messageASpec) (decode messageASpec) (fields_valid messageASpec)"
    by (rule message_codec_spec) (rule specs_cap_wf)
  fix buf m
  have 3: "length ds = 3" if "decode messageASpec buf = Ok ds" for ds
    using decode_length [OF specs_cap_wf(1) that] by (simp add: messageASpec_def)
  show "(decodeMessageA buf = Ok m) = (decode messageASpec buf = Ok (packA m))"
    by (auto simp: decodeMessageA_def packA_def dest!: 3 list_of_length_3 split: go.splits)
  show "message_result (decodeMessageA buf)"
    using message_result_decode [of messageASpec buf]
    by (auto simp: decodeMessageA_def dest!: 3 split: go.splits)
qed

interpretation codecB: record_codec "encode messageBSpec" "decode messageBSpec" "fields_valid messageBSpec"
  packB decodeMessageB
proof (intro record_codec.intro record_codec_axioms.intro)
  show "message_codec (encode messageBSpec) (decode messageBSpec) (fields_valid messageBSpec)"
    by (rule message_codec_spec) (rule specs_cap_wf)
  fix buf m
  have 3: "length ds = 3" if "decode messageBSpec buf = Ok ds" for ds
    using decode_length [OF specs_cap_wf(2) that] by (simp add: messageBSpec_def)
  show "(decodeMessageB buf = Ok m) = (decode messageBSpec buf = Ok (packB m))"
    by (auto simp: decodeMessageB_def packB_def dest!: 3 list_of_length_3 split: go.splits)
  show "message_result (decodeMessageB buf)"
    using message_result_decode [of messageBSpec buf]
    by (auto simp: decodeMessageB_def dest!: 3 split: go.splits)
qed

interpretation codecC: record_codec "encode messageCSpec" "decode messageCSpec" "fields_valid messageCSpec"
  packC decodeMessageC
proof (intro record_codec.intro record_codec_axioms.intro)
  show "message_codec (encode messageCSpec) (decode messageCSpec) (fields_valid messageCSpec)"
    by (rule message_codec_spec) (rule specs_cap_wf)
  fix buf m
  have 1: "length ds = 1" if "decode messageCSpec buf = Ok ds" for ds
    using decode_length [OF specs_cap_wf(3) that] by (simp add: messageCSpec_def)
  show "(decodeMessageC buf = Ok m) = (decode messageCSpec buf = Ok (packC m))"
    by (auto simp: decodeMessageC_def packC_def length_Suc_conv dest!: 1 split: go.splits)
  show "message_result (decodeMessageC buf)"
    using message_result_decode [of messageCSpec buf]
    by (auto simp: decodeMessageC_def dest!: 1 split: go.splits)
qed

definition valid_A :: "messageA \<Rightarrow> bool" where
  "valid_A m \<longleftrightarrow> length (ma_sid m) \<le> 1024 \<and> length (ma_ya m) = 32 \<and> length (ma_ada m) \<le> 65536"
definition valid_B :: "messageB \<Rightarrow> bool" where
  "valid_B m \<longleftrightarrow> length (mb_yb m) = 32 \<and> length (mb_adb m) \<le> 65536 \<and> length (mb_tag m) = 64"
definition valid_C :: "messageC \<Rightarrow> bool" where
  "valid_C m \<longleftrightarrow> length (mc_tag m) = 64"

lemma length_lv_le: "length d < 2 ^ 21 \<Longrightarrow> length (lv d) \<le> 3 + length d"
  using length_leb_le [of "length d" 3] by (simp add: lv_def)

lemma fields_valid_A: "fields_valid messageASpec (packA m) \<longleftrightarrow> valid_A m"
proof -
  have "length (lv (ma_sid m)) + length (lv (ma_ya m)) + length (lv (ma_ada m)) \<le> 131072 - 3"
    if "valid_A m"
    using that length_lv_le [of "ma_sid m"] length_lv_le [of "ma_ya m"] length_lv_le [of "ma_ada m"]
    by (simp add: valid_A_def)
  then show ?thesis
    by (auto simp: fields_valid_def messageASpec_def packA_def message_cap_defs field_ok_def
        valid_A_def header_def)
qed

lemma fields_valid_B: "fields_valid messageBSpec (packB m) \<longleftrightarrow> valid_B m"
proof -
  have "length (lv (mb_yb m)) + length (lv (mb_adb m)) + length (lv (mb_tag m)) \<le> 131072 - 3"
    if "valid_B m"
    using that length_lv_le [of "mb_yb m"] length_lv_le [of "mb_adb m"] length_lv_le [of "mb_tag m"]
    by (simp add: valid_B_def)
  then show ?thesis
    by (auto simp: fields_valid_def messageBSpec_def packB_def message_cap_defs field_ok_def
        valid_B_def header_def)
qed

lemma fields_valid_C: "fields_valid messageCSpec (packC m) \<longleftrightarrow> valid_C m"
  using length_lv_le [of "mc_tag m"]
  by (auto simp: fields_valid_def messageCSpec_def packC_def message_cap_defs field_ok_def
        valid_C_def header_def)

lemma encode_pack:
  "encode messageASpec (packA m) = encodeMessageA (ma_sid m) (ma_ya m) (ma_ada m)"
  "encode messageBSpec (packB b) = encodeMessageB (mb_yb b) (mb_adb b) (mb_tag b)"
  "encode messageCSpec (packC c) = encodeMessageC (mc_tag c)"
  by (simp_all add: encodeMessageA_def encodeMessageB_def encodeMessageC_def packA_def packB_def packC_def)

lemma length_encode_le:
  assumes "fields_valid spec ds" and "list_all cap_wf (ms_fields spec)" and "encode spec ds = Ok buf"
  shows "length buf \<le> 3 + sum_list (map (\<lambda>d. 3 + length d) ds)"
    and "encode_capacity ds = int (length buf)"
proof -
  have short: "list_all (\<lambda>d. length d < 2 ^ 21) ds"
    using assms(1,2) unfolding fields_valid_def
    unfolding list_all_length list_all2_conv_all_nth by (metis field_ok_length)
  then have "length (concat (map lv ds)) \<le> sum_list (map (\<lambda>d. 3 + length d) ds)"
    by (induction ds) (auto dest!: length_lv_le [simplified])
  moreover have buf: "buf = header spec @ concat (map lv ds)"
    using assms(3) decode_iff [OF assms(2), of buf ds] assms(1)
      message_codec.dec_iff [OF message_codec_spec [OF assms(2)], of buf ds] by simp
  ultimately show "length buf \<le> 3 + sum_list (map (\<lambda>d. 3 + length d) ds)"
    by (simp add: header_def)
  show "encode_capacity ds = int (length buf)"
    by (simp add: buf encode_capacity_def lvCat_total_sum header_def)
qed

section \<open>Properties\<close>

text \<open>C13. The decoders of the messages A, B and C accept exactly the encodings of well-formed
  messages: a buffer decodes to a message if and only if the message respects the per-field
  caps and the buffer is what the encoder produces for it. (Round trip and canonicity in one
  statement; there is no second wire form of any message.) On any other input they return an error that
  wraps \<open>ErrMessage\<close>; they never panic, so no index or slice expression of the reader goes out of range.\<close>

theorem decode_exact:
  "(decodeMessageA buf = Ok a \<longleftrightarrow> valid_A a \<and> encodeMessageA (ma_sid a) (ma_ya a) (ma_ada a) = Ok buf)
   \<and> (decodeMessageB buf = Ok b \<longleftrightarrow> valid_B b \<and> encodeMessageB (mb_yb b) (mb_adb b) (mb_tag b) = Ok buf)
   \<and> (decodeMessageC buf = Ok c \<longleftrightarrow> valid_C c \<and> encodeMessageC (mc_tag c) = Ok buf)
   \<and> message_result (decodeMessageA buf) \<and> message_result (decodeMessageB buf) \<and> message_result (decodeMessageC buf)"
  using codecA.msg.dec_iff [of buf a] codecB.msg.dec_iff [of buf b] codecC.msg.dec_iff [of buf c]
    codecA.msg.dec_result [of buf] codecB.msg.dec_result [of buf] codecC.msg.dec_result [of buf]
  by (simp add: fields_valid_A fields_valid_B fields_valid_C encode_pack)

text \<open>C29. No accepted message can be cut or continued: every proper prefix and every proper
  extension of an accepted buffer is rejected with \<open>ErrMessage\<close>, and the buffer is rejected as
  having the wrong role by the decoders of the other two messages.\<close>

theorem decode_delimited:
  assumes "spec \<in> {messageASpec, messageBSpec, messageCSpec}" and "decode spec buf = Ok ds"
    and "k < length buf" and "z \<noteq> []"
    and "spec' \<in> {messageASpec, messageBSpec, messageCSpec}" and "spec' \<noteq> spec"
  shows "(\<exists>e. decode spec (take k buf) = Err e \<and> errors_Is e ErrMessage)
    \<and> (\<exists>e. decode spec (buf @ z) = Err e \<and> errors_Is e ErrMessage)
    \<and> decode spec' buf = Err (errorf ErrMessage ''wrong role'')"
proof -
  have wf: "list_all cap_wf (ms_fields spec)" using assms(1) specs_cap_wf by auto
  have codec: "message_codec (encode spec) (decode spec) (fields_valid spec)"
    by (rule message_codec_spec [OF wf])
  have roles: "ms_role spec' \<noteq> ms_role spec"
    using assms(1,5,6) by (auto simp: messageASpec_def messageBSpec_def messageCSpec_def
        roleA_def roleB_def roleC_def)
  have "buf = header spec @ concat (map lv ds)" using assms(2) decode_iff [OF wf] by blast
  then have "decode spec' buf = Err (errorf ErrMessage ''wrong role'')"
    using roles by (simp add: decode_def newMessageReader_def header_def)
  then show ?thesis
    using message_codec.truncation_rejected [OF codec assms(2,3)]
      message_codec.extension_rejected [OF codec assms(2,4)] by blast
qed

text \<open>A concrete message C, for the witnesses.\<close>

definition sample_C :: bytes where
  "sample_C = [0xc1, 0x01, 0x03, 0x40] @ replicate 64 0xab"

lemma decode_sample_C: "decode messageCSpec sample_C = Ok [replicate 64 0xab]"
  by (subst decode_iff [OF specs_cap_wf(3)])
    (simp add: sample_C_def messageCSpec_def message_cap_defs field_ok_def header_def lv_def
      leb_small wireFormatV1_def wireSuite_def currentSuite_def roleC_def)

theorem decode_delimited_witness:
  "(\<exists>e. decode messageCSpec (take 67 sample_C) = Err e \<and> errors_Is e ErrMessage)
    \<and> (\<exists>e. decode messageCSpec (sample_C @ [0]) = Err e \<and> errors_Is e ErrMessage)
    \<and> decode messageASpec sample_C = Err (errorf ErrMessage ''wrong role'')"
proof (rule decode_delimited [OF _ decode_sample_C])
  show "messageASpec \<noteq> messageCSpec" by (simp add: messageASpec_def messageCSpec_def)
qed (simp_all add: sample_C_def)

text \<open>C30. The static size bounds of framing.go: every valid message fits its
  \<open>maxValidMessage...Length\<close>, each of these is below the aggregate cap that the reader enforces
  first, and the capacity that the encoder reserves is exactly the length it writes.\<close>

theorem encode_bounds:
  assumes "valid_A a" and "encodeMessageA (ma_sid a) (ma_ya a) (ma_ada a) = Ok bufA"
    and "valid_B b" and "encodeMessageB (mb_yb b) (mb_adb b) (mb_tag b) = Ok bufB"
    and "valid_C c" and "encodeMessageC (mc_tag c) = Ok bufC"
  shows "int (length bufA) \<le> maxValidMessageALength \<and> maxValidMessageALength < maxMessageLength
    \<and> int (length bufB) \<le> maxValidMessageBLength \<and> maxValidMessageBLength < maxMessageLength
    \<and> int (length bufC) \<le> maxValidMessageCLength \<and> maxValidMessageCLength < maxMessageLength
    \<and> encode_capacity [ma_sid a, ma_ya a, ma_ada a] = int (length bufA)
    \<and> encode_capacity [mb_yb b, mb_adb b, mb_tag b] = int (length bufB)
    \<and> encode_capacity [mc_tag c] = int (length bufC)"
proof -
  have v: "fields_valid messageASpec (packA a)" "fields_valid messageBSpec (packB b)"
    "fields_valid messageCSpec (packC c)"
    using assms(1,3,5) by (simp_all only: fields_valid_A fields_valid_B fields_valid_C)
  note A = length_encode_le [OF v(1) specs_cap_wf(1), unfolded encode_pack, OF assms(2)]
  note B = length_encode_le [OF v(2) specs_cap_wf(2), unfolded encode_pack, OF assms(4)]
  note C = length_encode_le [OF v(3) specs_cap_wf(3), unfolded encode_pack, OF assms(6)]
  have "length bufA \<le> 3 + (3 + 1024) + (3 + 32) + (3 + 65536)"
    using A(1) assms(1) by (simp add: packA_def valid_A_def)
  moreover have "length bufB \<le> 3 + (3 + 32) + (3 + 65536) + (3 + 64)"
    using B(1) assms(3) by (simp add: packB_def valid_B_def)
  moreover have "length bufC \<le> 3 + (3 + 64)"
    using C(1) assms(5) by (simp add: packC_def valid_C_def)
  ultimately show ?thesis
    using A(2) B(2) C(2)
    by (simp add: maxValidMessageALength_def maxValidMessageBLength_def maxValidMessageCLength_def
        packA_def packB_def packC_def)
qed

theorem encode_bounds_witness:
  "\<exists>bufA bufB bufC. encodeMessageA [1,2,3] (replicate 32 7) [] = Ok bufA
    \<and> encodeMessageB (replicate 32 9) [4] (replicate 64 1) = Ok bufB \<and> encodeMessageC (replicate 64 2) = Ok bufC
    \<and> int (length bufA) \<le> maxValidMessageALength \<and> maxValidMessageALength < maxMessageLength
    \<and> int (length bufB) \<le> maxValidMessageBLength \<and> maxValidMessageBLength < maxMessageLength
    \<and> int (length bufC) \<le> maxValidMessageCLength \<and> maxValidMessageCLength < maxMessageLength
    \<and> encode_capacity [[1,2,3], replicate 32 7, []] = int (length bufA)
    \<and> encode_capacity [replicate 32 9, [4], replicate 64 1] = int (length bufB)
    \<and> encode_capacity [replicate 64 2] = int (length bufC)"
proof -
  let ?a = "\<lparr>ma_sid = [1,2,3], ma_ya = replicate 32 7, ma_ada = []\<rparr>"
  let ?b = "\<lparr>mb_yb = replicate 32 9, mb_adb = [4], mb_tag = replicate 64 1\<rparr>"
  let ?c = "\<lparr>mc_tag = replicate 64 2\<rparr>"
  have v: "valid_A ?a" "valid_B ?b" "valid_C ?c" by (simp_all add: valid_A_def valid_B_def valid_C_def)
  obtain bufA where A: "encodeMessageA [1,2,3] (replicate 32 7) [] = Ok bufA"
    using codecA.msg.enc_total [of ?a] v by (auto simp: fields_valid_A encode_pack)
  obtain bufB where B: "encodeMessageB (replicate 32 9) [4] (replicate 64 1) = Ok bufB"
    using codecB.msg.enc_total [of ?b] v by (auto simp: fields_valid_B encode_pack)
  obtain bufC where C: "encodeMessageC (replicate 64 2) = Ok bufC"
    using codecC.msg.enc_total [of ?c] v by (auto simp: fields_valid_C encode_pack)
  from encode_bounds [of ?a bufA ?b bufB ?c bufC] v A B C
  have "int (length bufA) \<le> maxValidMessageALength \<and> maxValidMessageALength < maxMessageLength
    \<and> int (length bufB) \<le> maxValidMessageBLength \<and> maxValidMessageBLength < maxMessageLength
    \<and> int (length bufC) \<le> maxValidMessageCLength \<and> maxValidMessageCLength < maxMessageLength
    \<and> encode_capacity [[1,2,3], replicate 32 7, []] = int (length bufA)
    \<and> encode_capacity [replicate 32 9, [4], replicate 64 1] = int (length bufB)
    \<and> encode_capacity [replicate 64 2] = int (length bufC)" by simp
  with A B C show ?thesis by (intro exI [of _ bufA] exI [of _ bufB] exI [of _ bufC] conjI) simp_all
qed

end
