(* ===== verification/Core.thy ===== *)
theory Core
  imports Session Framing
begin

text \<open>
  core.go: the constructors and \<open>finish\<close> methods of the two roles, and the wipes of their
  persistent secrets. A core is a cell of the store. A \<open>nil\<close> source of randomness means
  \<open>rand.Reader\<close>, a parameter; both read the state \<open>rand\<close> of the store. Deferred wipes are
  written out at every exit, last deferred first; deferring \<open>clearBytes(k)\<close> on the error exits
  is a wipe of nil.
\<close>

section \<open>Operations\<close>

definition random_source :: "'r reader \<Rightarrow> 'r reader option \<Rightarrow> 'r reader" where
  "random_source rand_Reader random = (case random of None \<Rightarrow> rand_Reader | Some r \<Rightarrow> r)"

definition newInitiatorCore ::
  "('s, 'e) ristretto \<Rightarrow> 'r reader \<Rightarrow> normalizedInput \<Rightarrow> 'r reader option \<Rightarrow> ('s, 'e, 'r) store
     \<Rightarrow> (nat option \<times> slice) result \<times> ('s, 'e, 'r) store" where
  "newInitiatorCore R rand_Reader ni random s =
     (let random = random_source rand_Reader random in
      case calculateGenerator R (ni_password ni) (ni_ci ni) (ni_sid ni) s of
        (Err e, s) \<Rightarrow> (Err e, s)
      | (Panic m, s) \<Rightarrow> (Panic m, s)
      | (Ok g, s) \<Rightarrow>
          (let s = clearBytes (ni_password ni) s;
               ni = ni\<lparr>ni_password := None\<rparr>
           in case sampleScalar R random s of
                (Err e, s) \<Rightarrow> (Err e, clearElement R g s)
              | (Panic m, s) \<Rightarrow> (Panic m, clearElement R g s)
              | (Ok y, s) \<Rightarrow>
                  (let (ya, s) = scalarMult R (the y) (the g) s;
                       (sid, s) = clone (ni_sid ni) s;
                       (ya', s) = clone ya s;
                       (ada, s) = clone (ni_ad ni) s;
                       (peerID, s) = clone (ni_responderID ni) s;
                       c = brk s;
                       s = s\<lparr>brk := Suc c, icores := (icores s)(c :=
                              \<lparr>ic_scalar = y, ic_sid = sid, ic_ya = ya', ic_ada = ada, ic_peerID = peerID\<rparr>)\<rparr>
                   in (Ok (Some c, ya), clearElement R g s))))"

definition initiatorCore_finish ::
  "('s, 'e) ristretto \<Rightarrow> nat \<Rightarrow> slice \<Rightarrow> slice \<Rightarrow> bytes \<Rightarrow> ('s, 'e, 'r) store
     \<Rightarrow> (slice \<times> sessionStruct) result \<times> ('s, 'e, 'r) store" where
  "initiatorCore_finish R c peerYb peerAdb peerTag s =
     (let core = icores s c in
      case sharedSecret R responderPeerShare (ic_scalar core) (rd s peerYb) s of
        (Err e, s) \<Rightarrow> (Err e, s)
      | (Panic m, s) \<Rightarrow> (Panic m, s)
      | (Ok k, s) \<Rightarrow>
          (let (tr, s) = newIRTranscript (ic_ya core) (ic_ada core) peerYb peerAdb s;
               (isk, s) = tr_deriveISK tr (ic_sid core) k s;
               (expectedB, s) = responderConfirmationTag tr isk (ic_sid core) s
           in if \<not> hmac_Equal (rd s expectedB) peerTag
              then (Err (Sentinel ErrConfirmationFailed), clearBytes k (clearBytes isk s))
              else
                (let (tagA, s) = initiatorConfirmationTag tr isk (ic_sid core) s
                 in if hmac_Equal (rd s tagA) peerTag
                    then (Err (Sentinel ErrConfirmationFailed), clearBytes k (clearBytes isk s))
                    else
                      (let (tid, s) = tr_transcriptID tr s;
                           (sess, s) = newSession isk tid peerAdb (ic_peerID core) s
                       in (Ok (tagA, sess), clearBytes k (clearBytes isk s))))))"

text \<open>\<open>newResponderCore\<close>: what follows the decoding of the peer's share, and the whole.\<close>

definition newResponderCore_accepted ::
  "('s, 'e) ristretto \<Rightarrow> normalizedInput \<Rightarrow> slice \<Rightarrow> slice \<Rightarrow> nat option \<Rightarrow> 'r reader \<Rightarrow> ('s, 'e, 'r) store
     \<Rightarrow> (nat option \<times> slice \<times> slice) result \<times> ('s, 'e, 'r) store" where
  "newResponderCore_accepted R ni peerYa peerAda peerYaElement random s =
     (case calculateGenerator R (ni_password ni) (ni_ci ni) (ni_sid ni) s of
        (Err e, s) \<Rightarrow> (Err e, s)
      | (Panic m, s) \<Rightarrow> (Panic m, s)
      | (Ok g, s) \<Rightarrow>
          (let s = clearBytes (ni_password ni) s;
               ni = ni\<lparr>ni_password := None\<rparr>
           in case sampleScalar R random s of
                (Err e, s) \<Rightarrow> (Err e, clearElement R g s)
              | (Panic m, s) \<Rightarrow> (Panic m, clearElement R g s)
              | (Ok y, s) \<Rightarrow>
                  (let (yb, s) = scalarMult R (the y) (the g) s
                   in case sharedSecretElement R initiatorPeerShare y peerYaElement s of
                        (Err e, s) \<Rightarrow> (Err e, clearElement R g (clearScalar R y s))
                      | (Panic m, s) \<Rightarrow> (Panic m, clearElement R g (clearScalar R y s))
                      | (Ok k, s) \<Rightarrow>
                          (let (tr, s) = newIRTranscript peerYa peerAda yb (ni_ad ni) s;
                               (isk, s) = tr_deriveISK tr (ni_sid ni) k s;
                               (tagB, s) = responderConfirmationTag tr isk (ni_sid ni) s;
                               (sid, s) = clone (ni_sid ni) s;
                               (peerID, s) = clone (ni_initiatorID ni) s;
                               c = brk s;
                               s = s\<lparr>brk := Suc c, rcores := (rcores s)(c :=
                                      \<lparr>rc_isk = isk, rc_transcript = tr, rc_sid = sid, rc_peerID = peerID\<rparr>)\<rparr>
                           in (Ok (Some c, yb, tagB),
                               clearElement R g (clearScalar R y (clearBytes k s)))))))"

definition newResponderCore ::
  "('s, 'e) ristretto \<Rightarrow> 'r reader \<Rightarrow> normalizedInput \<Rightarrow> slice \<Rightarrow> slice \<Rightarrow> 'r reader option \<Rightarrow> ('s, 'e, 'r) store
     \<Rightarrow> (nat option \<times> slice \<times> slice) result \<times> ('s, 'e, 'r) store" where
  "newResponderCore R rand_Reader ni peerYa peerAda random s =
     (let random = random_source rand_Reader random in
      case role_decode R initiatorPeerShare (rd s peerYa) s of
        (Err e, s) \<Rightarrow> (Err e, s)
      | (Panic m, s) \<Rightarrow> (Panic m, s)
      | (Ok peerYaElement, s) \<Rightarrow> newResponderCore_accepted R ni peerYa peerAda peerYaElement random s)"

definition responderCore_finish ::
  "nat \<Rightarrow> bytes \<Rightarrow> ('s, 'e, 'r) store \<Rightarrow> sessionStruct result \<times> ('s, 'e, 'r) store" where
  "responderCore_finish c peerTagC s =
     (let core = rcores s c;
          (expectedA, s) = initiatorConfirmationTag (rc_transcript core) (rc_isk core) (rc_sid core) s
      in if \<not> hmac_Equal (rd s expectedA) peerTagC then (Err (Sentinel ErrConfirmationFailed), s)
         else
           (let (tagB, s) = responderConfirmationTag (rc_transcript core) (rc_isk core) (rc_sid core) s
            in if hmac_Equal (rd s tagB) peerTagC then (Err (Sentinel ErrConfirmationFailed), s)
               else
                 (let (tid, s) = tr_transcriptID (rc_transcript core) s;
                      (ad, s) = initiatorAD (rc_transcript core) s;
                      (sess, s) = newSession (rc_isk core) tid ad (rc_peerID core) s
                  in (Ok sess, s))))"

definition initiatorCore_clear ::
  "('s, 'e) ristretto \<Rightarrow> nat option \<Rightarrow> ('s, 'e, 'r) store \<Rightarrow> ('s, 'e, 'r) store" where
  "initiatorCore_clear R p s =
     (case p of
        None \<Rightarrow> s
      | Some c \<Rightarrow>
          (let s = clearScalar R (ic_scalar (icores s c)) s
           in s\<lparr>icores := (icores s)(c := (icores s c)\<lparr>ic_scalar := None\<rparr>)\<rparr>))"

definition responderCore_clear :: "nat option \<Rightarrow> ('s, 'e, 'r) store \<Rightarrow> ('s, 'e, 'r) store" where
  "responderCore_clear p s =
     (case p of
        None \<Rightarrow> s
      | Some c \<Rightarrow>
          (let s = clearBytes (rc_isk (rcores s c)) s;
               s = s\<lparr>rcores := (rcores s)(c := (rcores s c)\<lparr>rc_isk := None\<rparr>)\<rparr>;
               (tr, s) = tr_clear (Some (rc_transcript (rcores s c))) s
           in s\<lparr>rcores := (rcores s)(c := (rcores s c)\<lparr>rc_transcript := the tr\<rparr>)\<rparr>))"

section \<open>Specification\<close>

text \<open>The persistent state of the two roles as values, and a core that holds it.\<close>

record 's initiator_state =
  is_scalar :: 's
  is_sid :: bytes
  is_ya :: bytes
  is_ada :: bytes
  is_peerID :: bytes

record responder_state =
  rs_isk :: bytes
  rs_sid :: bytes
  rs_ya :: bytes
  rs_ada :: bytes
  rs_yb :: bytes
  rs_adb :: bytes
  rs_peerID :: bytes

definition initiator_at :: "('s, 'e, 'r) store \<Rightarrow> nat \<Rightarrow> 's initiator_state \<Rightarrow> bool" where
  "initiator_at s c I \<longleftrightarrow> c < brk s
     \<and> (\<exists>b < brk s. ic_scalar (icores s c) = Some b \<and> scalars s b = is_scalar I)
     \<and> valid s (ic_sid (icores s c)) \<and> valid s (ic_ya (icores s c)) \<and> valid s (ic_ada (icores s c))
     \<and> valid s (ic_peerID (icores s c))
     \<and> rd s (ic_sid (icores s c)) = is_sid I \<and> rd s (ic_ya (icores s c)) = is_ya I
     \<and> rd s (ic_ada (icores s c)) = is_ada I \<and> rd s (ic_peerID (icores s c)) = is_peerID I"

definition responder_at :: "('s, 'e, 'r) store \<Rightarrow> nat \<Rightarrow> responder_state \<Rightarrow> bool" where
  "responder_at s c r \<longleftrightarrow> c < brk s
     \<and> (\<exists>b < brk s. rc_isk (rcores s c) = Some b \<and> mem s b = rs_isk r)
     \<and> transcript_at s (rc_transcript (rcores s c)) (rs_ya r) (rs_ada r) (rs_yb r) (rs_adb r)
     \<and> valid s (rc_sid (rcores s c)) \<and> valid s (rc_peerID (rcores s c))
     \<and> rd s (rc_sid (rcores s c)) = rs_sid r \<and> rd s (rc_peerID (rcores s c)) = rs_peerID r"

text \<open>The protocol on values: the generator, what each \<open>finish\<close> decides, and the responder's state.\<close>

definition generator :: "('s, 'e) ristretto \<Rightarrow> norm \<Rightarrow> 'e option" where
  "generator R v = SetUniformBytes R (Sum512 (generator_value (nv_password v) (nv_ci v) (nv_sid v)))"

definition sampled :: "('s, 'e) ristretto \<Rightarrow> 'r reader \<Rightarrow> 'r \<Rightarrow> 's result" where
  "sampled R rdr w = fst (fst (sampleScalar_loop R rdr 128 (replicate 32 0) w))"

definition initiator_outcome ::
  "'s initiator_state \<Rightarrow> bytes \<Rightarrow> bytes \<Rightarrow> bytes \<Rightarrow> bytes \<Rightarrow> (bytes \<times> confirmed) option" where
  "initiator_outcome I k yb adb tag =
     (let tr = transcript_value (is_ya I) (is_ada I) yb adb;
          isk = ISK_value (is_sid I) k tr;
          tagA = tag_value isk (is_sid I) (is_ya I) (is_ada I)
      in if tag = tag_value isk (is_sid I) yb adb \<and> tag \<noteq> tagA
         then Some (tagA, \<lparr>cf_isk = isk, cf_transcriptID = transcriptID tr, cf_peerAD = adb, cf_peerID = is_peerID I\<rparr>)
         else None)"

definition responder_outcome :: "responder_state \<Rightarrow> bytes \<Rightarrow> confirmed option" where
  "responder_outcome r tag =
     (if tag = tag_value (rs_isk r) (rs_sid r) (rs_ya r) (rs_ada r)
         \<and> tag \<noteq> tag_value (rs_isk r) (rs_sid r) (rs_yb r) (rs_adb r)
      then Some \<lparr>cf_isk = rs_isk r,
             cf_transcriptID = transcriptID (transcript_value (rs_ya r) (rs_ada r) (rs_yb r) (rs_adb r)),
             cf_peerAD = rs_ada r, cf_peerID = rs_peerID r\<rparr>
      else None)"

definition respond_state :: "norm \<Rightarrow> bytes \<Rightarrow> bytes \<Rightarrow> bytes \<Rightarrow> bytes \<Rightarrow> responder_state" where
  "respond_state v ya ada yb k =
     \<lparr>rs_isk = ISK_value (nv_sid v) k (transcript_value ya ada yb (nv_ad v)), rs_sid = nv_sid v,
      rs_ya = ya, rs_ada = ada, rs_yb = yb, rs_adb = nv_ad v, rs_peerID = nv_initiatorID v\<rparr>"

text \<open>
  What may remain in memory after a \<open>finish\<close>: wire values and hashes of them, and what the computation of the
  two tags leaves, the tags themselves and the MAC key in the HMAC objects.
\<close>

definition public_values :: "bytes \<Rightarrow> bytes \<Rightarrow> bytes \<Rightarrow> bytes \<Rightarrow> bytes set" where
  "public_values ya ada yb adb =
     {ya, ada, yb, adb, transcript_value ya ada yb adb, transcriptID (transcript_value ya ada yb adb)}"

definition finish_residue :: "bytes \<Rightarrow> bytes \<Rightarrow> bytes \<Rightarrow> bytes \<Rightarrow> bytes \<Rightarrow> bytes \<Rightarrow> bytes set" where
  "finish_residue isk sid ya ada yb adb =
     public_values ya ada yb adb \<union> tag_residue isk sid ya ada \<union> tag_residue isk sid yb adb"

lemma transcript_public:
  "transcript_at s t ya ada yb adb \<Longrightarrow> a \<in> transcript_cells t \<Longrightarrow> mem s a \<in> public_values ya ada yb adb"
  by (auto simp: transcript_at_def transcript_cells_def public_values_def)


section \<open>Contracts of the finish methods\<close>

lemma tags_contract:
  assumes "transcript_at s tr ya ada yb adb" and "valid s isk" and "valid s sid"
  shows "initiatorConfirmationTag tr isk sid s = (x, t) \<Longrightarrow>
      leaves (tag_residue (rd s isk) (rd s sid) ya ada) E {} s t \<and> (\<exists>n. x = Some n \<and> brk s \<le> n \<and> n < brk t)
      \<and> rd t x = tag_value (rd s isk) (rd s sid) ya ada"
    and "responderConfirmationTag tr isk sid s = (x, t) \<Longrightarrow>
      leaves (tag_residue (rd s isk) (rd s sid) yb adb) E {} s t \<and> (\<exists>n. x = Some n \<and> brk s \<le> n \<and> n < brk t)
      \<and> rd t x = tag_value (rd s isk) (rd s sid) yb adb"
  using assms confirmationTag_contract [of isk sid _ _ s x t]
  by (auto simp: initiatorConfirmationTag_def responderConfirmationTag_def transcript_at_def)

text \<open>Both tags, one after the other, as both \<open>finish\<close> methods compute them.\<close>

lemma both_tags:
  assumes "transcript_at s tr ya ada yb adb" and "valid s isk" and "valid s sid"
    and "finish_residue (rd s isk) (rd s sid) ya ada yb adb \<subseteq> P"
  shows "initiatorConfirmationTag tr isk sid s = (x, s1) \<Longrightarrow> responderConfirmationTag tr isk sid s1 = (y, s2) \<Longrightarrow>
      leaves P E {} s s1 \<and> leaves P E {} s s2 \<and> (\<exists>n. x = Some n \<and> brk s \<le> n \<and> n < brk s1)
      \<and> rd s1 x = tag_value (rd s isk) (rd s sid) ya ada \<and> rd s2 y = tag_value (rd s isk) (rd s sid) yb adb"
    and "responderConfirmationTag tr isk sid s = (y, s1) \<Longrightarrow> initiatorConfirmationTag tr isk sid s1 = (x, s2) \<Longrightarrow>
      leaves P E {} s s1 \<and> leaves P E {} s s2 \<and> (\<exists>n. x = Some n \<and> brk s \<le> n \<and> n < brk s2)
      \<and> rd s1 y = tag_value (rd s isk) (rd s sid) yb adb \<and> rd s2 x = tag_value (rd s isk) (rd s sid) ya ada"
proof -
  have P: "tag_residue (rd s isk) (rd s sid) ya ada \<subseteq> P" "tag_residue (rd s isk) (rd s sid) yb adb \<subseteq> P"
    using assms(4) by (simp_all add: finish_residue_def)
  note first = tags_contract [OF assms(1-3), where E = E]
  {
    assume A: "initiatorConfirmationTag tr isk sid s = (x, s1)" and B: "responderConfirmationTag tr isk sid s1 = (y, s2)"
    have 1: "leaves P E {} s s1" using first(1) [OF A] leaves_mono [OF _ P(1)] by blast
    note second = tags_contract(2) [OF transcript_at_leaves [OF assms(1) 1] leaves_valid [OF 1 assms(2)]
        leaves_valid [OF 1 assms(3)] B, where E = E, unfolded leaves_rd [OF 1 assms(2)] leaves_rd [OF 1 assms(3)]]
    have 2: "leaves P E {} s1 s2" using second leaves_mono [OF _ P(2)] by blast
    show "leaves P E {} s s1 \<and> leaves P E {} s s2 \<and> (\<exists>n. x = Some n \<and> brk s \<le> n \<and> n < brk s1)
      \<and> rd s1 x = tag_value (rd s isk) (rd s sid) ya ada \<and> rd s2 y = tag_value (rd s isk) (rd s sid) yb adb"
      using 1 first(1) [OF A] second leaves_trans [OF 1 2] by simp
  }
  {
    assume B: "responderConfirmationTag tr isk sid s = (y, s1)" and A: "initiatorConfirmationTag tr isk sid s1 = (x, s2)"
    have 1: "leaves P E {} s s1" using first(2) [OF B] leaves_mono [OF _ P(2)] by blast
    note second = tags_contract(1) [OF transcript_at_leaves [OF assms(1) 1] leaves_valid [OF 1 assms(2)]
        leaves_valid [OF 1 assms(3)] A, where E = E, unfolded leaves_rd [OF 1 assms(2)] leaves_rd [OF 1 assms(3)]]
    have 2: "leaves P E {} s1 s2" using second leaves_mono [OF _ P(1)] by blast
    have "\<exists>n. x = Some n \<and> brk s \<le> n \<and> n < brk s2" using second leaves_brk [OF 1] by auto
    then show "leaves P E {} s s1 \<and> leaves P E {} s s2 \<and> (\<exists>n. x = Some n \<and> brk s \<le> n \<and> n < brk s2)
      \<and> rd s1 y = tag_value (rd s isk) (rd s sid) yb adb \<and> rd s2 x = tag_value (rd s isk) (rd s sid) ya ada"
      using 1 first(2) [OF B] second leaves_trans [OF 1 2] by simp
  }
qed

text \<open>The session that a \<open>finish\<close> releases; \<open>p\<close> is the peer's associated data, the caller's slice or a copy.\<close>

lemma release_contract:
  assumes "tr_transcriptID tr s = (tid, s1)" and "newSession isk tid ad peer s1 = (S, t)"
    and "valid s (tr_transcript tr)" "valid s isk" "valid s ad" "valid s peer" and "isk \<noteq> None"
  shows "session_at t S \<lparr>cf_isk = rd s isk, cf_transcriptID = transcriptID (rd s (tr_transcript tr)),
      cf_peerAD = rd s ad, cf_peerID = rd s peer\<rparr>"
    and "\<forall>a \<in> session_owned t S. brk s \<le> a"
    and "transcriptID (rd s (tr_transcript tr)) \<in> P \<Longrightarrow> leaves P E (session_cells t S) s t"
proof -
  have 1: "tid = Some (brk s)" "allocates {brk s} s s1" "mem s1 (brk s) = transcriptID (rd s (tr_transcript tr))"
      "brk s < brk s1"
    using allocates_alloc [OF assms(1) [unfolded tr_transcriptID_def]] by simp_all
  have "valid s1 tid" using 1 by simp
  note S = newSession_contract [OF assms(2) allocates_valid [OF 1(2) assms(4)] this
      allocates_valid [OF 1(2) assms(5)] allocates_valid [OF 1(2) assms(6)] assms(7)]
  show "session_at t S \<lparr>cf_isk = rd s isk, cf_transcriptID = transcriptID (rd s (tr_transcript tr)),
      cf_peerAD = rd s ad, cf_peerID = rd s peer\<rparr>"
    using S(2) 1 assms by (simp add: allocates_rd)
  show "\<forall>a \<in> session_owned t S. brk s \<le> a" using S(3) 1(4) by auto
  have "mem t (brk s) = transcriptID (rd s (tr_transcript tr))" "brk s < brk t"
    using allocates_rd [OF S(1), of "Some (brk s)"] 1 allocates_brk [OF S(1)] by simp_all
  then show "leaves P E (session_cells t S) s t" if "transcriptID (rd s (tr_transcript tr)) \<in> P"
    using leaves_forget [OF allocates_leaves [OF allocates_trans [OF 1(2) S(1)]]] that by simp
qed

lemma responderCore_finish_contract:
  assumes "responder_at s c r" and "responderCore_finish c tag s = (res, t)"
    and "P = finish_residue (rs_isk r) (rs_sid r) (rs_ya r) (rs_ada r) (rs_yb r) (rs_adb r)"
  shows "case responder_outcome r tag of
      None \<Rightarrow> res = Err (Sentinel ErrConfirmationFailed) \<and> leaves P E {} s t
    | Some cf \<Rightarrow> \<exists>S. res = Ok S \<and> session_at t S cf \<and> leaves P E (session_cells t S) s t
        \<and> (\<forall>a \<in> session_owned t S. brk s \<le> a)"
proof -
  let ?c = "rcores s c" and ?tr = "rc_transcript (rcores s c)"
  obtain b where b: "b < brk s" "rc_isk ?c = Some b" "mem s b = rs_isk r"
    using assms(1) by (auto simp: responder_at_def)
  have tr: "transcript_at s ?tr (rs_ya r) (rs_ada r) (rs_yb r) (rs_adb r)"
    and sid: "valid s (rc_sid ?c)" "rd s (rc_sid ?c) = rs_sid r"
    and peer: "valid s (rc_peerID ?c)" "rd s (rc_peerID ?c) = rs_peerID r"
    using assms(1) by (auto simp: responder_at_def)
  have v: "valid s (rc_isk ?c)" "rd s (rc_isk ?c) = rs_isk r" using b by simp_all
  obtain tagA s1 where A: "initiatorConfirmationTag ?tr (rc_isk ?c) (rc_sid ?c) s = (tagA, s1)" by fastforce
  obtain tagB s2 where B: "responderConfirmationTag ?tr (rc_isk ?c) (rc_sid ?c) s1 = (tagB, s2)" by fastforce
  obtain tid s3 where T: "tr_transcriptID ?tr s2 = (tid, s3)" by fastforce
  obtain ad s4 where D: "initiatorAD ?tr s3 = (ad, s4)" by fastforce
  obtain S s5 where N: "newSession (rc_isk ?c) tid ad (rc_peerID ?c) s4 = (S, s5)" by fastforce
  have tags: "leaves P E {} s s1" "leaves P E {} s s2" "rd s1 tagA = tag_value (rs_isk r) (rs_sid r) (rs_ya r) (rs_ada r)"
      "rd s2 tagB = tag_value (rs_isk r) (rs_sid r) (rs_yb r) (rs_adb r)"
    using both_tags(1) [OF tr v(1) sid(1) _ A B, of P E] by (simp_all add: v sid assms(3))
  note tr2 = transcript_at_leaves [OF tr tags(2)]
  let ?id = "transcriptID (transcript_value (rs_ya r) (rs_ada r) (rs_yb r) (rs_adb r))"
  have 3: "tid = Some (brk s2)" "allocates {brk s2} s2 s3" "mem s3 (brk s2) = ?id" "brk s2 < brk s3"
    using allocates_alloc [OF T [unfolded tr_transcriptID_def]] tr2 by (auto simp: transcript_at_def)
  note tr3 = transcript_at_leaves [OF tr2 allocates_leaves [OF 3(2)]]
  have 4: "allocates (cells [ad]) s3 s4" "rd s4 ad = rs_ada r" "valid s4 ad"
    using allocates_clone [OF D [unfolded initiatorAD_def]] tr3 by (auto simp: transcript_at_def)
  have 24: "allocates ({brk s2} \<union> cells [ad]) s2 s4" by (rule allocates_trans [OF 3(2) 4(1)])
  have tid4: "valid s4 tid" "rd s4 tid = ?id"
    using 3 allocates_valid [OF 4(1), of tid] allocates_rd [OF 4(1), of tid] by simp_all
  have old: "valid s4 sl \<and> rd s4 sl = rd s sl" if "valid s sl" for sl
    using that by (simp add: allocates_valid [OF 24] allocates_rd [OF 24] leaves_valid [OF tags(2)] leaves_rd [OF tags(2)])
  note 5 = newSession_contract [OF N _ tid4(1) 4(3)]
  have S: "allocates (session_cells s5 S) s4 s5" "\<forall>a \<in> session_owned s5 S. brk s4 \<le> a"
    "session_at s5 S \<lparr>cf_isk = rs_isk r, cf_transcriptID = ?id, cf_peerAD = rs_ada r, cf_peerID = rs_peerID r\<rparr>"
    using 5 b old [OF v(1)] old [OF peer(1)] peer(2) v(2) tid4(2) 4(2) by auto
  have kept: "\<forall>a \<in> {brk s2} \<union> cells [ad]. a < brk s5 \<and> mem s5 a \<in> P"
    using 3(1) tid4 4(2,3) allocates_rd [OF S(1), of tid] allocates_rd [OF S(1), of ad] allocates_brk [OF S(1)]
    by (auto simp: cells_def assms(3) finish_residue_def public_values_def)
  have 25: "leaves P E (session_cells s5 S) s2 s5"
    by (rule leaves_forget [OF allocates_leaves [OF allocates_trans [OF 24 S(1)]]]) (use kept in auto)
  have fin: "responderCore_finish c tag s =
      (if rd s1 tagA \<noteq> tag then (Err (Sentinel ErrConfirmationFailed), s1)
       else if rd s2 tagB = tag then (Err (Sentinel ErrConfirmationFailed), s2) else (Ok S, s5))"
    by (simp add: responderCore_finish_def A B T D N Let_def hmac_Equal_def)
  have old: "\<forall>a \<in> session_owned s5 S. brk s \<le> a"
    using S(2) allocates_brk [OF 24] leaves_brk [OF tags(2)] by (auto dest: bspec)
  show ?thesis
  proof (cases "responder_outcome r tag")
    case None
    then have "rd s1 tagA \<noteq> tag \<or> rd s2 tagB = tag" using tags(3,4) by (auto simp: responder_outcome_def split: if_splits)
    then show ?thesis using None assms(2) fin tags(1,2) by (auto split: if_splits)
  next
    case (Some cf)
    then have "rd s1 tagA = tag" "rd s2 tagB \<noteq> tag" and cf: "cf = \<lparr>cf_isk = rs_isk r, cf_transcriptID = ?id,
        cf_peerAD = rs_ada r, cf_peerID = rs_peerID r\<rparr>"
      using tags(3,4) by (auto simp: responder_outcome_def split: if_splits)
    then have "res = Ok S" "t = s5" using assms(2) fin by simp_all
    then show ?thesis unfolding Some option.case using S(3) old cf leaves_trans [OF tags(2) 25] by simp
  qed
qed

text \<open>
  The last part of \<open>initiatorCore.finish\<close>, from the key in cell \<open>a\<close> on; \<open>exit\<close> is what is deferred.
\<close>

lemma initiator_confirm:
  assumes tr: "transcript_at s tr ya ada yb adb" and a: "a < brk s"
    and v: "valid s sid" "valid s peer" "valid s ad"
    and call: "(let (expectedB, s) = responderConfirmationTag tr (Some a) sid s
           in if \<not> hmac_Equal (rd s expectedB) tag then (Err (Sentinel ErrConfirmationFailed), exit s)
              else (let (tagA, s) = initiatorConfirmationTag tr (Some a) sid s
                    in if hmac_Equal (rd s tagA) tag then (Err (Sentinel ErrConfirmationFailed), exit s)
                       else (let (tid, s) = tr_transcriptID tr s;
                                 (sess, s) = newSession (Some a) tid ad peer s
                             in (Ok (tagA, sess), exit s)))) = (res, t)"
    and P: "P = finish_residue (mem s a) (rd s sid) ya ada yb adb"
    and tags: "tb = tag_value (mem s a) (rd s sid) yb adb" "ta = tag_value (mem s a) (rd s sid) ya ada"
  shows "if tag = tb \<and> tag \<noteq> ta
    then \<exists>S u n. res = Ok (Some n, S) \<and> t = exit u \<and> brk s \<le> n \<and> n < brk u \<and> mem u n = ta
       \<and> session_at u S \<lparr>cf_isk = mem s a, cf_transcriptID = transcriptID (transcript_value ya ada yb adb),
           cf_peerAD = rd s ad, cf_peerID = rd s peer\<rparr>
       \<and> leaves P E (session_cells u S) s u \<and> (\<forall>y \<in> session_owned u S. brk s \<le> y \<and> y \<noteq> n)
    else res = Err (Sentinel ErrConfirmationFailed) \<and> (\<exists>u. t = exit u \<and> leaves P E {} s u)"
proof -
  have isk: "valid s (Some a)" using a by simp
  obtain tb' s1 where B: "responderConfirmationTag tr (Some a) sid s = (tb', s1)" by fastforce
  obtain ta' s2 where A: "initiatorConfirmationTag tr (Some a) sid s1 = (ta', s2)" by fastforce
  obtain n where both: "leaves P E {} s s1" "leaves P E {} s s2" "ta' = Some n" "brk s \<le> n" "n < brk s2" "rd s1 tb' = tb" "mem s2 n = ta"
    using both_tags(2) [OF tr isk v(1) _ B A, of P E] by (auto simp: P tags)
  note tr2 = transcript_at_leaves [OF tr both(2)]
  obtain tid s3 where I: "tr_transcriptID tr s2 = (tid, s3)" by fastforce
  obtain S s4 where N: "newSession (Some a) tid ad peer s3 = (S, s4)" by fastforce
  have tt: "valid s2 (tr_transcript tr)" "rd s2 (tr_transcript tr) = transcript_value ya ada yb adb"
    using tr2 by (simp_all add: transcript_at_def)
  note S = release_contract [OF I N tt(1) leaves_valid [OF both(2) isk] leaves_valid [OF both(2) v(3)]
      leaves_valid [OF both(2) v(2)] option.distinct(2), unfolded tt(2) leaves_rd [OF both(2) v(3)] leaves_rd [OF both(2) v(2)]
      leaves_rd [OF both(2) isk]]
  have fin: "(res, t) = (if tb \<noteq> tag then (Err (Sentinel ErrConfirmationFailed), exit s1)
      else if ta = tag then (Err (Sentinel ErrConfirmationFailed), exit s2) else (Ok (Some n, S), exit s4))"
    using call both(3,6,7) by (cases "tb = tag"; cases "ta = tag"; simp add: A B I N Let_def hmac_Equal_def)
  have 4: "leaves P E (session_cells s4 S) s2 s4" by (rule S(3)) (simp add: P finish_residue_def public_values_def)
  moreover have "mem s4 n = ta" using leaves_rd [OF 4, of "Some n"] both(5,7) by simp
  moreover have "\<forall>y \<in> session_owned s4 S. brk s \<le> y \<and> y \<noteq> n" "n < brk s4"
    using S(2) both(5) leaves_brk [OF both(2)] leaves_brk [OF 4] by (auto dest: bspec)
  ultimately show ?thesis
    using fin both(1,2,4) S(1) leaves_trans [OF both(2) 4] by (auto split: if_splits)
qed

text \<open>The derivation of the key from the verified secret and the transcript, the same in both roles.\<close>

lemma session_key:
  assumes "valid s ya" "valid s ada" "valid s yb" "valid s adb" "valid s sid"
    and "v = Element_ScalarMult R (scalars s b) (elements s e)" and "v \<in> E"
    and "K = Element_Bytes R v" and "K \<noteq> replicate 32 0"
    and "sharedSecretElement R r (Some b) (Some e) s = (k, s1)"
    and "newIRTranscript ya ada yb adb s1 = (tr, s2)"
    and "tr_deriveISK tr sid (Some (Suc (brk s))) s2 = (isk, s3)"
  shows "k = Ok (Some (Suc (brk s))) \<and> elements s3 (brk s) = v \<and> (\<exists>a. isk = Some a \<and> Suc (brk s) < a \<and> a < brk s3
     \<and> mem s3 a = ISK_value (rd s sid) K (transcript_value (rd s ya) (rd s ada) (rd s yb) (rd s adb))
     \<and> transcript_at s3 tr (rd s ya) (rd s ada) (rd s yb) (rd s adb)
     \<and> leaves A E ({Suc (brk s)} \<union> transcript_cells tr \<union> {a}) s s3
     \<and> a \<notin> transcript_cells tr \<and> (\<forall>x \<in> transcript_cells tr. Suc (brk s) < x))"
proof -
  have k: "k = Ok (Some (Suc (brk s)))" "brk s1 = Suc (Suc (brk s))" "leaves A E {Suc (brk s)} s s1" "mem s1 (Suc (brk s)) = K"
      "elements s1 (brk s) = v"
    using sharedSecretElement_contract [OF assms(10,6,7), of A] assms(8,9) by (auto split: go.splits)
  have tr: "allocates (transcript_cells tr) s1 s2"
      "transcript_at s2 tr (rd s ya) (rd s ada) (rd s yb) (rd s adb)" "\<forall>x \<in> transcript_cells tr. brk s1 \<le> x"
    using newIRTranscript_contract [OF assms(11)] assms(1-4)
    by (simp_all add: leaves_rd [OF k(3)] leaves_valid [OF k(3)])
  have 2: "leaves A E ({Suc (brk s)} \<union> transcript_cells tr) s s2"
    by (rule leaves_trans [OF k(3) allocates_leaves [OF tr(1)]])
  have "valid s2 (Some (Suc (brk s)))" "rd s2 (Some (Suc (brk s))) = K"
    using k(2,4) allocates_valid [OF tr(1), of "Some (Suc (brk s))"] allocates_rd [OF tr(1), of "Some (Suc (brk s))"]
    by simp_all
  then obtain a where a: "isk = Some a" "brk s2 \<le> a" "a < brk s3" "allocates {a} s2 s3"
      "mem s3 a = ISK_value (rd s sid) K (transcript_value (rd s ya) (rd s ada) (rd s yb) (rd s adb))"
    using deriveISK_contract [OF assms(12) [unfolded tr_deriveISK_def]] tr(2) leaves_valid [OF 2] leaves_rd [OF 2]
      assms(5) by (auto simp: transcript_at_def)
  have 3: "leaves A E ({Suc (brk s)} \<union> transcript_cells tr \<union> {a}) s s3"
    by (rule leaves_trans [OF 2 allocates_leaves [OF a(4)]])
  have "elements s3 (brk s) = v" using k(5) tr(1) a(4) by (simp add: allocates_def)
  moreover have "a \<notin> transcript_cells tr" using transcript_cells_lt [OF tr(2)] a(2) by fastforce
  moreover have "\<forall>x \<in> transcript_cells tr. Suc (brk s) < x" "Suc (brk s) < a"
    using tr(3) k(2) a(2) allocates_brk [OF tr(1)] by (auto dest: bspec)
  moreover have "transcript_at s3 tr (rd s ya) (rd s ada) (rd s yb) (rd s adb)"
    by (rule transcript_at_leaves [OF tr(2) allocates_leaves [OF a(4)]])
  ultimately show ?thesis using k(1) a(1,3,5) 3 by (intro conjI exI [of _ a]) simp_all
qed

text \<open>
  From the session key to the end: both tags, and the session on a match. The two deferred clears come last;
  \<open>k\<close> is the cell of the shared secret.
\<close>

lemma initiator_tail:
  fixes s :: "('s, 'e, 'r) store"
  assumes isk: "mem s3 a = ISK_value (is_sid I) K (transcript_value (is_ya I) (is_ada I) ybv adbv)"
    and tr: "transcript_at s3 tr (is_ya I) (is_ada I) ybv adbv" and a: "brk s \<le> k" "k < a" "a < brk s3"
    and 3: "leaves P E ({k} \<union> transcript_cells tr \<union> {a}) s s3"
    and sep: "a \<notin> transcript_cells tr" "\<forall>x \<in> transcript_cells tr. k < x"
    and v3: "valid s3 sid" "valid s3 peer" "valid s3 adb" "rd s3 sid = is_sid I" "rd s3 peer = is_peerID I" "rd s3 adb = adbv"
    and exit_def: "exit = (\<lambda>u. clearBytes (Some k) (clearBytes (Some a) u))"
    and tail: "(let (expectedB, s) = responderConfirmationTag tr (Some a) sid s3
           in if \<not> hmac_Equal (rd s expectedB) tag then (Err (Sentinel ErrConfirmationFailed), exit s)
              else (let (tagA, s) = initiatorConfirmationTag tr (Some a) sid s
                    in if hmac_Equal (rd s tagA) tag then (Err (Sentinel ErrConfirmationFailed), exit s)
                       else (let (tid, s) = tr_transcriptID tr s;
                                 (sess, s) = newSession (Some a) tid adb peer s
                             in (Ok (tagA, sess), exit s)))) = (res, t)"
    and P: "P = finish_residue (ISK_value (is_sid I) K (transcript_value (is_ya I) (is_ada I) ybv adbv)) (is_sid I)
        (is_ya I) (is_ada I) ybv adbv"
  shows "case initiator_outcome I K ybv adbv tag of
          None \<Rightarrow> res = Err (Sentinel ErrConfirmationFailed) \<and> leaves P E {} s t
        | Some (tagA, cf) \<Rightarrow> \<exists>S n. res = Ok (Some n, S) \<and> n < brk t \<and> mem t n = tagA \<and> session_at t S cf
            \<and> leaves P E (session_cells t S) s t \<and> (\<forall>a \<in> session_owned t S. brk s \<le> a)"
proof -
  have exit: "leaves P E W s (exit u)" if u: "leaves P E W s3 u" for u W
  proof -
    have "leaves P E (transcript_cells tr \<union> ({k} \<union> {a} \<union> W)) s u"
      using leaves_trans [OF 3 u] by (rule leaves_mono) auto
    then have "leaves P E (transcript_cells tr \<union> W) s (exit u)"
      unfolding exit_def using a by (intro leaves_clear2) auto
    moreover have "x < brk (exit u) \<and> mem (exit u) x \<in> P" if "x \<in> transcript_cells tr" for x
      using transcript_public [OF transcript_at_leaves [OF tr u] that] sep that
        transcript_cells_lt [OF transcript_at_leaves [OF tr u] that]
      by (auto simp: exit_def mem_clearBytes P finish_residue_def)
    ultimately show ?thesis using leaves_forget [of P E "transcript_cells tr" W s "exit u"] by blast
  qed
  note fin = initiator_confirm [OF tr a(3) v3(1-3) tail refl refl refl, unfolded v3 isk P [symmetric], where E = E]
  show ?thesis
  proof (cases "initiator_outcome I K ybv adbv tag")
    case None
    then obtain u where "res = Err (Sentinel ErrConfirmationFailed)" "t = exit u" "leaves P E {} s3 u"
      using fin by (auto simp: initiator_outcome_def Let_def split: if_splits)
    then show ?thesis using None exit by simp
  next
    case out: (Some x)
    then obtain S u n where res: "res = Ok (Some n, S)" "t = exit u" "brk s3 \<le> n" "n < brk u" "mem u n = fst x"
      and u: "session_at u S (snd x)" "leaves P E (session_cells u S) s3 u" "\<forall>z \<in> session_owned u S. brk s3 \<le> z"
      using fin by (auto simp: initiator_outcome_def Let_def split: if_splits)
    have "session_at (exit u) S (snd x)"
      using u(1,3) a by (auto simp: exit_def intro!: session_at_clear dest: bspec)
    moreover have "leaves P E (session_cells (exit u) S) s (exit u)" using exit [OF u(2)] by (simp add: exit_def)
    moreover have "\<forall>z \<in> session_owned (exit u) S. brk s \<le> z"
      using u(3) leaves_brk [OF 3] by (auto simp: exit_def dest: bspec)
    moreover have "mem (exit u) n = fst x" "n < brk (exit u)" using res(3-5) a by (simp_all add: exit_def mem_clearBytes)
    ultimately show ?thesis using res(1,2) out by (cases x) (auto intro!: exI [of _ S])
  qed
qed

text \<open>The group elements that a \<open>finish\<close> of the initiator leaves: the decoded share and the shared secret.\<close>

definition shared_elements :: "('s, 'e) ristretto \<Rightarrow> 's \<Rightarrow> bytes \<Rightarrow> 'e set" where
  "shared_elements R y b = decoded_elements R b \<union> Element_ScalarMult R y ` set_option (share R b)"

lemma initiatorCore_finish_contract:
  fixes s :: "('s, 'e, 'r) store"
  assumes "initiator_at s c I" and "valid s yb" and "valid s adb"
    and "initiatorCore_finish R c yb adb tag s = (res, t)"
    and "E = shared_elements R (is_scalar I) (rd s yb)"
  shows "case decoded_share R responderPeerShare (rd s yb) of
      Err e \<Rightarrow> res = Err e \<and> leaves {} E {} s t
    | Panic m \<Rightarrow> False
    | Ok p \<Rightarrow>
        let K = scalarMult_bytes R (is_scalar I) p;
            P = finish_residue (ISK_value (is_sid I) K (transcript_value (is_ya I) (is_ada I) (rd s yb) (rd s adb)))
                  (is_sid I) (is_ya I) (is_ada I) (rd s yb) (rd s adb)
        in if K = replicate 32 0
        then res = Err (errorf ErrAbort ''neutral-element shared secret'') \<and> leaves {} E {} s t
        else case initiator_outcome I K (rd s yb) (rd s adb) tag of
          None \<Rightarrow> res = Err (Sentinel ErrConfirmationFailed) \<and> leaves P E {} s t
        | Some (tagA, cf) \<Rightarrow> \<exists>S n. res = Ok (Some n, S) \<and> n < brk t \<and> mem t n = tagA \<and> session_at t S cf
            \<and> leaves P E (session_cells t S) s t \<and> (\<forall>a \<in> session_owned t S. brk s \<le> a)"
proof -
  obtain q s0 where D: "role_decode R responderPeerShare (rd s yb) s = (q, s0)" by fastforce
  have E: "decoded_elements R (rd s yb) \<subseteq> E" by (simp add: assms(5) shared_elements_def)
  note dec = role_decode_contract [OF D E]
  show ?thesis
  proof (cases "decoded_share R responderPeerShare (rd s yb)")
    case (Err e)
    then have q: "q = Err e" using dec(2) by simp
    have "res = Err e" "t = s0" using assms(4) by (simp_all add: initiatorCore_finish_def sharedSecret_decode D q Let_def)
    then show ?thesis using Err dec(1) by simp
  next
    case (Panic m)
    then show ?thesis by (simp add: decoded_share_total)
  next
    case ok: (Ok p)
    then have q: "q = Ok (Some (brk s))" "brk s0 = Suc (brk s)" "elements s0 (brk s) = p" using dec(2) by simp_all
    let ?c = "icores s c" and ?k = "scalarMult_bytes R (is_scalar I) p" and ?v = "Element_ScalarMult R (is_scalar I) p"
    obtain b where b: "ic_scalar ?c = Some b" "scalars s b = is_scalar I" using assms(1) by (auto simp: initiator_at_def)
    have sc: "scalars s0 b = is_scalar I" using b(2) leaves_same [OF dec(1)] by simp
    have v: "?v \<in> E"
      using ok by (simp add: assms(5) shared_elements_def decoded_share_Ok_iff)
    obtain rk s1 where KE: "sharedSecretElement R responderPeerShare (Some b) (Some (brk s)) s0 = (rk, s1)" by fastforce
    then have K: "sharedSecret R responderPeerShare (ic_scalar ?c) (rd s yb) s = (rk, s1)"
      using b by (simp add: sharedSecret_decode D q(1))
    have v_eq: "?v = Element_ScalarMult R (scalars s0 b) (elements s0 (brk s))" by (simp add: sc q(3))
    show ?thesis
    proof (cases "?k = replicate 32 0")
      case True
      then have rk: "rk = Err (errorf ErrAbort ''neutral-element shared secret'')" "leaves {} E {} s0 s1"
        using sharedSecretElement_contract [OF KE v_eq v, of "{}"] by (auto simp: scalarMult_bytes_def split: go.splits)
      then have "res = Err (errorf ErrAbort ''neutral-element shared secret'')" "t = s1"
        using assms(4) K by (simp_all add: initiatorCore_finish_def Let_def)
      then show ?thesis using ok True leaves_trans [OF dec(1) rk(2)] by simp
    next
      case False
      let ?P = "finish_residue (ISK_value (is_sid I) ?k (transcript_value (is_ya I) (is_ada I) (rd s yb) (rd s adb)))
          (is_sid I) (is_ya I) (is_ada I) (rd s yb) (rd s adb)"
      have old: "valid s0 sl \<and> rd s0 sl = rd s sl" if "valid s sl" for sl
        using that leaves_valid [OF dec(1)] leaves_rd [OF dec(1)] by simp
      have vs: "valid s0 (ic_ya ?c)" "valid s0 (ic_ada ?c)" "valid s0 (ic_sid ?c)" "valid s0 (ic_peerID ?c)"
          "valid s0 yb" "valid s0 adb"
          "rd s0 (ic_sid ?c) = is_sid I" "rd s0 (ic_ya ?c) = is_ya I" "rd s0 (ic_ada ?c) = is_ada I"
          "rd s0 (ic_peerID ?c) = is_peerID I" "rd s0 yb = rd s yb" "rd s0 adb = rd s adb"
        using assms(1-3) old by (simp_all add: initiator_at_def)
      let ?kc = "Suc (brk s0)"
      obtain tr s2 where T: "newIRTranscript (ic_ya ?c) (ic_ada ?c) yb adb s1 = (tr, s2)" by fastforce
      obtain isk s3 where DI: "tr_deriveISK tr (ic_sid ?c) (Some ?kc) s2 = (isk, s3)" by fastforce
      obtain a where k: "rk = Ok (Some ?kc)" and a: "isk = Some a" "?kc < a" "a < brk s3"
        and isk: "mem s3 a = ISK_value (is_sid I) ?k (transcript_value (is_ya I) (is_ada I) (rd s yb) (rd s adb))"
        and tr: "transcript_at s3 tr (is_ya I) (is_ada I) (rd s yb) (rd s adb)"
        and 3: "leaves ?P E ({?kc} \<union> transcript_cells tr \<union> {a}) s0 s3"
        and sep: "a \<notin> transcript_cells tr" "\<forall>x \<in> transcript_cells tr. ?kc < x"
        using session_key [OF vs(1,2,5,6,3) v_eq v scalarMult_bytes_def False KE T DI, of ?P] vs by auto
      define exit :: "('s, 'e, 'r) store \<Rightarrow> ('s, 'e, 'r) store"
        where "exit = (\<lambda>u. clearBytes (Some ?kc) (clearBytes (Some a) u))"
      have v3: "valid s3 (ic_sid ?c)" "valid s3 (ic_peerID ?c)" "valid s3 adb"
        "rd s3 (ic_sid ?c) = is_sid I" "rd s3 (ic_peerID ?c) = is_peerID I" "rd s3 adb = rd s adb"
        using vs by (simp_all add: leaves_valid [OF 3] leaves_rd [OF 3])
      have "leaves ?P E {} s s0" by (rule dec(1))
      from leaves_trans [OF this 3] have 3: "leaves ?P E ({?kc} \<union> transcript_cells tr \<union> {a}) s s3" by simp
      have kc: "brk s \<le> ?kc" using q(2) by simp
      have "(let (expectedB, s) = responderConfirmationTag tr (Some a) (ic_sid ?c) s3
           in if \<not> hmac_Equal (rd s expectedB) tag then (Err (Sentinel ErrConfirmationFailed), exit s)
              else (let (tagA, s) = initiatorConfirmationTag tr (Some a) (ic_sid ?c) s
                    in if hmac_Equal (rd s tagA) tag then (Err (Sentinel ErrConfirmationFailed), exit s)
                       else (let (tid, s) = tr_transcriptID tr s;
                                 (sess, s) = newSession (Some a) tid adb (ic_peerID ?c) s
                             in (Ok (tagA, sess), exit s)))) = (res, t)"
        using assms(4) by (simp only: initiatorCore_finish_def Let_def K k prod.case go.case T DI a(1) exit_def)
      from initiator_tail [OF isk tr kc a(2,3) 3 sep v3 exit_def this refl] show ?thesis using ok False by (simp add: Let_def)
    qed
  qed
qed

section \<open>Contracts of the constructors\<close>

text \<open>The cells that a core owns.\<close>

definition icore_cells :: "initiatorCore \<Rightarrow> nat set" where
  "icore_cells k = cells [ic_sid k, ic_ya k, ic_ada k, ic_peerID k]"

definition icore_owned :: "initiatorCore \<Rightarrow> nat set" where
  "icore_owned k = set_option (ic_scalar k) \<union> icore_cells k"

definition rcore_cells :: "responderCore \<Rightarrow> nat set" where
  "rcore_cells k = cells [rc_isk k, rc_sid k, rc_peerID k] \<union> transcript_cells (rc_transcript k)"

definition valid_norm :: "('s, 'e, 'r) store \<Rightarrow> normalizedInput \<Rightarrow> bool" where
  "valid_norm s ni \<longleftrightarrow> valid s (ni_password ni) \<and> valid s (ni_initiatorID ni) \<and> valid s (ni_responderID ni)
     \<and> valid s (ni_ci ni) \<and> valid s (ni_sid ni) \<and> valid s (ni_ad ni)
     \<and> ni_password ni \<notin> {ni_initiatorID ni, ni_responderID ni, ni_sid ni, ni_ad ni}"

text \<open>
  The common start of both constructors: generator, early wipe of the password, scalar.
  \<open>erases pw s t\<close> collects what holds at each of their exits.
\<close>

definition erases :: "slice \<Rightarrow> ('s, 'e, 'r) store \<Rightarrow> ('s, 'e, 'r) store \<Rightarrow> bool" where
  "erases pw s t \<longleftrightarrow> keeps (cells [pw]) s t \<and> (\<forall>a. pw = Some a \<longrightarrow> mem t a = zeros (mem s a)) \<and> frame s t"

lemma erases_rd: "erases pw s t \<Longrightarrow> valid s sl \<Longrightarrow> pw \<noteq> sl \<Longrightarrow> rd t sl = rd s sl \<and> valid t sl"
  by (cases sl) (auto simp: erases_def keeps_def cells_def)

lemma erases_leaves:
  assumes "erases pw s t" and "leaves A E W t u" and "valid s pw"
  shows "erases pw s u"
proof -
  have b: "brk s \<le> brk t" using assms(1) by (simp add: erases_def keeps_def)
  have "keeps (cells [pw]) s u"
    using assms b by (auto simp: erases_def leaves_def keeps_def)
  moreover have "mem u a = zeros (mem s a)" if "pw = Some a" for a
  proof -
    have "a < brk t" using assms(3) that b by simp
    then show ?thesis using assms(1,2) that by (simp add: erases_def leaves_def keeps_def)
  qed
  moreover have "frame s u"
    using assms(1) leaves_frame [OF assms(2)] b frame_trans by (auto simp: erases_def)
  ultimately show ?thesis by (simp add: erases_def)
qed

lemma erases_scrubs:
  assumes "erases pw t u" and "scrubs A s t" and "scrubs B t u" and "brk s \<le> brk t" and "valid t pw"
  shows "scrubs (A \<union> B) s u"
  unfolding scrubs_def
proof (intro allI impI)
  fix a assume a: "brk s \<le> a" "a \<notin> A \<union> B"
  then have st: "mem t a = mem s a \<or> zeros (mem t a) = mem t a" using assms(2) by (simp add: scrubs_def)
  show "mem u a = mem s a \<or> zeros (mem u a) = mem u a"
  proof (cases "a < brk t \<and> pw \<noteq> Some a")
    case True
    then have "mem u a = mem t a" using assms(1) by (auto simp: erases_def keeps_def cells_def)
    then show ?thesis using st by simp
  next
    case False
    then have "pw = Some a \<or> brk t \<le> a" by auto
    then show ?thesis using assms(1,3) a st by (auto simp: erases_def scrubs_def)
  qed
qed

lemma derive_sample:
  assumes "uniform_law R" and "valid_norm s ni"
    and "calculateGenerator R (ni_password ni) (ni_ci ni) (ni_sid ni) s = (rg, s1)"
    and "sampleScalar R rdr (clearBytes (ni_password ni) s1) = (ry, s2)"
  shows "\<exists>g e. rg = Ok (Some e) \<and> generator R (norm_of (mem s) ni) = Some g \<and> brk s \<le> e \<and> e < brk s2
     \<and> elements s2 = (elements s)(e := g) \<and> erases (ni_password ni) s s2 \<and> scrubs {} s s2
     \<and> icores s2 = icores s \<and> rcores s2 = rcores s \<and> ustates s2 = ustates s \<and> sessions s2 = sessions s
     \<and> (case ry of
          Ok p \<Rightarrow> \<exists>b. p = Some b \<and> brk s \<le> b \<and> b < brk s2 \<and> sampled R rdr (rand s) = Ok (scalars s2 b)
            \<and> Scalar_Equal R (scalars s2 b) (NewScalar R) \<noteq> 1 \<and> (\<forall>x. x \<noteq> b \<longrightarrow> scalars s2 x = scalars s x)
        | Err e \<Rightarrow> sampled R rdr (rand s) = Err e \<and> errors_Is e ErrRandomness \<and> scalars s2 = scalars s
        | Panic m \<Rightarrow> False)"
proof -
  let ?v = "generator_value (rd s (ni_password ni)) (rd s (ni_ci ni)) (rd s (ni_sid ni))"
  obtain g where g: "SetUniformBytes R (Sum512 ?v) = Some g"
    using assms(1) length_Sum512 [of ?v] unfolding uniform_law_def by blast
  have rg: "rg = Ok (Some (Suc (Suc (brk s))))" and s1: "s1 = s\<lparr>brk := Suc (Suc (Suc (brk s))),
      mem := (mem s)(brk s := zeros ?v, Suc (brk s) := replicate 64 0), elements := (elements s)(Suc (Suc (brk s)) := g)\<rparr>"
    using assms(3) g by (auto simp: calculateGenerator_closed Let_def)
  let ?s = "clearBytes (ni_password ni) s1"
  have pw: "valid s (ni_password ni)" using assms(2) by (simp add: valid_norm_def)
  note keep = sampleScalar_keeps [OF assms(4)] and cases = sampleScalar_cases [OF assms(4)]
  have m: "mem s2 a = mem ?s a" if "a < Suc (Suc (Suc (brk s)))" for a
    using that keep by (simp add: keeps_def s1)
  have "erases (ni_password ni) s s2"
    using keep pw m
    by (auto simp: erases_def keeps_def frame_def s1 cells_def mem_clearBytes)
  moreover have "scrubs {} s s2"
    unfolding scrubs_def
  proof (intro allI impI)
    fix a assume "brk s \<le> a"
    then show "mem s2 a = mem s a \<or> zeros (mem s2 a) = mem s2 a"
      using keep pw m [of a] by (cases "a < Suc (Suc (Suc (brk s)))") (auto simp: scrubs_def s1 mem_clearBytes zeros_eq)
  qed
  moreover have "generator R (norm_of (mem s) ni) = Some g" using g by (simp add: generator_def norm_of_def)
  moreover have "case ry of
          Ok p \<Rightarrow> \<exists>b. p = Some b \<and> brk s \<le> b \<and> b < brk s2 \<and> sampled R rdr (rand s) = Ok (scalars s2 b)
            \<and> Scalar_Equal R (scalars s2 b) (NewScalar R) \<noteq> 1 \<and> (\<forall>x. x \<noteq> b \<longrightarrow> scalars s2 x = scalars s x)
        | Err e \<Rightarrow> sampled R rdr (rand s) = Err e \<and> errors_Is e ErrRandomness \<and> scalars s2 = scalars s
        | Panic m \<Rightarrow> False"
    using cases assms(4)
    by (auto simp: sampled_def sampleScalar_closed s1 split: go.splits prod.splits)
  ultimately show ?thesis
    using rg keep by (auto simp: s1 keeps_def)
qed

lemma newInitiatorCore_success:
  assumes vn: "valid_norm s ni" and v_def: "v = norm_of (mem s) ni" and er: "erases (ni_password ni) s s2" and sc: "scrubs {} s s2"
    and b: "b < brk s2" "brk s \<le> b" and only: "\<forall>x. x \<noteq> b \<longrightarrow> scalars s2 x = scalars s x"
    and e: "brk s \<le> e" and elements: "elements s2 = (elements s)(e := g)"
    and G: "calculateGenerator R (ni_password ni) (ni_ci ni) (ni_sid ni) s = (Ok (Some e), s1)"
    and Y: "sampleScalar R (random_source rr random) (clearBytes (ni_password ni) s1) = (Ok (Some b), s2)"
    and call: "newInitiatorCore R rr ni random s = (res, t)"
  shows "\<exists>c ya V. res = Ok (Some c, ya) \<and> brk s \<le> c
     \<and> initiator_at t c \<lparr>is_scalar = scalars s2 b, is_sid = nv_sid v, is_ya = scalarMult_bytes R (scalars s2 b) g, is_ada = nv_ad v,
         is_peerID = nv_responderID v\<rparr>
     \<and> (\<forall>x \<in> icore_owned (icores t c). brk s \<le> x)
     \<and> valid t ya \<and> rd t ya = scalarMult_bytes R (scalars s2 b) g \<and> ya \<noteq> None \<and> (\<forall>x. ya = Some x \<longrightarrow> brk s \<le> x)
     \<and> scrubs V s t \<and> (\<forall>a \<in> V. mem t a \<in> {nv_sid v, scalarMult_bytes R (scalars s2 b) g, nv_ad v, nv_responderID v})
     \<and> (\<forall>x. scalars t x = scalars s x \<or> ic_scalar (icores t c) = Some x)
     \<and> erases (ni_password ni) s t
     \<and> (\<forall>x. elements t x = elements s x \<or> elements t x \<in> {NewIdentityElement R, Element_ScalarMult R (scalars s2 b) g})
     \<and> ustates t = ustates s2 \<and> rcores t = rcores s2 \<and> sessions t = sessions s2"
proof -
  have bs: "brk s \<le> brk s2" using er by (simp add: erases_def keeps_def)
  have v: "valid s2 (ni_sid ni)" "valid s2 (ni_ad ni)" "valid s2 (ni_responderID ni)"
    "rd s2 (ni_sid ni) = nv_sid v" "rd s2 (ni_ad ni) = nv_ad v" "rd s2 (ni_responderID ni) = nv_responderID v"
    using vn erases_rd [OF er] by (simp_all add: valid_norm_def v_def norm_of_def)
  let ?n = "Suc (brk s2)" and ?Y = "scalarMult_bytes R (scalars s2 b) g"
  have res: "res = Ok (Some (Suc (Suc (Suc (Suc (Suc ?n))))), Some ?n)"
    and t: "t = s2\<lparr>brk := Suc (Suc (Suc (Suc (Suc (Suc ?n))))),
      mem := (mem s2)(?n := ?Y, Suc ?n := rd s2 (ni_sid ni), Suc (Suc ?n) := ?Y, Suc (Suc (Suc ?n)) := rd s2 (ni_ad ni),
        Suc (Suc (Suc (Suc ?n))) := rd s2 (ni_responderID ni)),
      icores := (icores s2)(Suc (Suc (Suc (Suc (Suc ?n)))) := \<lparr>ic_scalar = Some b,
        ic_sid = slice_at (ni_sid ni) (Suc ?n), ic_ya = Some (Suc (Suc ?n)),
        ic_ada = slice_at (ni_ad ni) (Suc (Suc (Suc ?n))), ic_peerID = slice_at (ni_responderID ni) (Suc (Suc (Suc (Suc ?n))))\<rparr>),
      elements := (elements s2)(brk s2 := Element_ScalarMult R (scalars s2 b) g, e := NewIdentityElement R)\<rparr>"
    using call v(1-3)
    by (auto simp: newInitiatorCore_def G Y elements Let_def clone_closed scalarMult_closed scalarMult_bytes_def clear_closed)
  have "erases (ni_password ni) s t"
    using er bs e vn by (auto simp: t erases_def keeps_def frame_def valid_norm_def cells_def)
  moreover have "\<forall>x. elements t x = elements s x \<or> elements t x \<in> {NewIdentityElement R, Element_ScalarMult R (scalars s2 b) g}"
    by (simp add: t elements)
  moreover have "initiator_at t (Suc (Suc (Suc (Suc (Suc ?n))))) \<lparr>is_scalar = scalars s2 b, is_sid = nv_sid v, is_ya = ?Y,
      is_ada = nv_ad v, is_peerID = nv_responderID v\<rparr>"
    using b v by (simp add: initiator_at_def t valid_slice_at content_at) (simp add: content_def split: option.splits)
  moreover have "scrubs {?n, Suc ?n, Suc (Suc ?n), Suc (Suc (Suc ?n)), Suc (Suc (Suc (Suc ?n)))} s t"
    using sc by (simp add: t scrubs_def)
  moreover have "\<forall>a \<in> {?n, Suc ?n, Suc (Suc ?n), Suc (Suc (Suc ?n)), Suc (Suc (Suc (Suc ?n)))}.
      mem t a \<in> {nv_sid v, ?Y, nv_ad v, nv_responderID v}"
    using v by (simp add: t)
  moreover have "\<forall>x. scalars t x = scalars s x \<or> ic_scalar (icores t (Suc (Suc (Suc (Suc (Suc ?n)))))) = Some x"
    using only by (auto simp: t)
  moreover have "brk s \<le> Suc (Suc (Suc (Suc (Suc ?n))))" "valid t (Some ?n)" "rd t (Some ?n) = ?Y"
      "Some ?n \<noteq> None" "\<forall>x. Some ?n = Some x \<longrightarrow> brk s \<le> x"
      "\<forall>x \<in> icore_owned (icores t (Suc (Suc (Suc (Suc (Suc ?n)))))). brk s \<le> x"
    using bs b by (auto simp: t icore_owned_def icore_cells_def cells_def)
  moreover have "ustates t = ustates s2" "rcores t = rcores s2" "sessions t = sessions s2" by (simp_all add: t)
  ultimately show ?thesis
    unfolding res by (intro conjI exI) (assumption | rule refl)+
qed

lemma newInitiatorCore_contract:
  assumes "uniform_law R" and "valid_norm s ni" and "newInitiatorCore R rr ni random s = (res, t)"
    and "v = norm_of (mem s) ni"
  shows "erases (ni_password ni) s t \<and> ustates t = ustates s \<and> rcores t = rcores s \<and> sessions t = sessions s
    \<and> (case res of
         Ok (p, ya) \<Rightarrow> \<exists>c g y V. p = Some c \<and> brk s \<le> c \<and> generator R v = Some g
           \<and> sampled R (random_source rr random) (rand s) = Ok y \<and> Scalar_Equal R y (NewScalar R) \<noteq> 1
           \<and> initiator_at t c \<lparr>is_scalar = y, is_sid = nv_sid v, is_ya = scalarMult_bytes R y g, is_ada = nv_ad v,
               is_peerID = nv_responderID v\<rparr>
           \<and> (\<forall>x \<in> icore_owned (icores t c). brk s \<le> x)
           \<and> valid t ya \<and> rd t ya = scalarMult_bytes R y g \<and> ya \<noteq> None \<and> (\<forall>x. ya = Some x \<longrightarrow> brk s \<le> x)
           \<and> scrubs V s t \<and> (\<forall>a \<in> V. mem t a \<in> {nv_sid v, scalarMult_bytes R y g, nv_ad v, nv_responderID v})
           \<and> (\<forall>x. scalars t x = scalars s x \<or> ic_scalar (icores t c) = Some x)
           \<and> (\<forall>x. elements t x = elements s x \<or> elements t x \<in> {NewIdentityElement R, Element_ScalarMult R y g})
       | Err e \<Rightarrow> sampled R (random_source rr random) (rand s) = Err e \<and> errors_Is e ErrRandomness
           \<and> scrubs {} s t \<and> scalars t = scalars s
           \<and> (\<forall>x. elements t x = elements s x \<or> elements t x = NewIdentityElement R)
       | Panic m \<Rightarrow> False)"
proof -
  let ?rdr = "random_source rr random"
  obtain rg s1 where G: "calculateGenerator R (ni_password ni) (ni_ci ni) (ni_sid ni) s = (rg, s1)" by fastforce
  obtain ry s2 where Y: "sampleScalar R ?rdr (clearBytes (ni_password ni) s1) = (ry, s2)" by fastforce
  obtain g e where g: "rg = Ok (Some e)" "generator R v = Some g" "brk s \<le> e" "e < brk s2"
      "elements s2 = (elements s)(e := g)"
    and er: "erases (ni_password ni) s s2" and sc: "scrubs {} s s2" and same: "icores s2 = icores s"
      "rcores s2 = rcores s" "ustates s2 = ustates s" "sessions s2 = sessions s"
    and ry: "case ry of
          Ok p \<Rightarrow> \<exists>b. p = Some b \<and> brk s \<le> b \<and> b < brk s2 \<and> sampled R ?rdr (rand s) = Ok (scalars s2 b)
            \<and> Scalar_Equal R (scalars s2 b) (NewScalar R) \<noteq> 1 \<and> (\<forall>x. x \<noteq> b \<longrightarrow> scalars s2 x = scalars s x)
        | Err e \<Rightarrow> sampled R ?rdr (rand s) = Err e \<and> errors_Is e ErrRandomness \<and> scalars s2 = scalars s
        | Panic m \<Rightarrow> False"
    using derive_sample [OF assms(1,2) G Y] assms(4) by blast
  show ?thesis
  proof (cases ry)
    case (Err err)
    then have "res = Err err" "t = clearElement R (Some e) s2"
      using assms(3) by (simp_all add: newInitiatorCore_def G g(1) Y Let_def)
    then show ?thesis
      using er sc same ry Err g
      by (auto simp: clear_closed erases_def keeps_def scrubs_def frame_def)
  next
    case (Panic m)
    then show ?thesis using ry by simp
  next
    case (Ok p)
    then obtain b where b: "p = Some b" "b < brk s2" "sampled R ?rdr (rand s) = Ok (scalars s2 b)"
        "Scalar_Equal R (scalars s2 b) (NewScalar R) \<noteq> 1" "\<forall>x. x \<noteq> b \<longrightarrow> scalars s2 x = scalars s x"
        "brk s \<le> b"
      using ry by auto
    note made = newInitiatorCore_success [OF assms(2,4) er sc b(2,6,5) g(3,5) G [unfolded g(1)] Y [unfolded Ok b(1)] assms(3)]
    then obtain c ya V where "res = Ok (Some c, ya)" by blast
    with made show ?thesis
      unfolding same [symmetric] using g(2) b(3,4) by (elim exE conjE) (simp, blast)
  qed
qed

text \<open>The rest of \<open>newResponderCore\<close> after the sampling: key, tag, and the copies in the core.\<close>

lemma responder_key:
  assumes "valid s ya" "valid s ada" "valid s yb" "valid s ad" "valid s sid" "valid s peer"
    and "w = Element_ScalarMult R (scalars s b) (elements s e)" and "w \<in> E"
    and "K = Element_Bytes R w" and "K \<noteq> replicate 32 0"
    and "sharedSecretElement R r (Some b) (Some e) s = (k, s1)"
    and "newIRTranscript ya ada yb ad s1 = (tr, s2)"
    and "tr_deriveISK tr sid (Some (Suc (brk s))) s2 = (isk, s3)"
    and "responderConfirmationTag tr isk sid s3 = (tag, s4)"
    and "clone sid s4 = (sid', s5)" and "clone peer s5 = (peer', s6)"
    and "v = ISK_value (rd s sid) K (transcript_value (rd s ya) (rd s ada) (rd s yb) (rd s ad))"
    and "A = tag_residue v (rd s sid) (rd s yb) (rd s ad)"
  shows "k = Ok (Some (Suc (brk s))) \<and> elements s6 (brk s) = w
     \<and> (\<exists>n. tag = Some n \<and> Suc (brk s) < n \<and> n < brk s6 \<and> mem s6 n = tag_value v (rd s sid) (rd s yb) (rd s ad))
     \<and> valid s6 sid' \<and> rd s6 sid' = rd s sid \<and> valid s6 peer' \<and> rd s6 peer' = rd s peer
     \<and> (\<exists>a. isk = Some a \<and> Suc (brk s) < a \<and> a < brk s6 \<and> mem s6 a = v
       \<and> transcript_at s6 tr (rd s ya) (rd s ada) (rd s yb) (rd s ad)
       \<and> leaves A E (insert (Suc (brk s)) (insert a (transcript_cells tr \<union> cells [sid', peer']))) s s6
       \<and> (\<forall>x \<in> insert a (transcript_cells tr \<union> cells [sid', peer']). Suc (brk s) < x))"
proof -
  obtain a where k: "k = Ok (Some (Suc (brk s)))" "elements s3 (brk s) = w"
    and a: "isk = Some a" "Suc (brk s) < a" "a < brk s3" "mem s3 a = v"
    and tr: "transcript_at s3 tr (rd s ya) (rd s ada) (rd s yb) (rd s ad)"
    and 3: "leaves A E ({Suc (brk s)} \<union> transcript_cells tr \<union> {a}) s s3" and sep: "\<forall>x \<in> transcript_cells tr. Suc (brk s) < x"
    using session_key [OF assms(1-5,7-13), of A] assms(17) by auto
  have isk: "valid s3 isk" "rd s3 isk = v" and sid: "valid s3 sid" "rd s3 sid = rd s sid"
    using a assms(5) by (simp_all add: leaves_valid [OF 3] leaves_rd [OF 3])
  obtain n where 4: "leaves A E {} s3 s4" "tag = Some n" "brk s3 \<le> n" "n < brk s4" "mem s4 n = tag_value v (rd s sid) (rd s yb) (rd s ad)"
    using tags_contract(2) [OF tr isk(1) sid(1) assms(14), of E] isk(2) sid(2) by (auto simp: assms(18))
  have 5: "allocates (cells [sid']) s4 s5" "rd s5 sid' = rd s sid" "valid s5 sid'" "sid' = slice_at sid (brk s4)"
    using allocates_clone [OF assms(15) leaves_valid [OF 4(1) sid(1)]] leaves_rd [OF 4(1) sid(1)] sid(2) by simp_all
  have s4: "leaves A E ({Suc (brk s)} \<union> transcript_cells tr \<union> {a}) s s4" using leaves_trans [OF 3 4(1)] by simp
  have peer: "valid s4 peer" "rd s4 peer = rd s peer" using assms(6) by (simp_all add: leaves_valid [OF s4] leaves_rd [OF s4])
  have 6: "allocates (cells [peer']) s5 s6" "rd s6 peer' = rd s peer" "valid s6 peer'" "peer' = slice_at peer (brk s5)"
    using allocates_clone [OF assms(16) allocates_valid [OF 5(1) peer(1)]] allocates_rd [OF 5(1) peer(1)] peer(2) by simp_all
  have 46: "allocates (cells [sid'] \<union> cells [peer']) s4 s6" by (rule allocates_trans [OF 5(1) 6(1)])
  have c: "cells [sid', peer'] = cells [sid'] \<union> cells [peer']" by (auto simp: cells_def)
  have "leaves A E (insert (Suc (brk s)) (insert a (transcript_cells tr \<union> cells [sid', peer']))) s s6"
    using leaves_trans [OF s4 allocates_leaves [OF 46]] by (rule leaves_mono) (auto simp: c)
  moreover have "\<forall>x \<in> cells [sid', peer']. Suc (brk s) < x"
    using a leaves_brk [OF 4(1)] allocates_brk [OF 5(1)] by (auto simp: cells_def 5(4) 6(4))
  moreover have "mem s6 a = v" "a < brk s6"
    using a isk leaves_rd [OF 4(1) isk(1)] leaves_valid [OF 4(1) isk(1)] allocates_rd [OF 46, of isk] allocates_valid [OF 46, of isk]
    by simp_all
  moreover have "mem s6 n = tag_value v (rd s sid) (rd s yb) (rd s ad)" "n < brk s6" "Suc (brk s) < n"
    using 4(3-5) a(2,3) allocates_rd [OF 46, of "Some n"] allocates_brk [OF 46] by simp_all
  moreover have "elements s6 (brk s) = w"
    using k(2) leaves_element [OF 4(1), of "brk s"] leaves_brk [OF 3] a(2,3) 46 by (simp add: allocates_def)
  moreover have "transcript_at s6 tr (rd s ya) (rd s ada) (rd s yb) (rd s ad)"
    by (rule transcript_at_leaves [OF transcript_at_leaves [OF tr 4(1)] allocates_leaves [OF 46]])
  ultimately show ?thesis
    using k(1) a(1,2) sep 4(2) 6(2,3) allocates_rd [OF 6(1) 5(3)] allocates_valid [OF 6(1) 5(3)] 5(2)
    by (intro conjI exI [of _ n] exI [of _ a]) auto
qed

text \<open>The deferred wipes at the end of \<open>newResponderCore\<close>.\<close>

lemma responder_exit:
  assumes "erases pw s u" and "scrubs (insert k W) s u" and "brk s \<le> k" and "brk s \<le> b" and "brk s \<le> e"
    and "valid s pw"
    and "t = clearElement R (Some e) (clearScalar R (Some b) (clearBytes (Some k)
               (u\<lparr>brk := Suc (brk u), rcores := (rcores u)(brk u := core)\<rparr>)))"
  shows "erases pw s t \<and> scrubs W s t"
proof -
  have b: "brk s \<le> brk u" using assms(1) by (simp add: erases_def keeps_def)
  have "erases pw s t"
    using assms(1,3-6) b by (auto simp: assms(7) erases_def keeps_def frame_def clear_closed)
  moreover have "scrubs W s t" using assms(2) by (auto simp: assms(7) scrubs_def clear_closed)
  ultimately show ?thesis ..
qed

text \<open>
  The last step of \<open>newResponderCore\<close>, from the store \<open>u\<close> in which the key and the copies are made: the core \<open>brk u\<close> is
  stored, and the bytes of the shared secret, the scalar and the generator are cleared.
\<close>

lemma responder_sealed:
  assumes t: "t = clearElement R (Some e) (clearScalar R (Some b) (clearBytes (Some k)
        (u\<lparr>brk := Suc (brk u), rcores := (rcores u)(brk u := \<lparr>rc_isk = Some a, rc_transcript = tr, rc_sid = sid, rc_peerID = peer\<rparr>)\<rparr>)))"
    and id: "valid u sid" "rd u sid = rs_sid st" "valid u peer" "rd u peer = rs_peerID st" and a: "a < brk u" "mem u a = rs_isk st"
    and tr: "transcript_at u tr (rs_ya st) (rs_ada st) (rs_yb st) (rs_adb st)"
    and sep: "k \<notin> insert a (transcript_cells tr \<union> cells [sid, peer])"
  shows "responder_at t (brk u) st" and "x \<noteq> k \<Longrightarrow> mem t x = mem u x"
    and "x \<noteq> k \<Longrightarrow> x \<in> insert a (transcript_cells tr \<union> cells [sid, peer]) \<Longrightarrow>
      rc_isk (rcores t (brk u)) = Some x \<or> mem t x \<in> insert (rs_sid st) (insert (rs_peerID st)
        (public_values (rs_ya st) (rs_ada st) (rs_yb st) (rs_adb st)))"
    and "rcore_cells (rcores t (brk u)) = insert a (transcript_cells tr \<union> cells [sid, peer])"
proof -
  have mem: "mem t x = mem u x" if "x \<noteq> k" for x using that by (simp add: t clear_closed)
  then show "x \<noteq> k \<Longrightarrow> mem t x = mem u x" .
  have core: "rcores t (brk u) = \<lparr>rc_isk = Some a, rc_transcript = tr, rc_sid = sid, rc_peerID = peer\<rparr>"
    by (simp add: t clear_closed)
  have rdt: "rd t sl = rd u sl \<and> valid t sl" if "valid u sl" "sl \<noteq> Some k" for sl
    using that mem by (cases sl) (auto simp: t clear_closed)
  have "Some k \<notin> {tr_transcript tr, tr_ya tr, tr_ada tr, tr_yb tr, tr_adb tr, sid, peer}"
    using sep by (auto simp: transcript_cells_def cells_def)
  then show "responder_at t (brk u) st"
    using tr id a rdt [of "Some a"] sep
    by (auto simp: responder_at_def core transcript_at_def rdt) (simp add: t clear_closed)+
  show "rcore_cells (rcores t (brk u)) = insert a (transcript_cells tr \<union> cells [sid, peer])"
    by (auto simp: core rcore_cells_def cells_def)
  assume x: "x \<noteq> k" "x \<in> insert a (transcript_cells tr \<union> cells [sid, peer])"
  have "mem u x \<in> {rs_sid st, rs_peerID st}" if "x \<in> cells [sid, peer]"
    using that id by (auto simp: cells_def)
  then show "rc_isk (rcores t (brk u)) = Some x \<or> mem t x \<in> insert (rs_sid st) (insert (rs_peerID st)
        (public_values (rs_ya st) (rs_ada st) (rs_yb st) (rs_adb st)))"
    using x mem transcript_public [OF tr] by (auto simp: core)
qed

text \<open>
  What \<open>newResponderCore\<close> leaves in memory beside the key that the core owns: public values, the tag for message B,
  and the MAC key in the HMAC object.
\<close>

definition core_residue :: "responder_state \<Rightarrow> bytes set" where
  "core_residue st = {rs_sid st, rs_peerID st} \<union> public_values (rs_ya st) (rs_ada st) (rs_yb st) (rs_adb st)
     \<union> tag_residue (rs_isk st) (rs_sid st) (rs_yb st) (rs_adb st)"

lemma newResponderCore_success:
  assumes "valid_norm s ni" and "valid s ya" and "valid s ada" and "ni_password ni \<notin> {ya, ada}"
    and "v = norm_of (mem s) ni" and "erases (ni_password ni) s s2" and "scrubs {} s s2"
    and "b < brk s2" "brk s \<le> b" "e < brk s2" "brk s \<le> e"
    and "q < brk s2" and "y = scalars s2 b" and "g = elements s2 e" and "p = elements s2 q"
    and "k = scalarMult_bytes R y p" and "k \<noteq> replicate 32 0"
    and "calculateGenerator R (ni_password ni) (ni_ci ni) (ni_sid ni) s = (Ok (Some e), s1)"
      "sampleScalar R rdr (clearBytes (ni_password ni) s1) = (Ok (Some b), s2)"
      "newResponderCore_accepted R ni ya ada (Some q) rdr s = (res, t)"
    and "st = respond_state v (rd s ya) (rd s ada) (scalarMult_bytes R y g) k"
  shows "\<exists>c yb n V. res = Ok (Some c, yb, Some n) \<and> n < brk t \<and> mem t n = tag_value (rs_isk st) (rs_sid st) (rs_yb st) (rs_adb st)
     \<and> brk s \<le> c \<and> valid t yb \<and> rd t yb = rs_yb st \<and> responder_at t c st
     \<and> (\<forall>x \<in> rcore_cells (rcores t c). brk s \<le> x) \<and> (\<forall>x. yb = Some x \<longrightarrow> brk s \<le> x) \<and> brk s \<le> n
     \<and> erases (ni_password ni) s t \<and> scrubs V s t
     \<and> (\<forall>a \<in> V. rc_isk (rcores t c) = Some a \<or> mem t a \<in> core_residue st)
     \<and> icores t = icores s2 \<and> ustates t = ustates s2 \<and> rand t = rand s2
     \<and> scalars t = (scalars s2)(b := NewScalar R)
     \<and> (\<forall>x. elements t x = ((elements s2)(e := NewIdentityElement R)) x
          \<or> elements t x \<in> {Element_ScalarMult R y g, Element_ScalarMult R y p})
     \<and> (\<exists>x. brk s \<le> x \<and> x < brk t \<and> elements t x = Element_ScalarMult R y p)"
proof -
  let ?Y = "scalarMult_bytes R y g" and ?ya = "rd s ya" and ?ada = "rd s ada" and ?n = "Suc (brk s2)"
  let ?E = "{Element_ScalarMult R y g, Element_ScalarMult R y p}"
  have bs: "brk s \<le> brk s2" using assms(6) by (simp add: erases_def keeps_def)
  have v2: "valid s2 ya" "valid s2 ada" "valid s2 (ni_ad ni)" "valid s2 (ni_sid ni)" "valid s2 (ni_initiatorID ni)"
      "rd s2 ya = ?ya" "rd s2 ada = ?ada" "rd s2 (ni_ad ni) = nv_ad v" "rd s2 (ni_sid ni) = nv_sid v"
      "rd s2 (ni_initiatorID ni) = nv_initiatorID v"
    using assms(1-5) erases_rd [OF assms(6)] by (simp_all add: valid_norm_def norm_of_def)
  have st: "rs_isk st = ISK_value (nv_sid v) k (transcript_value ?ya ?ada ?Y (nv_ad v))" "rs_sid st = nv_sid v"
      "rs_ya st = ?ya" "rs_ada st = ?ada" "rs_yb st = ?Y" "rs_adb st = nv_ad v" "rs_peerID st = nv_initiatorID v"
    by (simp_all add: assms(21) respond_state_def)
  let ?A = "tag_residue (rs_isk st) (rs_sid st) (rs_yb st) (rs_adb st)"
  obtain yb s3 where M: "scalarMult R b e s2 = (yb, s3)" by fastforce
  have Yw: "Element_ScalarMult R y g = Element_ScalarMult R (scalars s2 b) (elements s2 e)" by (simp add: assms(13,14))
  have 3: "yb = Some ?n" "brk s3 = Suc ?n" "leaves ?A ?E {?n} s2 s3" "mem s3 ?n = ?Y"
    using scalarMult_contract(1,2,4) [OF M Yw, of ?E] scalarMult_contract(3) [OF M Yw, of ?E ?A] by (simp_all add: scalarMult_bytes_def)
  have v3: "valid s3 ya" "valid s3 ada" "valid s3 yb" "valid s3 (ni_ad ni)" "valid s3 (ni_sid ni)" "valid s3 (ni_initiatorID ni)"
    using v2 3(1,2) by (simp_all add: leaves_valid [OF 3(3)])
  have r3: "rd s3 ya = ?ya" "rd s3 ada = ?ada" "rd s3 yb = ?Y" "rd s3 (ni_ad ni) = nv_ad v" "rd s3 (ni_sid ni) = nv_sid v"
      "rd s3 (ni_initiatorID ni) = nv_initiatorID v"
    using v2 3(1,4) by (simp_all add: leaves_rd [OF 3(3)])
  have w: "Element_ScalarMult R y p = Element_ScalarMult R (scalars s3 b) (elements s3 q)"
    using leaves_same [OF 3(3)] leaves_element [OF 3(3) assms(12)] by (simp add: assms(13,15))
  have K: "k = Element_Bytes R (Element_ScalarMult R y p)" by (simp add: assms(16) scalarMult_bytes_def)
  let ?kc = "Suc (brk s3)"
  obtain kr s4 where KS: "sharedSecretElement R initiatorPeerShare (Some b) (Some q) s3 = (kr, s4)" by fastforce
  obtain tr s5 where T: "newIRTranscript ya ada yb (ni_ad ni) s4 = (tr, s5)" by fastforce
  obtain isk s6 where D: "tr_deriveISK tr (ni_sid ni) (Some ?kc) s5 = (isk, s6)" by fastforce
  obtain tag s7 where B: "responderConfirmationTag tr isk (ni_sid ni) s6 = (tag, s7)" by fastforce
  obtain sid s8 where C: "clone (ni_sid ni) s7 = (sid, s8)" by fastforce
  obtain peer s9 where P: "clone (ni_initiatorID ni) s8 = (peer, s9)" by fastforce
  obtain a n where kr: "kr = Ok (Some ?kc)" "elements s9 (brk s3) = Element_ScalarMult R y p"
    and tag: "tag = Some n" "?kc < n" "n < brk s9" "mem s9 n = tag_value (rs_isk st) (rs_sid st) (rs_yb st) (rs_adb st)"
    and id: "valid s9 sid" "rd s9 sid = nv_sid v" "valid s9 peer" "rd s9 peer = nv_initiatorID v"
    and a: "isk = Some a" "a < brk s9" "mem s9 a = rs_isk st"
    and tr: "transcript_at s9 tr ?ya ?ada ?Y (nv_ad v)"
    and al: "leaves ?A ?E (insert ?kc (insert a (transcript_cells tr \<union> cells [sid, peer]))) s3 s9"
    and fresh: "\<forall>x \<in> insert a (transcript_cells tr \<union> cells [sid, peer]). ?kc < x"
    using responder_key [OF v3 w _ K assms(17) KS T D B C P refl refl, of ?E] by (auto simp: r3 st)
  then have sep: "?kc \<notin> insert a (transcript_cells tr \<union> cells [sid, peer])" by blast
  let ?c = "brk s9" and ?W = "insert a (transcript_cells tr \<union> cells [sid, peer])"
  let ?core = "\<lparr>rc_isk = isk, rc_transcript = tr, rc_sid = sid, rc_peerID = peer\<rparr>"
  have res: "res = Ok (Some ?c, yb, tag)" and t: "t = clearElement R (Some e) (clearScalar R (Some b) (clearBytes (Some ?kc)
        (s9\<lparr>brk := Suc ?c, rcores := (rcores s9)(?c := ?core)\<rparr>)))"
    using assms(20) by (auto simp: newResponderCore_accepted_def assms(18,19) M KS kr(1) T D B C P Let_def)
  have 29: "leaves ?A ?E (insert ?kc (insert ?n ?W)) s2 s9"
    using leaves_trans [OF 3(3) al] by (rule leaves_mono) auto
  have pw: "valid s (ni_password ni)" using assms(1) by (simp add: valid_norm_def)
  have er: "erases (ni_password ni) s s9" by (rule erases_leaves [OF assms(6) 29 pw])
  obtain V where V: "scrubs (insert ?kc (insert ?n ?W) \<union> V) s2 s9" "\<forall>x \<in> V. brk s2 \<le> x \<and> x < brk s9 \<and> mem s9 x \<in> ?A"
    using leaves_scrubs [OF 29] by blast
  have "scrubs ({} \<union> (insert ?kc (insert ?n ?W) \<union> V)) s s9"
    using scrubs_trans [OF _ bs assms(7) V(1)] leaves_same [OF 29] by blast
  then have "scrubs (insert ?kc (insert ?n ?W \<union> (V - {?kc}))) s s9" by (rule scrubs_mono) auto
  then have ex: "erases (ni_password ni) s t \<and> scrubs (insert ?n ?W \<union> (V - {?kc})) s t"
    using responder_exit [OF er _ _ assms(9,11) pw t] bs 3(2) by simp
  have tr': "transcript_at s9 tr (rs_ya st) (rs_ada st) (rs_yb st) (rs_adb st)" using tr by (simp add: st)
  note sealed = responder_sealed [OF t [unfolded a(1)] id(1) _ id(3) _ a(2,3) tr' sep, unfolded st(2,7), OF id(2,4)]
  have n: "mem t ?n = ?Y" "?n < brk t"
    using sealed(2) [of ?n] 3 leaves_rd [OF al, of yb] leaves_brk [OF al] by (simp_all add: t clear_closed)
  have pub: "rc_isk (rcores t ?c) = Some x \<or> mem t x \<in> core_residue st" if "x \<in> insert ?n ?W \<union> (V - {?kc})" for x
  proof (cases "x \<in> V - {?kc}")
    case True
    then have "mem t x \<in> ?A" using V(2) sealed(2) [of x] by auto
    then show ?thesis by (simp add: core_residue_def)
  next
    case False
    then show ?thesis
      using that sealed(3) [of x] sep n(1) 3(2) by (cases "x = ?n") (auto simp: st core_residue_def public_values_def)
  qed
  have "\<forall>x \<in> rcore_cells (rcores t ?c). brk s \<le> x"
    unfolding sealed(4) using fresh bs 3(2) by (auto dest!: bspec)
  moreover have same: "icores t = icores s2" "ustates t = ustates s2" "scalars t = (scalars s2)(b := NewScalar R)" "rand t = rand s2"
    using leaves_same [OF 29] by (simp_all add: t clear_closed)
  moreover have "\<forall>x. elements t x = ((elements s2)(e := NewIdentityElement R)) x \<or> elements t x \<in> ?E"
    using 29 by (auto simp: t clear_closed leaves_def)
  moreover have "\<exists>x. brk s \<le> x \<and> x < brk t \<and> elements t x = Element_ScalarMult R y p"
    using kr(2) assms(10) 3(2) bs leaves_brk [OF al] by (intro exI [of _ "brk s3"]) (simp add: t clear_closed)
  moreover have "n < brk t" "mem t n = tag_value (rs_isk st) (rs_sid st) (rs_yb st) (rs_adb st)" "brk s \<le> n"
    using tag(2-4) sealed(2) [of n] bs 3(2) by (simp_all add: t clear_closed)
  moreover have "valid t yb" "rd t yb = rs_yb st" "\<forall>x. yb = Some x \<longrightarrow> brk s \<le> x" "brk s \<le> ?c"
    using n bs 3(1) leaves_brk [OF 29] by (simp_all add: st)
  moreover have "\<forall>x \<in> insert ?n ?W \<union> (V - {?kc}). rc_isk (rcores t ?c) = Some x \<or> mem t x \<in> core_residue st"
    using pub by blast
  moreover note ex [THEN conjunct1] ex [THEN conjunct2] sealed(1)
  ultimately show ?thesis
    unfolding res tag(1)
    by (intro exI [of _ ?c] exI [of _ yb] exI [of _ n] exI [of _ "insert ?n ?W \<union> (V - {?kc})"]) (intro conjI; (assumption | rule refl))
qed

lemma newResponderCore_neutral:
  assumes vn: "valid_norm s ni" and er: "erases (ni_password ni) s s2" and sc: "scrubs {} s s2"
    and b: "brk s \<le> b" and e: "brk s \<le> e" "e < brk s2" and q: "q < brk s2"
    and g: "elements s2 e = g" and p: "elements s2 q = p"
    and neutral: "scalarMult_bytes R (scalars s2 b) p = replicate 32 0"
    and G: "calculateGenerator R (ni_password ni) (ni_ci ni) (ni_sid ni) s = (Ok (Some e), s1)"
    and Y: "sampleScalar R rdr (clearBytes (ni_password ni) s1) = (Ok (Some b), s2)"
    and call: "newResponderCore_accepted R ni ya ada (Some q) rdr s = (res, t)"
  shows "res = Err (errorf ErrAbort ''neutral-element shared secret'') \<and> erases (ni_password ni) s t
     \<and> (\<exists>V. scrubs V s t \<and> (\<forall>a \<in> V. mem t a = scalarMult_bytes R (scalars s2 b) g))
     \<and> icores t = icores s2 \<and> ustates t = ustates s2 \<and> rand t = rand s2
     \<and> scalars t = (scalars s2)(b := NewScalar R)
     \<and> (\<forall>x. elements t x = ((elements s2)(e := NewIdentityElement R)) x
          \<or> elements t x \<in> {Element_ScalarMult R (scalars s2 b) g, Element_ScalarMult R (scalars s2 b) p})"
proof -
  let ?E = "{Element_ScalarMult R (scalars s2 b) g, Element_ScalarMult R (scalars s2 b) p}" and ?n = "Suc (brk s2)"
  have bs: "brk s \<le> brk s2" using er by (simp add: erases_def keeps_def)
  obtain yb s3 where M: "scalarMult R b e s2 = (yb, s3)" by fastforce
  have "Element_ScalarMult R (scalars s2 b) g = Element_ScalarMult R (scalars s2 b) (elements s2 e)" by (simp add: g)
  note M_contract = scalarMult_contract [OF M this]
  have 3: "brk s3 = Suc ?n" "leaves {} ?E {?n} s2 s3" "mem s3 ?n = scalarMult_bytes R (scalars s2 b) g"
    using M_contract(2,4) [of ?E] M_contract(3) [of ?E "{}"] by (simp_all add: scalarMult_bytes_def)
  obtain kr s4 where K: "sharedSecretElement R initiatorPeerShare (Some b) (Some q) s3 = (kr, s4)" by fastforce
  have w: "Element_ScalarMult R (scalars s2 b) p = Element_ScalarMult R (scalars s3 b) (elements s3 q)"
    using leaves_same [OF 3(2)] leaves_element [OF 3(2) q] p by simp
  have kr: "kr = Err (errorf ErrAbort ''neutral-element shared secret'')" "leaves {} ?E {} s3 s4"
    using sharedSecretElement_contract [OF K w, of ?E "{}"] neutral by (auto simp: scalarMult_bytes_def split: go.splits)
  have res: "res = Err (errorf ErrAbort ''neutral-element shared secret'')"
      "t = clearElement R (Some e) (clearScalar R (Some b) s4)"
    using call by (auto simp: newResponderCore_accepted_def G Y M K kr(1) Let_def)
  have 24: "leaves {} ?E {?n} s2 s4" using leaves_trans [OF 3(2) kr(2)] by simp
  obtain V where V: "scrubs ({?n} \<union> V) s2 s4" "\<forall>x \<in> V. False" using leaves_scrubs [OF 24] by auto
  then have "scrubs {?n} s2 s4" by (auto intro: scrubs_mono)
  from scrubs_trans [OF _ bs sc this] have "scrubs {?n} s s4" using leaves_same [OF 24] by simp
  moreover have "erases (ni_password ni) s s4" using erases_leaves [OF er 24] vn by (simp add: valid_norm_def)
  moreover have "mem s4 ?n = scalarMult_bytes R (scalars s2 b) g"
    using leaves_rd [OF kr(2), of "Some ?n"] 3(1,3) by simp
  ultimately have "erases (ni_password ni) s t" "scrubs {?n} s t" "mem t ?n = scalarMult_bytes R (scalars s2 b) g"
    using b e by (auto simp: res erases_def keeps_def frame_def scrubs_def clear_closed)
  moreover have "icores t = icores s2" "ustates t = ustates s2" "scalars t = (scalars s2)(b := NewScalar R)" "rand t = rand s2"
    using leaves_same [OF 24] by (simp_all add: res clear_closed)
  moreover have "elements t x = ((elements s2)(e := NewIdentityElement R)) x \<or> elements t x \<in> ?E" for x
    using 24 by (auto simp: res clear_closed leaves_def)
  ultimately show ?thesis using res(1) by (intro conjI exI [of _ "{?n}"]) simp_all
qed

text \<open>The two elements that the constructor leaves, apart from what the decoding leaves.\<close>

definition respond_products :: "('s, 'e) ristretto \<Rightarrow> norm \<Rightarrow> 'e \<Rightarrow> 's result \<Rightarrow> 'e set" where
  "respond_products R v p sample =
     {e. \<exists>g y. generator R v = Some g \<and> sample = Ok y \<and> e \<in> {Element_ScalarMult R y g, Element_ScalarMult R y p}}"

lemma newResponderCore_accepted_contract:
  assumes "uniform_law R" and "valid_norm s ni" and "valid s ya" and "valid s ada" and "ni_password ni \<notin> {ya, ada}"
    and "newResponderCore_accepted R ni ya ada (Some q) rdr s = (res, t)" and "v = norm_of (mem s) ni"
    and "q < brk s" and "elements s q = p"
  shows "erases (ni_password ni) s t \<and> icores t = icores s \<and> ustates t = ustates s
         \<and> (\<forall>x. elements t x = elements s x
              \<or> elements t x \<in> insert (NewIdentityElement R) (respond_products R v p (sampled R rdr (rand s))))
         \<and> (\<forall>x. scalars t x = scalars s x \<or> scalars t x = NewScalar R)
         \<and> (case sampled R rdr (rand s) of
             Err e \<Rightarrow> res = Err e \<and> errors_Is e ErrRandomness \<and> scrubs {} s t
           | Panic m \<Rightarrow> False
           | Ok y \<Rightarrow> \<exists>g. generator R v = Some g \<and> Scalar_Equal R y (NewScalar R) \<noteq> 1
               \<and> (if scalarMult_bytes R y p = replicate 32 0
                  then res = Err (errorf ErrAbort ''neutral-element shared secret'')
                    \<and> (\<exists>V. scrubs V s t \<and> (\<forall>a \<in> V. mem t a = scalarMult_bytes R y g))
                  else let st = respond_state v (rd s ya) (rd s ada) (scalarMult_bytes R y g) (scalarMult_bytes R y p) in
                    \<exists>c yb n V. res = Ok (Some c, yb, Some n) \<and> n < brk t \<and> brk s \<le> n
                      \<and> mem t n = tag_value (rs_isk st) (rs_sid st) (rs_yb st) (rs_adb st)
                      \<and> brk s \<le> c \<and> valid t yb \<and> rd t yb = rs_yb st \<and> responder_at t c st
                      \<and> (\<forall>x \<in> rcore_cells (rcores t c). brk s \<le> x) \<and> (\<forall>x. yb = Some x \<longrightarrow> brk s \<le> x)
                      \<and> scrubs V s t \<and> (\<forall>a \<in> V. rc_isk (rcores t c) = Some a \<or> mem t a \<in> core_residue st)
                      \<and> (\<exists>x. brk s \<le> x \<and> x < brk t \<and> Element_Bytes R (elements t x) = scalarMult_bytes R y p)))"
proof -
  obtain rg s1 where G: "calculateGenerator R (ni_password ni) (ni_ci ni) (ni_sid ni) s = (rg, s1)" by fastforce
  obtain ry s2 where Y: "sampleScalar R rdr (clearBytes (ni_password ni) s1) = (ry, s2)" by fastforce
  obtain g e where g: "rg = Ok (Some e)" "generator R v = Some g" "brk s \<le> e" "e < brk s2"
      "elements s2 = (elements s)(e := g)"
    and er: "erases (ni_password ni) s s2" and sc: "scrubs {} s s2" and same: "icores s2 = icores s" "ustates s2 = ustates s"
    and ry: "case ry of
          Ok p \<Rightarrow> \<exists>b. p = Some b \<and> brk s \<le> b \<and> b < brk s2 \<and> sampled R rdr (rand s) = Ok (scalars s2 b)
            \<and> Scalar_Equal R (scalars s2 b) (NewScalar R) \<noteq> 1 \<and> (\<forall>x. x \<noteq> b \<longrightarrow> scalars s2 x = scalars s x)
        | Err e \<Rightarrow> sampled R rdr (rand s) = Err e \<and> errors_Is e ErrRandomness \<and> scalars s2 = scalars s
        | Panic m \<Rightarrow> False"
    using derive_sample [OF assms(1,2) G Y] assms(7) by blast
  show ?thesis
  proof (cases ry)
    case (Panic m)
    then show ?thesis using ry by simp
  next
    case (Err err)
    then have "res = Err err" "t = clearElement R (Some e) s2"
      using assms(6) by (simp_all add: newResponderCore_accepted_def G g(1) Y Let_def)
    then show ?thesis
      using er sc same ry Err g by (auto simp: clear_closed erases_def keeps_def scrubs_def frame_def)
  next
    case (Ok r)
    then obtain b where b: "r = Some b" "brk s \<le> b" "b < brk s2" "sampled R rdr (rand s) = Ok (scalars s2 b)"
        "Scalar_Equal R (scalars s2 b) (NewScalar R) \<noteq> 1" "\<forall>x. x \<noteq> b \<longrightarrow> scalars s2 x = scalars s x"
      using ry by auto
    have q: "q < brk s2" "elements s2 q = p"
      using assms(8,9) g(3,5) er by (auto simp: erases_def keeps_def)
    have e: "elements s2 e = g" using g(5) by simp
    let ?E = "respond_products R v p (sampled R rdr (rand s))"
    have E: "{Element_ScalarMult R (scalars s2 b) g, Element_ScalarMult R (scalars s2 b) p} \<subseteq> ?E"
      using g(2) b(4) by (auto simp: respond_products_def)
    have els: "\<forall>x. elements t x = elements s x \<or> elements t x \<in> insert (NewIdentityElement R) ?E"
      if "\<forall>x. elements t x = ((elements s2)(e := NewIdentityElement R)) x
          \<or> elements t x \<in> {Element_ScalarMult R (scalars s2 b) g, Element_ScalarMult R (scalars s2 b) p}"
    proof
      fix x
      show "elements t x = elements s x \<or> elements t x \<in> insert (NewIdentityElement R) ?E"
        using spec [OF that, of x] E g(5) by (cases "x = e") auto
    qed
    have scal: "\<forall>x. scalars t x = scalars s x \<or> scalars t x = NewScalar R"
      if "scalars t = (scalars s2)(b := NewScalar R)" using that b(6) by simp
    show ?thesis
    proof (cases "scalarMult_bytes R (scalars s2 b) p = replicate 32 0")
      case True
      note out = newResponderCore_neutral [OF assms(2) er sc b(2) g(3,4) q(1) e q(2) True G [unfolded g(1)] Y [unfolded Ok b(1)] assms(6)]
      show ?thesis using out els scal same b(4,5) g(2) True by simp
    next
      case False
      note out = newResponderCore_success [OF assms(2-5,7) er sc b(3,2) g(4,3) q(1) refl e [symmetric] q(2) [symmetric] refl False
          G [unfolded g(1)] Y [unfolded Ok b(1)] assms(6) refl]
      let ?st = "respond_state v (rd s ya) (rd s ada) (scalarMult_bytes R (scalars s2 b) g) (scalarMult_bytes R (scalars s2 b) p)"
      obtain c yb n V x where ok: "res = Ok (Some c, yb, Some n)" "n < brk t" "brk s \<le> n"
          "mem t n = tag_value (rs_isk ?st) (rs_sid ?st) (rs_yb ?st) (rs_adb ?st)"
          "brk s \<le> c" "valid t yb" "rd t yb = rs_yb ?st" "responder_at t c ?st" "\<forall>x \<in> rcore_cells (rcores t c). brk s \<le> x"
          "\<forall>x. yb = Some x \<longrightarrow> brk s \<le> x" "scrubs V s t" "\<forall>a \<in> V. rc_isk (rcores t c) = Some a \<or> mem t a \<in> core_residue ?st"
          "brk s \<le> x \<and> x < brk t" "elements t x = Element_ScalarMult R (scalars s2 b) p"
        and rest: "erases (ni_password ni) s t" "icores t = icores s2" "ustates t = ustates s2" "scalars t = (scalars s2)(b := NewScalar R)"
          "\<forall>x. elements t x = ((elements s2)(e := NewIdentityElement R)) x
          \<or> elements t x \<in> {Element_ScalarMult R (scalars s2 b) g, Element_ScalarMult R (scalars s2 b) p}"
        using out by (elim exE conjE) blast
      have "\<exists>x. brk s \<le> x \<and> x < brk t \<and> Element_Bytes R (elements t x) = scalarMult_bytes R (scalars s2 b) p"
        using ok(13,14) by (intro exI [of _ x]) (simp add: scalarMult_bytes_def)
      then have "\<exists>c yb n V. res = Ok (Some c, yb, Some n) \<and> n < brk t \<and> brk s \<le> n
          \<and> mem t n = tag_value (rs_isk ?st) (rs_sid ?st) (rs_yb ?st) (rs_adb ?st)
          \<and> brk s \<le> c \<and> valid t yb \<and> rd t yb = rs_yb ?st \<and> responder_at t c ?st
          \<and> (\<forall>x \<in> rcore_cells (rcores t c). brk s \<le> x) \<and> (\<forall>x. yb = Some x \<longrightarrow> brk s \<le> x)
          \<and> scrubs V s t \<and> (\<forall>a \<in> V. rc_isk (rcores t c) = Some a \<or> mem t a \<in> core_residue ?st)
          \<and> (\<exists>x. brk s \<le> x \<and> x < brk t \<and> Element_Bytes R (elements t x) = scalarMult_bytes R (scalars s2 b) p)"
        using ok(1-12) by blast
      then show ?thesis
        using els [OF rest(5)] scal [OF rest(4)] rest(1-3) same b(5) g(2) False
        unfolding b(4) go.case Let_def by (intro conjI exI [of _ g]) simp_all
    qed
  qed
qed

lemma newResponderCore_contract:
  assumes "valid_norm s ni" and "valid s ya" and "valid s ada"
    and "newResponderCore R rr ni ya ada random s = (res, t)"
    and "rdr = random_source rr random" and "role_decode R initiatorPeerShare (rd s ya) s = (q, u)"
  shows "leaves {} (decoded_elements R (rd s ya)) {} s u \<and> valid_norm u ni \<and> valid u ya \<and> valid u ada
    \<and> norm_of (mem u) ni = norm_of (mem s) ni \<and> rd u ya = rd s ya \<and> rd u ada = rd s ada \<and> rand u = rand s
    \<and> (case decoded_share R initiatorPeerShare (rd s ya) of
         Err e \<Rightarrow> res = Err e \<and> t = u
       | Panic m \<Rightarrow> False
       | Ok p \<Rightarrow> newResponderCore_accepted R ni ya ada (Some (brk s)) rdr u = (res, t) \<and> brk s < brk u \<and> elements u (brk s) = p)"
proof -
  note dec = role_decode_contract [OF assms(6) subset_refl]
  have "norm_of (mem u) ni = norm_of (mem s) ni"
    using assms(1) leaves_rd [OF dec(1)] by (simp add: norm_of_def valid_norm_def)
  then show ?thesis
    using assms(1-4) dec leaves_valid [OF dec(1)] leaves_rd [OF dec(1)] leaves_same [OF dec(1)]
    by (auto simp: newResponderCore_def assms(5,6) valid_norm_def Let_def split: go.splits)
qed

section \<open>The wipes of the persistent secrets\<close>

lemma tr_clear_closed:
  "tr_clear (Some t) s =
     (Some \<lparr>tr_transcript = None, tr_ya = None, tr_ada = None, tr_yb = None, tr_adb = None\<rparr>,
      s\<lparr>mem := (\<lambda>a. if a \<in> transcript_cells t then zeros (mem s a) else mem s a)\<rparr>)"
proof -
  let ?l = "[tr_transcript t, tr_ya t, tr_ada t, tr_yb t, tr_adb t]"
  have "a \<in> cells ?l \<longleftrightarrow> a \<in> transcript_cells t" for a
    by (auto simp: cells_def transcript_cells_def)
  then show ?thesis
    using fold_clearBytes [of ?l s] by (simp add: tr_clear_def Let_def)
qed

lemma initiatorCore_clear_closed [heap_simps]:
  "initiatorCore_clear R (Some c) s = (clearScalar R (ic_scalar (icores s c)) s)
     \<lparr>icores := (icores s)(c := (icores s c)\<lparr>ic_scalar := None\<rparr>)\<rparr>"
  "initiatorCore_clear R None s = s"
  by (cases "ic_scalar (icores s c)"; simp add: initiatorCore_clear_def clear_closed Let_def)+

definition cleared_rcore :: "responderCore \<Rightarrow> responderCore" where
  "cleared_rcore k = k\<lparr>rc_isk := None, rc_transcript :=
     \<lparr>tr_transcript = None, tr_ya = None, tr_ada = None, tr_yb = None, tr_adb = None\<rparr>\<rparr>"

definition rcore_secret_cells :: "responderCore \<Rightarrow> nat set" where
  "rcore_secret_cells k = cells [rc_isk k] \<union> transcript_cells (rc_transcript k)"

lemma responderCore_clear_closed [heap_simps]:
  "responderCore_clear (Some c) s =
     s\<lparr>mem := (\<lambda>a. if a \<in> rcore_secret_cells (rcores s c) then zeros (mem s a) else mem s a),
       rcores := (rcores s)(c := cleared_rcore (rcores s c))\<rparr>"
  "responderCore_clear None s = s"
proof -
  have "clearBytes sl s = s\<lparr>mem := (\<lambda>a. if a \<in> cells [sl] then zeros (mem s a) else mem s a)\<rparr>" for sl
    using fold_clearBytes [of "[sl]" s] by simp
  then show "responderCore_clear (Some c) s =
     s\<lparr>mem := (\<lambda>a. if a \<in> rcore_secret_cells (rcores s c) then zeros (mem s a) else mem s a),
       rcores := (rcores s)(c := cleared_rcore (rcores s c))\<rparr>"
    by (simp add: responderCore_clear_def Let_def tr_clear_closed cleared_rcore_def rcore_secret_cells_def)
      (auto simp: fun_eq_iff)
  show "responderCore_clear None s = s" by (simp add: responderCore_clear_def)
qed

end
