(* ===== verification/Terminal_State.thy ===== *)
theory Terminal_State
  imports Core
begin

text \<open>
  terminal_state.go: the single-use guard around a core. The type parameter \<open>C\<close>, a pointer to
  one of the two core types, is here the \<open>clear\<close> method that \<open>closeCore\<close> calls; a locale states
  what the guard needs of it, and both roles interpret that locale. Every method takes the
  lock for its whole test and set, so that each is one step of the state.
\<close>

section \<open>Operations\<close>

definition newSingleUseState ::
  "nat option \<Rightarrow> string \<Rightarrow> ('s, 'e, 'r) store \<Rightarrow> nat option \<times> ('s, 'e, 'r) store" where
  "newSingleUseState core uninitialized s =
     (let a = brk s
      in (Some a, s\<lparr>brk := Suc a, ustates := (ustates s)(a :=
            \<lparr>su_used = False, su_core = core, su_uninitialized = uninitialized\<rparr>)\<rparr>))"

definition uninitializedError :: "singleUseState \<Rightarrow> gerror" where
  "uninitializedError u = Errorf [Wrap (Sentinel ErrInvalidInput), Txt '': '', Txt (su_uninitialized u)]"

definition claimFinish :: "nat \<Rightarrow> ('s, 'e, 'r) store \<Rightarrow> nat option result \<times> ('s, 'e, 'r) store" where
  "claimFinish a s =
     (if su_used (ustates s a) then (Err (Sentinel ErrStateUsed), s)
      else if su_core (ustates s a) = None then (Err (uninitializedError (ustates s a)), s)
      else (let s = s\<lparr>ustates := (ustates s)(a := (ustates s a)\<lparr>su_used := True\<rparr>)\<rparr>
            in (Ok (su_core (ustates s a)), s)))"

definition claimClose :: "nat \<Rightarrow> ('s, 'e, 'r) store \<Rightarrow> nat option result \<times> ('s, 'e, 'r) store" where
  "claimClose a s =
     (if su_used (ustates s a) then (Ok None, s)
      else if su_core (ustates s a) = None then (Err (uninitializedError (ustates s a)), s)
      else (let s = s\<lparr>ustates := (ustates s)(a := (ustates s a)\<lparr>su_used := True\<rparr>)\<rparr>
            in (Ok (su_core (ustates s a)), s)))"

definition closeCore ::
  "(nat option \<Rightarrow> ('s, 'e, 'r) store \<Rightarrow> ('s, 'e, 'r) store) \<Rightarrow> nat \<Rightarrow> ('s, 'e, 'r) store
     \<Rightarrow> unit result \<times> ('s, 'e, 'r) store" where
  "closeCore clear a s =
     (case claimClose a s of
        (Err e, s) \<Rightarrow> (Err e, s)
      | (Panic m, s) \<Rightarrow> (Panic m, s)
      | (Ok core, s) \<Rightarrow> (if core = None then (Ok (), s) else (Ok (), clear core s)))"

section \<open>The guard\<close>

text \<open>\<open>spent a s\<close>: the terminal operation of the state has been claimed.\<close>

definition spent :: "nat \<Rightarrow> ('s, 'e, 'r) store \<Rightarrow> bool" where
  "spent a s \<longleftrightarrow> su_used (ustates s a)"

lemma claimFinish_cases:
  "claimFinish a s =
     (if spent a s then (Err (Sentinel ErrStateUsed), s)
      else case su_core (ustates s a) of
        None \<Rightarrow> (Err (uninitializedError (ustates s a)), s)
      | Some c \<Rightarrow> (Ok (Some c), s\<lparr>ustates := (ustates s)(a := (ustates s a)\<lparr>su_used := True\<rparr>)\<rparr>))"
  by (simp add: claimFinish_def spent_def Let_def split: option.split)

lemma claimFinish_spent: "claimFinish a s = (Ok c, t) \<Longrightarrow> spent a t \<and> \<not> spent a s"
  by (auto simp: claimFinish_cases spent_def split: if_splits option.splits)

text \<open>What the guard needs of a core: its wipe erases, once, and leaves the guards alone.\<close>

locale single_use_core =
  fixes clear :: "nat option \<Rightarrow> ('s, 'e, 'r) store \<Rightarrow> ('s, 'e, 'r) store"
    and erased :: "nat \<Rightarrow> ('s, 'e, 'r) store \<Rightarrow> bool"
  assumes clear_nil: "clear None s = s"
    and clear_erases: "erased c (clear (Some c) s)"
    and clear_again: "erased c s \<Longrightarrow> clear (Some c) s = s"
    and clear_guards: "ustates (clear p s) = ustates s"
begin

lemma clear_idem: "clear p (clear p s) = clear p s"
  by (cases p) (simp_all add: clear_nil clear_again clear_erases)

lemma closeCore_cases:
  "closeCore clear a s =
     (if spent a s then (Ok (), s)
      else case su_core (ustates s a) of
        None \<Rightarrow> (Err (uninitializedError (ustates s a)), s)
      | Some c \<Rightarrow> (Ok (), clear (Some c) (s\<lparr>ustates := (ustates s)(a := (ustates s a)\<lparr>su_used := True\<rparr>)\<rparr>)))"
  by (simp add: closeCore_def claimClose_def spent_def Let_def split: option.split)

lemma closeCore_erases:
  assumes "closeCore clear a s = (Ok (), t)" and "\<not> spent a s"
  shows "spent a t \<and> (\<exists>c. su_core (ustates s a) = Some c \<and> erased c t)"
  using assms by (auto simp: closeCore_cases spent_def clear_guards clear_erases split: option.splits)

text \<open>A spent guard admits nothing more.\<close>

lemma spent_final:
  assumes "spent a s"
  shows "closeCore clear a s = (Ok (), s)" and "claimFinish a s = (Err (Sentinel ErrStateUsed), s)"
  using assms by (simp_all add: closeCore_cases claimFinish_cases)

lemma spent_clear: "spent a s \<Longrightarrow> spent a (clear p s)"
  by (simp add: spent_def clear_guards)

end

section \<open>The two roles\<close>

definition initiator_erased :: "nat \<Rightarrow> ('s, 'e, 'r) store \<Rightarrow> bool" where
  "initiator_erased c s \<longleftrightarrow> ic_scalar (icores s c) = None"

definition responder_erased :: "nat \<Rightarrow> ('s, 'e, 'r) store \<Rightarrow> bool" where
  "responder_erased c s \<longleftrightarrow> rcores s c = cleared_rcore (rcores s c)"

lemma clearScalar_frame [simp]:
  "ustates (clearScalar R p s) = ustates s" "icores (clearScalar R p s) = icores s" "mem (clearScalar R p s) = mem s"
  "brk (clearScalar R p s) = brk s" "rcores (clearScalar R p s) = rcores s" "sessions (clearScalar R p s) = sessions s"
  "elements (clearScalar R p s) = elements s" "rand (clearScalar R p s) = rand s"
  by (cases p; simp add: clear_closed)+

interpretation ini: single_use_core "initiatorCore_clear R" initiator_erased for R
proof
  fix s :: "('a, 'b, 'c) store" and c p
  show "initiatorCore_clear R None s = s" by (simp add: heap_simps)
  show "initiator_erased c (initiatorCore_clear R (Some c) s)" by (simp add: heap_simps initiator_erased_def)
  show "ustates (initiatorCore_clear R p s) = ustates s" by (cases p) (simp_all add: heap_simps)
  assume e: "initiator_erased c s"
  then have "(icores s c)\<lparr>ic_scalar := None\<rparr> = icores s c" by (cases "icores s c") (simp add: initiator_erased_def)
  then have "(icores s)(c := (icores s c)\<lparr>ic_scalar := None\<rparr>) = icores s" by (simp only: fun_upd_triv)
  then show "initiatorCore_clear R (Some c) s = s" using e by (simp add: heap_simps initiator_erased_def)
qed

interpretation resp: single_use_core responderCore_clear responder_erased
proof
  fix s :: "('a, 'b, 'c) store" and c p
  show "responderCore_clear None s = s" by (simp add: heap_simps)
  show "responder_erased c (responderCore_clear (Some c) s)"
    by (simp add: heap_simps responder_erased_def cleared_rcore_def)
  show "ustates (responderCore_clear p s) = ustates s" by (cases p) (simp_all add: heap_simps)
  assume e: "responder_erased c s"
  then have "rcore_secret_cells (rcores s c) = {}"
    by (cases "rcores s c") (simp add: responder_erased_def cleared_rcore_def rcore_secret_cells_def transcript_cells_def)
  then show "responderCore_clear (Some c) s = s"
    using e [unfolded responder_erased_def, symmetric] by (simp add: heap_simps)
qed

end
