(* ===== verification/Api.thy ===== *)
theory Api
  imports Terminal_State
begin

text \<open>
  api.go: the two entry points, \<open>Finish\<close> and \<open>Close\<close> of both roles. An \<open>Initiator\<close> value is a
  record with the pointer to its guard, so that copies share it; a pointer to it is an option of
  that record. Messages are slices of the store. The deferred wipes are written out at every
  exit.
\<close>

section \<open>Operations\<close>

record initiatorStruct = i_state :: "nat option"
record responderStruct = r_state :: "nat option"

definition uninitializedInitiator :: string where "uninitializedInitiator = ''uninitialized initiator''"
definition uninitializedResponder :: string where "uninitializedResponder = ''uninitialized responder''"

definition startWithRandom ::
  "('s, 'e) ristretto \<Rightarrow> 'r reader \<Rightarrow> inputStruct \<Rightarrow> 'r reader option \<Rightarrow> ('s, 'e, 'r) store
     \<Rightarrow> (initiatorStruct \<times> slice) result \<times> ('s, 'e, 'r) store" where
  "startWithRandom R rand_Reader input random s =
     (case normalizeStartInput input s of
        (Err e, s) \<Rightarrow> (Err e, s)
      | (Panic m, s) \<Rightarrow> (Panic m, s)
      | (Ok ni, s) \<Rightarrow>
          (case newInitiatorCore R rand_Reader ni random s of
             (Err e, s) \<Rightarrow> (Err e, normalizedInput_wipe ni s)
           | (Panic m, s) \<Rightarrow> (Panic m, normalizedInput_wipe ni s)
           | (Ok (core, ya), s) \<Rightarrow>
               (let (st, s) = newSingleUseState core uninitializedInitiator s
                in case encodeMessageA (rd s (ni_sid ni)) (rd s ya) (rd s (ni_ad ni)) of
                     Err e \<Rightarrow> (Err e, normalizedInput_wipe ni s)
                   | Panic m \<Rightarrow> (Panic m, normalizedInput_wipe ni s)
                   | Ok msg \<Rightarrow>
                       (let (msg, s) = alloc msg s
                        in (Ok (\<lparr>i_state = st\<rparr>, msg), normalizedInput_wipe ni s)))))"

definition Start ::
  "('s, 'e) ristretto \<Rightarrow> 'r reader \<Rightarrow> inputStruct \<Rightarrow> ('s, 'e, 'r) store
     \<Rightarrow> (initiatorStruct \<times> slice) result \<times> ('s, 'e, 'r) store" where
  "Start R rand_Reader input s = startWithRandom R rand_Reader input (Some rand_Reader) s"

definition respondWithRandom ::
  "('s, 'e) ristretto \<Rightarrow> 'r reader \<Rightarrow> inputStruct \<Rightarrow> slice \<Rightarrow> 'r reader option \<Rightarrow> ('s, 'e, 'r) store
     \<Rightarrow> (responderStruct \<times> slice) result \<times> ('s, 'e, 'r) store" where
  "respondWithRandom R rand_Reader input messageA random s =
     (case normalizeRespondInput input s of
        (Err e, s) \<Rightarrow> (Err e, s)
      | (Panic m, s) \<Rightarrow> (Panic m, s)
      | (Ok ni, s) \<Rightarrow>
          (case decodeMessageA (rd s messageA) of
             Err e \<Rightarrow> (Err e, normalizedInput_wipe ni s)
           | Panic m \<Rightarrow> (Panic m, normalizedInput_wipe ni s)
           | Ok a \<Rightarrow>
               (let (ya, s) = alloc (ma_ya a) s;
                    (ada, s) = alloc (ma_ada a) s
                in if ma_sid a \<noteq> rd s (ni_sid ni)
                   then (Err (errorf ErrMessage ''session id mismatch''), normalizedInput_wipe ni s)
                   else
                     (case newResponderCore R rand_Reader ni ya ada random s of
                        (Err e, s) \<Rightarrow> (Err e, normalizedInput_wipe ni s)
                      | (Panic m, s) \<Rightarrow> (Panic m, normalizedInput_wipe ni s)
                      | (Ok (core, yb, tagB), s) \<Rightarrow>
                          (let (st, s) = newSingleUseState core uninitializedResponder s
                           in case encodeMessageB (rd s yb) (rd s (ni_ad ni)) (rd s tagB) of
                                Err e \<Rightarrow> (Err e, normalizedInput_wipe ni s)
                              | Panic m \<Rightarrow> (Panic m, normalizedInput_wipe ni s)
                              | Ok msg \<Rightarrow>
                                  (let (msg, s) = alloc msg s
                                   in (Ok (\<lparr>r_state = st\<rparr>, msg), normalizedInput_wipe ni s)))))))"

definition Respond ::
  "('s, 'e) ristretto \<Rightarrow> 'r reader \<Rightarrow> inputStruct \<Rightarrow> slice \<Rightarrow> ('s, 'e, 'r) store
     \<Rightarrow> (responderStruct \<times> slice) result \<times> ('s, 'e, 'r) store" where
  "Respond R rand_Reader input messageA s = respondWithRandom R rand_Reader input messageA (Some rand_Reader) s"

definition initiator_finishCore ::
  "initiatorStruct option \<Rightarrow> ('s, 'e, 'r) store \<Rightarrow> nat option result \<times> ('s, 'e, 'r) store" where
  "initiator_finishCore p s =
     (case Option.bind p i_state of
        None \<Rightarrow> (Err (errorf ErrInvalidInput uninitializedInitiator), s)
      | Some a \<Rightarrow> claimFinish a s)"

definition responder_finishCore ::
  "responderStruct option \<Rightarrow> ('s, 'e, 'r) store \<Rightarrow> nat option result \<times> ('s, 'e, 'r) store" where
  "responder_finishCore p s =
     (case Option.bind p r_state of
        None \<Rightarrow> (Err (errorf ErrInvalidInput uninitializedResponder), s)
      | Some a \<Rightarrow> claimFinish a s)"

definition Initiator_Finish ::
  "('s, 'e) ristretto \<Rightarrow> initiatorStruct option \<Rightarrow> slice \<Rightarrow> ('s, 'e, 'r) store
     \<Rightarrow> (slice \<times> sessionStruct) result \<times> ('s, 'e, 'r) store" where
  "Initiator_Finish R p messageB s =
     (case initiator_finishCore p s of
        (Err e, s) \<Rightarrow> (Err e, s)
      | (Panic m, s) \<Rightarrow> (Panic m, s)
      | (Ok None, s) \<Rightarrow> (Panic ''nil pointer dereference'', s)
      | (Ok (Some c), s) \<Rightarrow>
          (case decodeMessageB (rd s messageB) of
             Err e \<Rightarrow> (Err e, initiatorCore_clear R (Some c) s)
           | Panic m \<Rightarrow> (Panic m, initiatorCore_clear R (Some c) s)
           | Ok b \<Rightarrow>
               (let (yb, s) = alloc (mb_yb b) s;
                    (adb, s) = alloc (mb_adb b) s
                in case initiatorCore_finish R c yb adb (mb_tag b) s of
                     (Err e, s) \<Rightarrow> (Err e, initiatorCore_clear R (Some c) s)
                   | (Panic m, s) \<Rightarrow> (Panic m, initiatorCore_clear R (Some c) s)
                   | (Ok (tagA, sess), s) \<Rightarrow>
                       (case encodeMessageC (rd s tagA) of
                          Err e \<Rightarrow> (Err e, initiatorCore_clear R (Some c) s)
                        | Panic m \<Rightarrow> (Panic m, initiatorCore_clear R (Some c) s)
                        | Ok msg \<Rightarrow>
                            (let (msg, s) = alloc msg s
                             in (Ok (msg, sess), initiatorCore_clear R (Some c) s))))))"

definition Initiator_Close ::
  "('s, 'e) ristretto \<Rightarrow> initiatorStruct option \<Rightarrow> ('s, 'e, 'r) store \<Rightarrow> unit result \<times> ('s, 'e, 'r) store" where
  "Initiator_Close R p s =
     (case p of
        None \<Rightarrow> (Ok (), s)
      | Some i \<Rightarrow>
          (case i_state i of
             None \<Rightarrow> (Err (errorf ErrInvalidInput uninitializedInitiator), s)
           | Some a \<Rightarrow> closeCore (initiatorCore_clear R) a s))"

definition Responder_Finish ::
  "responderStruct option \<Rightarrow> slice \<Rightarrow> ('s, 'e, 'r) store \<Rightarrow> sessionStruct result \<times> ('s, 'e, 'r) store" where
  "Responder_Finish p messageC s =
     (case responder_finishCore p s of
        (Err e, s) \<Rightarrow> (Err e, s)
      | (Panic m, s) \<Rightarrow> (Panic m, s)
      | (Ok None, s) \<Rightarrow> (Panic ''nil pointer dereference'', s)
      | (Ok (Some c), s) \<Rightarrow>
          (case decodeMessageC (rd s messageC) of
             Err e \<Rightarrow> (Err e, responderCore_clear (Some c) s)
           | Panic m \<Rightarrow> (Panic m, responderCore_clear (Some c) s)
           | Ok m \<Rightarrow>
               (let (res, s) = responderCore_finish c (mc_tag m) s
                in (res, responderCore_clear (Some c) s))))"

definition Responder_Close ::
  "responderStruct option \<Rightarrow> ('s, 'e, 'r) store \<Rightarrow> unit result \<times> ('s, 'e, 'r) store" where
  "Responder_Close p s =
     (case p of
        None \<Rightarrow> (Ok (), s)
      | Some r \<Rightarrow>
          (case r_state r of
             None \<Rightarrow> (Err (errorf ErrInvalidInput uninitializedResponder), s)
           | Some a \<Rightarrow> closeCore responderCore_clear a s))"

section \<open>Specification\<close>

text \<open>The public states: a guard that holds a core and has not been claimed.\<close>

definition initiator_ready :: "('s, 'e, 'r) store \<Rightarrow> initiatorStruct \<Rightarrow> nat \<Rightarrow> nat \<Rightarrow> 's initiator_state \<Rightarrow> bool" where
  "initiator_ready s i a c st \<longleftrightarrow> i_state i = Some a \<and> a < brk s
     \<and> ustates s a = \<lparr>su_used = False, su_core = Some c, su_uninitialized = uninitializedInitiator\<rparr>
     \<and> initiator_at s c st"

text \<open>The cells that a guard reaches: its own, its core's, and those of the core's fields.\<close>

definition initiator_owned :: "('s, 'e, 'r) store \<Rightarrow> nat \<Rightarrow> nat set" where
  "initiator_owned s a = insert a (case su_core (ustates s a) of
     None \<Rightarrow> {}
   | Some c \<Rightarrow> insert c (icore_owned (icores s c)))"

definition responder_owned :: "('s, 'e, 'r) store \<Rightarrow> nat \<Rightarrow> nat set" where
  "responder_owned s a = insert a (case su_core (ustates s a) of
     None \<Rightarrow> {}
   | Some c \<Rightarrow> insert c (rcore_cells (rcores s c)))"

definition responder_ready :: "('s, 'e, 'r) store \<Rightarrow> responderStruct \<Rightarrow> nat \<Rightarrow> nat \<Rightarrow> responder_state \<Rightarrow> bool" where
  "responder_ready s r a c st \<longleftrightarrow> r_state r = Some a \<and> a < brk s
     \<and> ustates s a = \<lparr>su_used = False, su_core = Some c, su_uninitialized = uninitializedResponder\<rparr>
     \<and> responder_at s c st"

lemma initiator_cells_lt:
  assumes "initiator_at s c st" and "x \<in> icore_owned (icores s c)"
  shows "x < brk s"
proof (cases "x \<in> icore_cells (icores s c)")
  case True
  then show ?thesis
    unfolding icore_cells_def by (rule cells_lt [rotated]) (use assms(1) in \<open>simp add: initiator_at_def\<close>)
next
  case False
  then show ?thesis using assms by (auto simp: initiator_at_def icore_owned_def)
qed

text \<open>The result of \<open>Start\<close> on values: the initiator's state and message A.\<close>

definition start_state :: "('s, 'e) ristretto \<Rightarrow> inputs \<Rightarrow> 'e \<Rightarrow> 's \<Rightarrow> 's initiator_state" where
  "start_state R v g y = \<lparr>is_scalar = y, is_sid = iv_sid v, is_ya = scalarMult_bytes R y g, is_ada = iv_ad v,
     is_peerID = iv_peer v\<rparr>"

text \<open>A core survives every step that leaves its own cells alone.\<close>

lemma rd_same: "(\<And>x. sl = Some x \<Longrightarrow> m' x = m x) \<Longrightarrow> content m' sl = content m sl"
  by (cases sl) simp_all

lemma valid_mono: "valid s sl \<Longrightarrow> brk s \<le> brk t \<Longrightarrow> valid t sl"
  by (auto simp: valid_def)

lemma initiator_at_mono:
  assumes "initiator_at s c st" and "brk s \<le> brk t" and "icores t c = icores s c"
    and "\<forall>x. ic_scalar (icores s c) = Some x \<longrightarrow> scalars t x = scalars s x"
    and "\<forall>x \<in> icore_cells (icores s c). mem t x = mem s x"
  shows "initiator_at t c st"
proof -
  let ?k = "icores s c"
  obtain b where b: "b < brk s" "ic_scalar ?k = Some b" "scalars s b = is_scalar st"
    using assms(1) by (auto simp: initiator_at_def)
  have "rd t sl = rd s sl \<and> valid t sl" if "sl \<in> {ic_sid ?k, ic_ya ?k, ic_ada ?k, ic_peerID ?k}" for sl
  proof
    show "rd t sl = rd s sl"
      using that assms(5) by (intro rd_same) (auto simp: icore_cells_def cells_def)
    show "valid t sl" using that assms(1,2) by (rule_tac valid_mono [of s]) (auto simp: initiator_at_def)
  qed
  then have "rd t (ic_sid ?k) = is_sid st \<and> valid t (ic_sid ?k)" "rd t (ic_ya ?k) = is_ya st \<and> valid t (ic_ya ?k)"
      "rd t (ic_ada ?k) = is_ada st \<and> valid t (ic_ada ?k)" "rd t (ic_peerID ?k) = is_peerID st \<and> valid t (ic_peerID ?k)"
    using assms(1) by (simp_all add: initiator_at_def)
  moreover have "c < brk t" "b < brk t" "scalars t b = is_scalar st" using assms(1,2,4) b by (auto simp: initiator_at_def)
  ultimately show ?thesis using b(2) by (auto simp: initiator_at_def assms(3))
qed

lemma responder_at_mono:
  assumes "responder_at s c st" and "brk s \<le> brk t" and "rcores t c = rcores s c"
    and "\<forall>x \<in> rcore_cells (rcores s c). mem t x = mem s x"
  shows "responder_at t c st"
proof -
  let ?k = "rcores s c" and ?tr = "rc_transcript (rcores s c)"
  obtain b where b: "b < brk s" "rc_isk ?k = Some b" "mem s b = rs_isk st"
    using assms(1) by (auto simp: responder_at_def)
  have same: "rd t sl = rd s sl \<and> valid t sl"
    if "sl \<in> {rc_sid ?k, rc_peerID ?k, tr_transcript ?tr, tr_ya ?tr, tr_ada ?tr, tr_yb ?tr, tr_adb ?tr}" for sl
  proof
    show "rd t sl = rd s sl"
      using that assms(4) by (intro rd_same) (auto simp: rcore_cells_def cells_def transcript_cells_def)
    show "valid t sl"
      using that assms(1,2) by (rule_tac valid_mono [of s]) (auto simp: responder_at_def transcript_at_def)
  qed
  then have "rd t (rc_sid ?k) = rs_sid st \<and> valid t (rc_sid ?k)" "rd t (rc_peerID ?k) = rs_peerID st \<and> valid t (rc_peerID ?k)"
    using assms(1) by (simp_all add: responder_at_def)
  moreover have "transcript_at t ?tr (rs_ya st) (rs_ada st) (rs_yb st) (rs_adb st)"
    using assms(1) same by (simp add: responder_at_def transcript_at_def)
  moreover have "mem t b = rs_isk st" using assms(4) b by (simp add: rcore_cells_def)
  ultimately show ?thesis
    using assms(1,2) b(1,2) unfolding responder_at_def assms(3) by (intro conjI exI [of _ b]) simp_all
qed

section \<open>Contract of \<open>Start\<close>\<close>

lemma norm_slices_valid:
  assumes "valid_input s input" and "role = initiatorInputRole \<or> role = responderInputRole"
    and "normalizeInput input role s = (Ok ni, t)"
  shows "valid_norm t ni"
proof -
  have ni: "ni = norm_slices role input (brk s)" and ok: "input_error (inputs_of (mem s) input) = None"
    using norm_slices_at [OF assms] by (simp_all add: input_error_None)
  have "rd s (in_Password input) \<noteq> []"
    using norm_slices_at [OF assms] by (simp add: acceptable_def inputs_of_def)
  then have "in_Password input \<noteq> None" by (cases "in_Password input") auto
  moreover have "brk t = brk s + 7"
    using assms(3) ok by (auto simp: normalizeInput_closed [OF assms(1,2)] Let_def)
  ultimately show ?thesis
    by (auto simp: ni valid_norm_def norm_slices_def Let_def valid_slice_at)
qed

lemma newSingleUseState_contract:
  assumes "newSingleUseState core u s = (st, t)"
  shows "st = Some (brk s)" and "brk t = Suc (brk s)" and "mem t = mem s" and "scalars t = scalars s"
    and "elements t = elements s" and "icores t = icores s" and "rcores t = rcores s" and "sessions t = sessions s"
    and "ustates t = (ustates s)(brk s := \<lparr>su_used = False, su_core = core, su_uninitialized = u\<rparr>)"
  using assms by (auto simp: newSingleUseState_def Let_def)

text \<open>
  What both entry points do last: the wipe of the normal form, on a store reached through a
  constructor that started on the result of \<open>normalizeInput\<close>.
\<close>

lemma wipe_exit:
  assumes "valid_input s input" and "role = initiatorInputRole \<or> role = responderInputRole"
    and "normalizeInput input role s = (Ok ni, t)"
    and "keeps (cells [ni_password ni]) t u" and "frame t u" and "scrubs V t u"
  shows "keeps {} s (normalizedInput_wipe ni u)" and "frame s (normalizedInput_wipe ni u)"
    and "scrubs V s (normalizedInput_wipe ni u)"
proof -
  note step = normalizeInput_step [OF assms(1-3)]
  have b: "brk s \<le> brk t" "brk t \<le> brk u" using step(1) assms(4) by (simp_all add: keeps_def)
  have pw: "cells [ni_password ni] \<subseteq> ni_cells ni" by (auto simp: ni_cells_def cells_def)
  have old: "a \<notin> ni_cells ni" if "a < brk s" for a using step(4) that by auto
  have tu: "mem u a = mem t a" if "a < brk t" "a \<notin> ni_cells ni" for a using assms(4) pw that by (auto simp: keeps_def)
  then have "keeps {} s u" using step(1) b old by (auto simp: keeps_def)
  then show "keeps {} s (normalizedInput_wipe ni u)"
    using old by (simp add: keeps_def normalizedInput_wipe_closed)
  have "frame s u" using frame_trans [OF step(2) assms(5) b(1)] .
  then show "frame s (normalizedInput_wipe ni u)" by (simp add: frame_def normalizedInput_wipe_closed)
  have "mem u a = mem s a \<or> zeros (mem u a) = mem u a" if "a \<ge> brk s" "a \<notin> V" "a \<notin> ni_cells ni" for a
  proof -
    have "mem t a = mem s a \<or> zeros (mem t a) = mem t a" using step(3) that by (simp add: scrubs_def)
    moreover have "mem u a = mem t a \<or> zeros (mem u a) = mem u a"
      using assms(6) tu [of a] that by (cases "a < brk t") (auto simp: scrubs_def)
    ultimately show ?thesis by auto
  qed
  then show "scrubs V s (normalizedInput_wipe ni u)" by (auto simp: scrubs_def normalizedInput_wipe_closed)
qed

text \<open>The cells of the normal form need no mention in what is left behind, and the others keep their bytes.\<close>

lemma wipe_exit_rest:
  assumes "valid_input s input" and "role = initiatorInputRole \<or> role = responderInputRole"
    and "normalizeInput input role s = (Ok ni, t0)"
    and "keeps (cells [ni_password ni]) t0 u" and "frame t0 u" and "scrubs V t0 u" and t: "t = normalizedInput_wipe ni u"
  shows "keeps {} s t \<and> frame s t \<and> brk t = brk u \<and> scalars t = scalars u \<and> elements t = elements u \<and> rand t = rand u"
    and "scrubs {x \<in> V. x \<notin> ni_cells ni} s t" and "x \<notin> ni_cells ni \<Longrightarrow> mem t x = mem u x"
    and "brk t0 \<le> x \<Longrightarrow> x \<notin> ni_cells ni"
proof -
  note exit = wipe_exit [OF assms(1-6), folded t]
  show "keeps {} s t \<and> frame s t \<and> brk t = brk u \<and> scalars t = scalars u \<and> elements t = elements u \<and> rand t = rand u"
    using exit(1,2) by (simp add: t normalizedInput_wipe_closed)
  have inside: "\<forall>x \<in> ni_cells ni. brk s \<le> x \<and> x < brk t0" by (rule normalizeInput_step(4) [OF assms(1-3)])
  show "scrubs {x \<in> V. x \<notin> ni_cells ni} s t"
    using exit(3) inside by (auto simp: t scrubs_def normalizedInput_wipe_closed)
  show "x \<notin> ni_cells ni \<Longrightarrow> mem t x = mem u x" by (simp add: t normalizedInput_wipe_closed)
  show "brk t0 \<le> x \<Longrightarrow> x \<notin> ni_cells ni" using inside by auto
qed

lemma erasesD: "erases pw s t \<Longrightarrow> keeps (cells [pw]) s t" "erases pw s t \<Longrightarrow> frame s t"
  by (simp_all add: erases_def)

text \<open>The message of an entry point: 32-byte shares, capped fields, so it encodes and decodes.\<close>

lemma message_A_ok:
  assumes "length sid \<le> 1024" and "length ya = 32" and "length ad \<le> 65536"
  shows "\<exists>msg. encodeMessageA sid ya ad = Ok msg \<and> decodeMessageA msg = Ok \<lparr>ma_sid = sid, ma_ya = ya, ma_ada = ad\<rparr>"
  using codecA.msg.round_trip [of "\<lparr>ma_sid = sid, ma_ya = ya, ma_ada = ad\<rparr>"] assms
  by (simp add: fields_valid_A encode_pack valid_A_def)

lemma message_B_ok:
  assumes "length yb = 32" and "length ad \<le> 65536" and "length tag = 64"
  shows "\<exists>msg. encodeMessageB yb ad tag = Ok msg \<and> decodeMessageB msg = Ok \<lparr>mb_yb = yb, mb_adb = ad, mb_tag = tag\<rparr>"
  using codecB.msg.round_trip [of "\<lparr>mb_yb = yb, mb_adb = ad, mb_tag = tag\<rparr>"] assms
  by (simp add: fields_valid_B encode_pack valid_B_def)

lemma message_C_ok:
  assumes "length tag = 64"
  shows "\<exists>msg. encodeMessageC tag = Ok msg \<and> decodeMessageC msg = Ok \<lparr>mc_tag = tag\<rparr>"
  using codecC.msg.round_trip [of "\<lparr>mc_tag = tag\<rparr>"] assms
  by (simp add: fields_valid_C encode_pack valid_C_def)

lemma decode_no_panic: "decodeMessageA buf \<noteq> Panic m" "decodeMessageB buf \<noteq> Panic m" "decodeMessageC buf \<noteq> Panic m"
  using codecA.msg.dec_result [of buf] codecB.msg.dec_result [of buf] codecC.msg.dec_result [of buf]
  by (auto simp: message_result_def)

lemma length_scalarMult: "encoding_laws R \<Longrightarrow> length (scalarMult_bytes R x p) = 32"
  by (simp add: scalarMult_bytes_def encoding_laws_def)

lemma length_tag_value [simp]: "length (tag_value isk sid y ad) = 64"
  by (simp add: tag_value_def)

text \<open>Claiming a guard and the two last steps of an entry point, guard and message.\<close>

lemma publish:
  assumes "newSingleUseState core u s = (st, s1)" and "alloc msg s1 = (m, t)"
  shows "st = Some (brk s) \<and> m = Some (Suc (brk s)) \<and> brk t = Suc (Suc (brk s))
    \<and> mem t = (mem s)(Suc (brk s) := msg) \<and> scalars t = scalars s \<and> elements t = elements s
    \<and> icores t = icores s \<and> rcores t = rcores s \<and> sessions t = sessions s
    \<and> ustates t = (ustates s)(brk s := \<lparr>su_used = False, su_core = core, su_uninitialized = u\<rparr>)"
  using assms by (auto simp: newSingleUseState_def alloc_closed Let_def)

lemma publish_rand:
  "newSingleUseState core u s = (st, s1) \<Longrightarrow> alloc msg s1 = (m, t) \<Longrightarrow> rand t = rand s"
  by (auto simp: newSingleUseState_def alloc_closed Let_def)

lemma publish_erases:
  assumes "newSingleUseState core u s1 = (st, s2)" and "alloc msg s2 = (m, t)"
    and "erases pw s s1" and "scrubs V s s1" and "valid s pw"
  shows "erases pw s t" and "scrubs (insert (Suc (brk s1)) V) s t"
proof -
  have b: "brk s \<le> brk s1" using assms(3) by (simp add: erases_def keeps_def)
  note pub = publish [OF assms(1,2)]
  show "erases pw s t" using assms(3,5) b pub by (auto simp: erases_def keeps_def frame_def)
  show "scrubs (insert (Suc (brk s1)) V) s t" using assms(4) pub by (auto simp: scrubs_def)
qed

text \<open>The exit of a successful entry point: guard and message are published, then the normal form is wiped.\<close>

lemma publish_exit:
  assumes "valid_input s input" and "role = initiatorInputRole \<or> role = responderInputRole"
    and "normalizeInput input role s = (Ok ni, t0)"
    and er: "erases (ni_password ni) t0 t1" and "scrubs V t0 t1" and "valid t0 (ni_password ni)"
    and U: "newSingleUseState core un t1 = (st, s1)" and A: "alloc msg s1 = (m, u)" and t: "t = normalizedInput_wipe ni u"
  shows "keeps {} s t \<and> frame s t \<and> brk s \<le> brk t0 \<and> brk t0 \<le> brk t1"
    and "scrubs (insert (Suc (brk t1)) (V \<inter> {x. brk t0 \<le> x \<and> x \<noteq> Suc (brk t1)})) s t"
    and "brk t0 \<le> x \<Longrightarrow> x \<noteq> Suc (brk t1) \<Longrightarrow> mem t x = mem t1 x"
    and "st = Some (brk t1) \<and> m = Some (Suc (brk t1)) \<and> rd t m = msg \<and> brk t = Suc (Suc (brk t1))
      \<and> ustates t = (ustates t1)(brk t1 := \<lparr>su_used = False, su_core = core, su_uninitialized = un\<rparr>)"
    and "scalars t = scalars t1 \<and> elements t = elements t1 \<and> icores t = icores t1 \<and> rcores t = rcores t1 \<and> rand t = rand t1"
proof -
  note step = normalizeInput_step [OF assms(1-3)]
  note pub = publish [OF U A] and pe = publish_erases [OF U A er assms(5,6)]
  let ?V = "insert (Suc (brk t1)) (V \<inter> {x. brk t0 \<le> x \<and> x \<noteq> Suc (brk t1)})"
  have V: "scrubs ?V t0 u" using pe(2) by (auto simp: scrubs_def)
  note exit = wipe_exit [OF assms(1-3) erasesD [OF pe(1)] V, folded t]
  have b: "brk s \<le> brk t0" "brk t0 \<le> brk t1" using er step(1) by (simp_all add: erases_def keeps_def)
  show "keeps {} s t \<and> frame s t \<and> brk s \<le> brk t0 \<and> brk t0 \<le> brk t1" and "scrubs ?V s t"
    using exit b by simp_all
  have m: "mem t x = mem u x" if "brk t0 \<le> x" for x
    using step(4) that by (auto simp: t normalizedInput_wipe_closed)
  then show "mem t x = mem t1 x" if "brk t0 \<le> x" "x \<noteq> Suc (brk t1)" using that pub by simp
  have "mem t (Suc (brk t1)) = msg" using m [of "Suc (brk t1)"] b pub by simp
  then show "st = Some (brk t1) \<and> m = Some (Suc (brk t1)) \<and> rd t m = msg \<and> brk t = Suc (Suc (brk t1))
      \<and> ustates t = (ustates t1)(brk t1 := \<lparr>su_used = False, su_core = core, su_uninitialized = un\<rparr>)"
    and "scalars t = scalars t1 \<and> elements t = elements t1 \<and> icores t = icores t1 \<and> rcores t = rcores t1 \<and> rand t = rand t1"
    using pub publish_rand [OF U A] by (simp_all add: t normalizedInput_wipe_closed)
qed

text \<open>The published object holds the core's state, and all its cells are above the bound of the core's.\<close>

lemma initiator_published:
  assumes at: "initiator_at t1 c st" and owned: "\<forall>x \<in> icore_owned (icores t1 c). b \<le> x" and "b \<le> c" "b \<le> brk t1"
    and "brk t = Suc (Suc (brk t1))" and "scalars t = scalars t1" and "icores t = icores t1"
    and guard: "ustates t = (ustates t1)(brk t1 := \<lparr>su_used = False, su_core = Some c, su_uninitialized = uninitializedInitiator\<rparr>)"
    and mem: "\<And>x. b \<le> x \<Longrightarrow> x \<noteq> Suc (brk t1) \<Longrightarrow> mem t x = mem t1 x"
  shows "initiator_ready t \<lparr>i_state = Some (brk t1)\<rparr> (brk t1) c st"
    and "\<forall>x \<in> initiator_owned t (brk t1). b \<le> x \<and> x \<noteq> Suc (brk t1)"
proof -
  note below = initiator_cells_lt [OF at]
  have c: "c < brk t1" using at by (simp add: initiator_at_def)
  have "mem t x = mem t1 x" if "x \<in> icore_cells (icores t1 c)" for x
    using mem [of x] bspec [OF owned, of x] below [of x] that by (simp add: icore_owned_def)
  then have "initiator_at t c st" by (intro initiator_at_mono [OF at]) (use assms in simp_all)
  then show "initiator_ready t \<lparr>i_state = Some (brk t1)\<rparr> (brk t1) c st" using assms by (simp add: initiator_ready_def)
  have "initiator_owned t (brk t1) = insert (brk t1) (insert c (icore_owned (icores t1 c)))"
    using assms by (simp add: initiator_owned_def)
  then show "\<forall>x \<in> initiator_owned t (brk t1). b \<le> x \<and> x \<noteq> Suc (brk t1)"
    using owned c assms(3,4) by (auto dest: below)
qed

lemma after_core:
  assumes "norm_of (mem s) ni = normal_form role v" and "valid_norm s ni" and "erases (ni_password ni) s t"
  shows "rd t (ni_sid ni) = iv_sid v" and "rd t (ni_ad ni) = iv_ad v"
proof -
  have "rd s (ni_sid ni) = nv_sid (norm_of (mem s) ni)" "rd s (ni_ad ni) = nv_ad (norm_of (mem s) ni)"
    by (simp_all add: norm_of_def)
  then have "rd s (ni_sid ni) = iv_sid v" "rd s (ni_ad ni) = iv_ad v"
    by (simp_all add: assms(1) normal_form_def Let_def)
  then show "rd t (ni_sid ni) = iv_sid v" "rd t (ni_ad ni) = iv_ad v"
    using assms(2) erases_rd [OF assms(3)] by (simp_all add: valid_norm_def)
qed

text \<open>The last steps of \<open>Start\<close>, from the core to message A.\<close>

lemma start_publishes:
  assumes "valid_input s input" and N: "normalizeInput input initiatorInputRole s = (Ok ni, t0)" and "valid_norm t0 ni"
    and er: "erases (ni_password ni) t0 t1" and V: "scrubs V t0 t1" "\<forall>x \<in> V. mem t1 x \<in> P"
    and at: "initiator_at t1 c st" "\<forall>x \<in> icore_owned (icores t1 c). brk t0 \<le> x" "brk t0 \<le> c"
    and U: "newSingleUseState (Some c) uninitializedInitiator t1 = (g, s1)" and A: "alloc msg s1 = (m, u)"
    and t: "t = normalizedInput_wipe ni u"
  shows "\<exists>a V. initiator_ready t \<lparr>i_state = g\<rparr> a c st \<and> valid t m \<and> rd t m = msg
    \<and> (\<forall>x \<in> initiator_owned t a. brk s \<le> x) \<and> (\<forall>x \<in> cells [m]. brk s \<le> x \<and> x \<notin> initiator_owned t a)
    \<and> scrubs V s t \<and> (\<forall>x \<in> V. mem t x \<in> insert (rd t m) P)"
    and "keeps {} s t \<and> frame s t \<and> scalars t = scalars t1 \<and> elements t = elements t1 \<and> icores t = icores t1"
proof -
  have pw: "valid t0 (ni_password ni)" using assms(3) by (simp add: valid_norm_def)
  note pub = publish_exit [OF assms(1) disjI1 [OF refl] N er V(1) pw U A t]
  show "keeps {} s t \<and> frame s t \<and> scalars t = scalars t1 \<and> elements t = elements t1 \<and> icores t = icores t1"
    using pub(1,5) by simp
  have f: "g = Some (brk t1)" "m = Some (Suc (brk t1))" "rd t m = msg" "brk t0 \<le> brk t1" "brk t = Suc (Suc (brk t1))"
      "scalars t = scalars t1" "icores t = icores t1"
      "ustates t = (ustates t1)(brk t1 := \<lparr>su_used = False, su_core = Some c, su_uninitialized = uninitializedInitiator\<rparr>)"
    using pub(1,4,5) by blast+
  note ready = initiator_published [OF at f(4-8) pub(3)]
  let ?V = "insert (Suc (brk t1)) (V \<inter> {x. brk t0 \<le> x \<and> x \<noteq> Suc (brk t1)})"
  have "mem t (Suc (brk t1)) = rd t m" using f(2) by simp
  then have "\<forall>x \<in> ?V. mem t x \<in> insert (rd t m) P" using V(2) pub(3) by auto
  moreover have "\<forall>x \<in> initiator_owned t (brk t1). brk s \<le> x" "\<forall>x \<in> cells [m]. brk s \<le> x \<and> x \<notin> initiator_owned t (brk t1)"
    using ready(2) pub(1) f(2) by fastforce+
  ultimately show "\<exists>a V. initiator_ready t \<lparr>i_state = g\<rparr> a c st \<and> valid t m \<and> rd t m = msg
    \<and> (\<forall>x \<in> initiator_owned t a. brk s \<le> x) \<and> (\<forall>x \<in> cells [m]. brk s \<le> x \<and> x \<notin> initiator_owned t a)
    \<and> scrubs V s t \<and> (\<forall>x \<in> V. mem t x \<in> insert (rd t m) P)"
    using ready(1) pub(2) f(1,3) by (intro exI [of _ "brk t1"] exI [of _ ?V]) (simp add: f(2,5))
qed

lemma start_contract:
  assumes "valid_input s input" and "uniform_law R" and "encoding_laws R"
    and "startWithRandom R rr input random s = (res, t)" and "v = inputs_of (mem s) input"
  shows "keeps {} s t \<and> frame s t \<and>
    (case res of
       Ok (i, msg) \<Rightarrow> acceptable v \<and> (\<exists>a c g y V.
           sampled R (random_source rr random) (rand s) = Ok y \<and> Scalar_Equal R y (NewScalar R) \<noteq> 1
         \<and> generator R (normal_form initiatorInputRole v) = Some g
         \<and> initiator_ready t i a c (start_state R v g y) \<and> valid t msg
         \<and> (\<forall>x \<in> initiator_owned t a. brk s \<le> x) \<and> (\<forall>x \<in> cells [msg]. brk s \<le> x \<and> x \<notin> initiator_owned t a)
         \<and> decodeMessageA (rd t msg) = Ok \<lparr>ma_sid = iv_sid v, ma_ya = scalarMult_bytes R y g, ma_ada = iv_ad v\<rparr>
         \<and> scrubs V s t \<and> (\<forall>x \<in> V. mem t x \<in> {rd t msg, iv_sid v, scalarMult_bytes R y g, iv_ad v, iv_peer v})
         \<and> (\<forall>x. scalars t x = scalars s x \<or> ic_scalar (icores t c) = Some x)
         \<and> (\<forall>x. elements t x = elements s x \<or> elements t x \<in> {NewIdentityElement R, Element_ScalarMult R y g}))
     | Err e \<Rightarrow> scrubs {} s t \<and> scalars t = scalars s
         \<and> (\<forall>x. elements t x = elements s x \<or> elements t x = NewIdentityElement R)
         \<and> (if acceptable v then sampled R (random_source rr random) (rand s) = Err e \<and> errors_Is e ErrRandomness
            else t = s \<and> input_error v = Some e)
     | Panic m \<Rightarrow> False)"
proof (cases "input_error v")
  case (Some e)
  then have "startWithRandom R rr input random s = (Err e, s)"
    using assms(5) by (simp add: startWithRandom_def normalizeStartInput_def normalizeInput_closed [OF assms(1)])
  then show ?thesis using assms(4) Some input_error_None [of v] by simp
next
  case None
  let ?role = initiatorInputRole
  have acc: "acceptable v" using None by (simp add: input_error_None)
  obtain ni t0 where N: "normalizeInput input ?role s = (Ok ni, t0)"
    using normalizeInput_accepts [OF assms(1) disjI1 [OF refl]] acc assms(5) by blast
  note step = normalizeInput_step [OF assms(1) disjI1 [OF refl] N]
  have norm: "norm_of (mem t0) ni = normal_form ?role v" and vn: "valid_norm t0 ni"
    using norm_slices_at [OF assms(1) disjI1 [OF refl] N, folded assms(5)]
      norm_slices_valid [OF assms(1) disjI1 [OF refl] N] by blast+
  obtain rc t1 where C: "newInitiatorCore R rr ni random t0 = (rc, t1)" by fastforce
  note core = newInitiatorCore_contract [OF assms(2) vn C norm [symmetric]]
  note exit = wipe_exit [OF assms(1) disjI1 [OF refl] N]
  have nv: "nv_sid (normal_form ?role v) = iv_sid v" "nv_ad (normal_form ?role v) = iv_ad v"
      "nv_responderID (normal_form ?role v) = iv_peer v"
    by (simp_all add: normal_form_def Let_def)
  note ni = after_core [OF norm vn conjunct1 [OF core]]
  show ?thesis
  proof (cases rc)
    case (Panic m)
    then show ?thesis using core by simp
  next
    case (Err e)
    then have res: "res = Err e" "t = normalizedInput_wipe ni t1"
      using assms(4) by (simp_all add: startWithRandom_def normalizeStartInput_def N C)
    have "erases (ni_password ni) t0 t1" "scrubs {} t0 t1" using core Err by simp_all
    note exit = exit [OF erasesD [OF this(1)] this(2)]
    show ?thesis
      using core step(5,6) Err exit acc by (simp add: res normalizedInput_wipe_closed)
  next
    case (Ok q)
    obtain p ya where q: "q = (p, ya)" by fastforce
    then obtain c g y V where c: "p = Some c" "brk t0 \<le> c" and g: "generator R (normal_form ?role v) = Some g"
      and y: "sampled R (random_source rr random) (rand s) = Ok y" "Scalar_Equal R y (NewScalar R) \<noteq> 1"
      and at: "initiator_at t1 c (start_state R v g y)" "\<forall>x \<in> icore_owned (icores t1 c). brk t0 \<le> x"
      and ya: "rd t1 ya = scalarMult_bytes R y g"
      and V: "scrubs V t0 t1" "\<forall>a \<in> V. mem t1 a \<in> {iv_sid v, scalarMult_bytes R y g, iv_ad v, iv_peer v}"
      and sc: "\<forall>x. scalars t1 x = scalars t0 x \<or> ic_scalar (icores t1 c) = Some x"
        "\<forall>x. elements t1 x = elements t0 x \<or> elements t1 x \<in> {NewIdentityElement R, Element_ScalarMult R y g}"
      using core Ok unfolding nv step(5) start_state_def by auto
    have er: "erases (ni_password ni) t0 t1" using core by simp
    let ?Y = "scalarMult_bytes R y g"
    obtain msg where msg: "encodeMessageA (iv_sid v) ?Y (iv_ad v) = Ok msg"
        "decodeMessageA msg = Ok \<lparr>ma_sid = iv_sid v, ma_ya = ?Y, ma_ada = iv_ad v\<rparr>"
      using message_A_ok [of "iv_sid v" ?Y "iv_ad v"] acc length_scalarMult [OF assms(3)] by (auto simp: acceptable_def)
    obtain st s1 where U: "newSingleUseState (Some c) uninitializedInitiator t1 = (st, s1)" by fastforce
    obtain m u where A: "alloc msg s1 = (m, u)" by fastforce
    have "mem s1 = mem t1" using newSingleUseState_contract [OF U] by simp
    then have res: "res = Ok (\<lparr>i_state = st\<rparr>, m)" "t = normalizedInput_wipe ni u"
      using assms(4) by (simp_all add: startWithRandom_def normalizeStartInput_def N C Ok q c(1) U ni ya msg A)
    note pub = start_publishes [OF assms(1) N vn er V at c(2) U A res(2)]
    obtain a W where out: "initiator_ready t \<lparr>i_state = st\<rparr> a c (start_state R v g y)" "valid t m" "rd t m = msg"
        "\<forall>x \<in> initiator_owned t a. brk s \<le> x" "\<forall>x \<in> cells [m]. brk s \<le> x \<and> x \<notin> initiator_owned t a"
        "scrubs W s t" "\<forall>x \<in> W. mem t x \<in> {rd t m, iv_sid v, ?Y, iv_ad v, iv_peer v}"
      using pub(1) by blast
    have "decodeMessageA (rd t m) = Ok \<lparr>ma_sid = iv_sid v, ma_ya = ?Y, ma_ada = iv_ad v\<rparr>"
      unfolding out(3) by (rule msg(2))
    moreover have "\<forall>x. scalars t x = scalars s x \<or> ic_scalar (icores t c) = Some x"
        "\<forall>x. elements t x = elements s x \<or> elements t x \<in> {NewIdentityElement R, Element_ScalarMult R y g}"
      using pub(2) sc step(6) by simp_all
    ultimately show ?thesis
      using out pub(2) acc y g unfolding res(1) go.case prod.case by blast
  qed
qed

section \<open>Contract of \<open>Respond\<close>\<close>

lemma leaves_erases:
  assumes "leaves A E W s t" and "erases pw t u" and "valid s pw"
  shows "erases pw s u"
proof -
  have b: "brk s \<le> brk t" by (rule leaves_brk [OF assms(1)])
  have "rd t pw = rd s pw" by (rule leaves_rd [OF assms(1,3)])
  then have "mem u a = zeros (mem s a)" if "pw = Some a" for a using assms(2) that by (simp add: erases_def)
  moreover have "keeps (cells [pw]) s u" using assms(1,2) b by (auto simp: leaves_def erases_def keeps_def)
  moreover have "frame s u" using frame_trans [OF leaves_frame [OF assms(1)] _ b] assms(2) by (simp add: erases_def)
  ultimately show ?thesis by (simp add: erases_def)
qed

text \<open>The two fields of message A that the core uses.\<close>

lemma alloc_fields:
  assumes "alloc x s = (p, s1)" and "alloc y s1 = (q, t)"
  shows "p = Some (brk s)" and "q = Some (Suc (brk s))" and "brk t = Suc (Suc (brk s))"
    and "allocates {brk s, Suc (brk s)} s t" and "rd t p = x" and "rd t q = y" and "valid t p" and "valid t q"
  using assms by (auto simp: alloc_closed allocates_def keeps_def scrubs_def)

text \<open>
  \<open>Respond\<close> on values: the checks in their order, and what the bytes left by a rejected call may be.
\<close>

definition respond_result ::
  "('s, 'e) ristretto \<Rightarrow> norm \<Rightarrow> messageA \<Rightarrow> 's result \<Rightarrow> responder_state result" where
  "respond_result R v a sample =
     (if ma_sid a \<noteq> nv_sid v then Err (errorf ErrMessage ''session id mismatch'')
      else case decoded_share R initiatorPeerShare (ma_ya a) of
        Err e \<Rightarrow> Err e
      | Panic m \<Rightarrow> Panic m
      | Ok p \<Rightarrow>
          (case (generator R v, sample) of
             (None, _) \<Rightarrow> Panic ''cpace: SHA-512 output rejected by Ristretto255 SetUniformBytes''
           | (Some g, Err e) \<Rightarrow> Err e
           | (Some g, Panic m) \<Rightarrow> Panic m
           | (Some g, Ok y) \<Rightarrow>
               if scalarMult_bytes R y p = replicate 32 0 then Err (errorf ErrAbort ''neutral-element shared secret'')
               else Ok (respond_state v (ma_ya a) (ma_ada a) (scalarMult_bytes R y g) (scalarMult_bytes R y p))))"

definition rejected_residue :: "('s, 'e) ristretto \<Rightarrow> norm \<Rightarrow> messageA \<Rightarrow> 's result \<Rightarrow> bytes set" where
  "rejected_residue R v a sample =
     {ma_ya a, ma_ada a} \<union> {b. \<exists>g y. generator R v = Some g \<and> sample = Ok y \<and> b = scalarMult_bytes R y g}"

text \<open>A group element from whose encoding, with public values, the session key is computed.\<close>

definition derives_key :: "('s, 'e) ristretto \<Rightarrow> 'e \<Rightarrow> responder_state \<Rightarrow> bool" where
  "derives_key R k st \<longleftrightarrow> rs_isk st = ISK_value (rs_sid st) (Element_Bytes R k)
     (transcript_value (rs_ya st) (rs_ada st) (rs_yb st) (rs_adb st))"

lemma respond_result_Ok:
  "respond_result R v a sample = Ok st \<Longrightarrow>
    \<exists>g y p. st = respond_state v (ma_ya a) (ma_ada a) (scalarMult_bytes R y g) (scalarMult_bytes R y p)"
  by (auto simp: respond_result_def split: if_splits go.splits option.splits)

lemma responder_at_cells:
  assumes "responder_at s c st" and "x \<in> rcore_cells (rcores s c)"
  shows "x < brk s"
proof (cases "x \<in> transcript_cells (rc_transcript (rcores s c))")
  case True
  then show ?thesis using assms(1) transcript_cells_lt [of s] by (simp add: responder_at_def) blast
next
  case False
  then have "x \<in> cells [rc_isk (rcores s c), rc_sid (rcores s c), rc_peerID (rcores s c)]"
    using assms(2) by (simp add: rcore_cells_def)
  then show ?thesis by (rule cells_lt [rotated]) (use assms(1) in \<open>auto simp: responder_at_def valid_def\<close>)
qed

lemma responder_published:
  assumes at: "responder_at t1 c st" and owned: "\<forall>x \<in> rcore_cells (rcores t1 c). b \<le> x" and "b \<le> c" "b \<le> brk t1"
    and "brk t = Suc (Suc (brk t1))" and "rcores t = rcores t1"
    and guard: "ustates t = (ustates t1)(brk t1 := \<lparr>su_used = False, su_core = Some c, su_uninitialized = uninitializedResponder\<rparr>)"
    and mem: "\<And>x. b \<le> x \<Longrightarrow> x \<noteq> Suc (brk t1) \<Longrightarrow> mem t x = mem t1 x"
  shows "responder_ready t \<lparr>r_state = Some (brk t1)\<rparr> (brk t1) c st"
    and "\<forall>x \<in> responder_owned t (brk t1). b \<le> x \<and> x \<noteq> Suc (brk t1)"
proof -
  note below = responder_at_cells [OF at]
  have c: "c < brk t1" using at by (simp add: responder_at_def)
  have "mem t x = mem t1 x" if "x \<in> rcore_cells (rcores t1 c)" for x
    using mem [of x] bspec [OF owned, of x] below [of x] that by simp
  then have "responder_at t c st" by (intro responder_at_mono [OF at]) (use assms in simp_all)
  then show "responder_ready t \<lparr>r_state = Some (brk t1)\<rparr> (brk t1) c st" using assms by (simp add: responder_ready_def)
  have "responder_owned t (brk t1) = insert (brk t1) (insert c (rcore_cells (rcores t1 c)))"
    using assms by (simp add: responder_owned_def)
  then show "\<forall>x \<in> responder_owned t (brk t1). b \<le> x \<and> x \<noteq> Suc (brk t1)"
    using owned c assms(3,4) by (auto dest: below)
qed

lemma generator_total: "uniform_law R \<Longrightarrow> \<exists>g. generator R v = Some g"
  by (auto simp: generator_def uniform_law_def)

text \<open>
  The core part, from the result of \<open>normalizeInput\<close> to the core, before the wipe: the decoding of the share, what the
  core leaves alone, then its result for a share that decodes, then both together.
\<close>

lemma respond_decoded:
  assumes vn: "valid_norm s ni" and A: "alloc (ma_ya a) s = (ya, s1)" "alloc (ma_ada a) s1 = (ada, s2)"
    and call: "newResponderCore R rr ni ya ada random s2 = (res, t)"
  shows "\<exists>u q. leaves {} (decoded_elements R (ma_ya a)) {brk s, Suc (brk s)} s u \<and> valid_norm u ni
    \<and> norm_of (mem u) ni = norm_of (mem s) ni \<and> valid u ya \<and> valid u ada \<and> ni_password ni \<notin> {ya, ada}
    \<and> rd u ya = ma_ya a \<and> rd u ada = ma_ada a \<and> ya = Some (brk s) \<and> ada = Some (Suc (brk s))
    \<and> (case decoded_share R initiatorPeerShare (ma_ya a) of
         Err e \<Rightarrow> res = Err e \<and> t = u
       | Panic m \<Rightarrow> False
       | Ok p \<Rightarrow> newResponderCore_accepted R ni ya ada (Some q) (random_source rr random) u = (res, t) \<and> q < brk u \<and> elements u q = p)"
proof -
  note f = alloc_fields [OF A]
  have vn2: "valid_norm s2 ni" and nm: "norm_of (mem s2) ni = norm_of (mem s) ni"
    using vn by (simp_all add: valid_norm_def norm_of_def allocates_valid [OF f(4)] allocates_rd [OF f(4)])
  have pw: "ni_password ni \<notin> {ya, ada}" using vn f(1,2) by (auto simp: valid_norm_def valid_def)
  obtain q u where D: "role_decode R initiatorPeerShare (rd s2 ya) s2 = (q, u)" by fastforce
  note core = newResponderCore_contract [OF vn2 f(7,8) call refl D, unfolded f(5,6)]
  have "leaves {} (decoded_elements R (ma_ya a)) ({brk s, Suc (brk s)} \<union> {}) s u"
    by (rule leaves_trans [OF allocates_leaves [OF f(4)] conjunct1 [OF core]])
  then show ?thesis using core nm pw f(1,2) by (intro exI [of _ u] exI [of _ "brk s2"]) simp
qed

definition respond_elements :: "('s, 'e) ristretto \<Rightarrow> norm \<Rightarrow> bytes \<Rightarrow> 's result \<Rightarrow> 'e set" where
  "respond_elements R v b sample =
     decoded_elements R b \<union> {e. \<exists>p. share R b = Some p \<and> e \<in> respond_products R v p sample}"

lemma respond_core_base:
  assumes "uniform_law R" and "valid_norm s ni" and "alloc (ma_ya a) s = (ya, s1)" and "alloc (ma_ada a) s1 = (ada, s2)"
    and "v = norm_of (mem s) ni" and "newResponderCore R rr ni ya ada random s2 = (res, t)"
  shows "keeps (cells [ni_password ni]) s t \<and> frame s t \<and> icores t = icores s \<and> ustates t = ustates s
    \<and> (\<forall>x. elements t x = elements s x
         \<or> elements t x \<in> respond_elements R v (ma_ya a) (sampled R (random_source rr random) (rand s)))
    \<and> (\<forall>x. scalars t x = scalars s x \<or> scalars t x = NewScalar R)
    \<and> (rand t = rand s \<or> (\<exists>p. share R (ma_ya a) = Some p))
    \<and> (case decoded_share R initiatorPeerShare (ma_ya a) of Ok p \<Rightarrow> erases (ni_password ni) s t | Err e \<Rightarrow> True | Panic m \<Rightarrow> False)"
proof -
  obtain u q where u: "leaves {} (decoded_elements R (ma_ya a)) {brk s, Suc (brk s)} s u" "valid_norm u ni"
      "norm_of (mem u) ni = norm_of (mem s) ni" "valid u ya" "valid u ada" "ni_password ni \<notin> {ya, ada}"
    and out: "case decoded_share R initiatorPeerShare (ma_ya a) of
         Err e \<Rightarrow> res = Err e \<and> t = u
       | Panic m \<Rightarrow> False
       | Ok p \<Rightarrow> newResponderCore_accepted R ni ya ada (Some q) (random_source rr random) u = (res, t) \<and> q < brk u \<and> elements u q = p"
    using respond_decoded [OF assms(2-4,6)] by auto
  have pw: "valid s (ni_password ni)" using assms(2) by (simp add: valid_norm_def)
  note same = leaves_same [OF u(1)]
  have els: "\<forall>x. elements u x = elements s x \<or> elements u x \<in> respond_elements R v (ma_ya a) sample" for sample
    using u(1) by (auto simp: leaves_def respond_elements_def)
  show ?thesis
  proof (cases "decoded_share R initiatorPeerShare (ma_ya a)")
    case (Panic m)
    then show ?thesis by (simp add: decoded_share_total)
  next
    case (Err e)
    then show ?thesis using out same els leaves_frame [OF u(1)] by (simp add: keeps_def)
  next
    case (Ok p)
    then have sh: "share R (ma_ya a) = Some p" by (simp add: decoded_share_Ok_iff)
    have acc: "newResponderCore_accepted R ni ya ada (Some q) (random_source rr random) u = (res, t)" "q < brk u" "elements u q = p"
      using out Ok by simp_all
    note core = newResponderCore_accepted_contract [OF assms(1) u(2,4-6) acc(1) refl acc(2,3), unfolded u(3) assms(5) [symmetric]]
    have er: "erases (ni_password ni) s t" by (rule leaves_erases [OF u(1) _ pw]) (use core in blast)
    have "\<forall>x. elements t x = elements s x
        \<or> elements t x \<in> respond_elements R v (ma_ya a) (sampled R (random_source rr random) (rand s))"
    proof
      fix x
      have "elements t x = elements u x
          \<or> elements t x \<in> insert (NewIdentityElement R) (respond_products R v p (sampled R (random_source rr random) (rand s)))"
        using core same by simp
      then show "elements t x = elements s x
          \<or> elements t x \<in> respond_elements R v (ma_ya a) (sampled R (random_source rr random) (rand s))"
        using els [of "sampled R (random_source rr random) (rand s)"] sh
        by (auto simp: respond_elements_def decoded_elements_def)
    qed
    then show ?thesis using core er sh Ok same by (simp add: erases_def)
  qed
qed

lemma respond_core_share:
  assumes "uniform_law R" and "valid_norm s ni" and "alloc (ma_ya a) s = (ya, s1)" and "alloc (ma_ada a) s1 = (ada, s2)"
    and "ma_sid a = nv_sid v" and "v = norm_of (mem s) ni"
    and "newResponderCore R rr ni ya ada random s2 = (res, t)"
  shows "case respond_result R v a (sampled R (random_source rr random) (rand s)) of
         Err e \<Rightarrow> res = Err e \<and> (\<exists>W. scrubs W s t
           \<and> (\<forall>x \<in> W. mem t x \<in> rejected_residue R v a (sampled R (random_source rr random) (rand s))))
       | Panic m \<Rightarrow> False
       | Ok st \<Rightarrow> \<exists>c yb n W. res = Ok (Some c, yb, Some n) \<and> mem t n = tag_value (rs_isk st) (rs_sid st) (rs_yb st) (rs_adb st)
           \<and> rd t yb = rs_yb st \<and> responder_at t c st \<and> brk s \<le> c \<and> (\<forall>x \<in> rcore_cells (rcores t c). brk s \<le> x)
           \<and> scrubs W s t \<and> (\<forall>x \<in> W. rc_isk (rcores t c) = Some x \<or> mem t x \<in> core_residue st)
           \<and> (\<exists>x. brk s \<le> x \<and> x < brk t \<and> derives_key R (elements t x) st)"
proof -
  let ?y = "sampled R (random_source rr random) (rand s)" and ?F = "{brk s, Suc (brk s)}"
  obtain u q where u: "leaves {} (decoded_elements R (ma_ya a)) ?F s u" "valid_norm u ni"
      "norm_of (mem u) ni = norm_of (mem s) ni" "valid u ya" "valid u ada" "ni_password ni \<notin> {ya, ada}"
      "rd u ya = ma_ya a" "rd u ada = ma_ada a" "ya = Some (brk s)" "ada = Some (Suc (brk s))"
    and out: "case decoded_share R initiatorPeerShare (ma_ya a) of
         Err e \<Rightarrow> res = Err e \<and> t = u
       | Panic m \<Rightarrow> False
       | Ok p \<Rightarrow> newResponderCore_accepted R ni ya ada (Some q) (random_source rr random) u = (res, t) \<and> q < brk u \<and> elements u q = p"
    using respond_decoded [OF assms(2-4,7)] by blast
  have rnd: "rand u = rand s" and b: "brk s \<le> brk u" using leaves_same [OF u(1)] leaves_brk [OF u(1)] by simp_all
  have al: "scrubs ?F s u" using leaves_scrubs [OF u(1)] by (auto intro: scrubs_mono)
  show ?thesis
  proof (cases "decoded_share R initiatorPeerShare (ma_ya a)")
    case (Panic m)
    then show ?thesis by (simp add: decoded_share_total)
  next
    case (Err e)
    then have "res = Err e" "t = u" using out by simp_all
    moreover have "\<forall>x \<in> ?F. mem u x \<in> rejected_residue R v a ?y" using u(7-10) by (simp add: rejected_residue_def)
    moreover have "respond_result R v a ?y = Err e" using Err assms(5) by (simp add: respond_result_def)
    ultimately show ?thesis using al by auto
  next
    case (Ok p)
    then have acc: "newResponderCore_accepted R ni ya ada (Some q) (random_source rr random) u = (res, t)" "q < brk u" "elements u q = p"
      using out by simp_all
    note core = newResponderCore_accepted_contract [OF assms(1) u(2,4-6) acc(1) refl acc(2,3),
        unfolded u(3,7,8) assms(6) [symmetric] rnd]
    have er2: "erases (ni_password ni) u t" using core by blast
    have pw: "valid u (ni_password ni)" using u(2) by (simp add: valid_norm_def)
    note sc = erases_scrubs [OF er2 al _ b pw]
    have old: "mem t (brk s) = ma_ya a" "mem t (Suc (brk s)) = ma_ada a"
      using erases_rd [OF er2 u(4)] erases_rd [OF er2 u(5)] u(6-10) by auto
    obtain g where g: "generator R v = Some g" using generator_total [OF assms(1)] by blast
    show ?thesis
    proof (cases ?y)
      case (Panic m)
      then show ?thesis using core by simp
    next
      case (Err e)
      then have "res = Err e" "scrubs {} u t" using core by simp_all
      moreover have "\<forall>x \<in> ?F \<union> {}. mem t x \<in> rejected_residue R v a ?y" using old by (simp add: rejected_residue_def)
      moreover have "respond_result R v a ?y = Err e" using Err Ok g assms(5) by (simp add: respond_result_def)
      ultimately show ?thesis using sc [of "{}"] by auto
    next
      case y: (Ok y)
      show ?thesis
      proof (cases "scalarMult_bytes R y p = replicate 32 0")
        case True
        then obtain V where V: "res = Err (errorf ErrAbort ''neutral-element shared secret'')" "scrubs V u t"
            "\<forall>a \<in> V. mem t a = scalarMult_bytes R y g"
          using core y g by auto
        have "\<forall>x \<in> ?F \<union> V. mem t x \<in> rejected_residue R v a ?y"
          using old V(3) g y by (auto simp: rejected_residue_def)
        moreover have "respond_result R v a ?y = Err (errorf ErrAbort ''neutral-element shared secret'')"
          using y Ok g assms(5) True by (simp add: respond_result_def)
        ultimately show ?thesis using V(1) sc [OF V(2)] by (simp only: go.case) blast
      next
        case False
        let ?st = "respond_state v (ma_ya a) (ma_ada a) (scalarMult_bytes R y g) (scalarMult_bytes R y p)"
        obtain c yb n V x where V: "res = Ok (Some c, yb, Some n)" "mem t n = tag_value (rs_isk ?st) (rs_sid ?st) (rs_yb ?st) (rs_adb ?st)"
            "rd t yb = rs_yb ?st" "responder_at t c ?st" "brk u \<le> c" "\<forall>x \<in> rcore_cells (rcores t c). brk u \<le> x" "scrubs V u t"
            "\<forall>a \<in> V. rc_isk (rcores t c) = Some a \<or> mem t a \<in> core_residue ?st"
            "brk u \<le> x \<and> x < brk t" "Element_Bytes R (elements t x) = scalarMult_bytes R y p"
          using core y g False by (auto simp: Let_def)
        have st: "rs_ya ?st = ma_ya a" "rs_ada ?st = ma_ada a" by (simp_all add: respond_state_def)
        have "\<forall>x \<in> ?F \<union> V. rc_isk (rcores t c) = Some x \<or> mem t x \<in> core_residue ?st"
          using old V(8) by (auto simp: core_residue_def public_values_def st)
        moreover have "brk s \<le> c" "\<forall>x \<in> rcore_cells (rcores t c). brk s \<le> x" using V(5,6) b by auto
        moreover have "\<exists>x. brk s \<le> x \<and> x < brk t \<and> derives_key R (elements t x) ?st"
          using V(9,10) b by (intro exI [of _ x]) (simp add: derives_key_def respond_state_def)
        moreover note V(1-4) sc [OF V(7)]
        moreover have result: "respond_result R v a ?y = Ok ?st" using y Ok g assms(5) False by (simp add: respond_result_def)
        ultimately show ?thesis
          unfolding result go.case
          by (intro exI [of _ c] exI [of _ yb] exI [of _ n] exI [of _ "?F \<union> V"]) (intro conjI; assumption)
      qed
    qed
  qed
qed

definition respond_spec ::
  "('s, 'e) ristretto \<Rightarrow> 'r reader \<Rightarrow> inputs \<Rightarrow> bytes \<Rightarrow> 'r \<Rightarrow> responder_state result" where
  "respond_spec R rdr v msg w =
     (case input_error v of
        Some e \<Rightarrow> Err e
      | None \<Rightarrow>
          (case decodeMessageA msg of
             Err e \<Rightarrow> Err e
           | Panic m \<Rightarrow> Panic m
           | Ok a \<Rightarrow> respond_result R (normal_form responderInputRole v) a (sampled R rdr w)))"

text \<open>The bytes that a rejected message may leave behind: its own fields, and the discarded own share.\<close>

definition respond_residue ::
  "('s, 'e) ristretto \<Rightarrow> 'r reader \<Rightarrow> inputs \<Rightarrow> bytes \<Rightarrow> 'r \<Rightarrow> bytes set" where
  "respond_residue R rdr v msg w =
     (case decodeMessageA msg of
        Ok a \<Rightarrow> rejected_residue R (normal_form responderInputRole v) a (sampled R rdr w)
      | Err e \<Rightarrow> {}
      | Panic m \<Rightarrow> {})"

text \<open>And the group elements that it may drop: the decoded share, its own share, and the shared secret.\<close>

definition respond_dropped ::
  "('s, 'e) ristretto \<Rightarrow> 'r reader \<Rightarrow> inputs \<Rightarrow> bytes \<Rightarrow> 'r \<Rightarrow> 'e set" where
  "respond_dropped R rdr v msg w =
     (case decodeMessageA msg of
        Ok a \<Rightarrow> respond_elements R (normal_form responderInputRole v) (ma_ya a) (sampled R rdr w)
      | Err e \<Rightarrow> {}
      | Panic m \<Rightarrow> {})"

text \<open>The last steps of \<open>Respond\<close>, from the core to message B.\<close>

lemma respond_publishes:
  assumes "valid_input s input" and N: "normalizeInput input responderInputRole s = (Ok ni, t0)" and "valid_norm t0 ni"
    and er: "erases (ni_password ni) t0 t1" and W: "scrubs W t0 t1"
      "\<forall>x \<in> W. rc_isk (rcores t1 c) = Some x \<or> mem t1 x \<in> core_residue st"
    and at: "responder_at t1 c st" "\<forall>x \<in> rcore_cells (rcores t1 c). brk t0 \<le> x" "brk t0 \<le> c"
    and U: "newSingleUseState (Some c) uninitializedResponder t1 = (g, s3)" and A: "alloc msg s3 = (m, u)"
    and t: "t = normalizedInput_wipe ni u"
  shows "\<exists>a V. responder_ready t \<lparr>r_state = g\<rparr> a c st \<and> valid t m \<and> rd t m = msg
    \<and> (\<forall>x \<in> responder_owned t a. brk s \<le> x) \<and> (\<forall>x \<in> cells [m]. brk s \<le> x \<and> x \<notin> responder_owned t a)
    \<and> scrubs V s t \<and> (\<forall>x \<in> V. rc_isk (rcores t c) = Some x \<or> mem t x \<in> insert (rd t m) (core_residue st))"
    and "keeps {} s t \<and> frame s t \<and> scalars t = scalars t1 \<and> elements t = elements t1 \<and> rand t = rand t1 \<and> brk t1 \<le> brk t"
proof -
  have pw: "valid t0 (ni_password ni)" using assms(3) by (simp add: valid_norm_def)
  note pub = publish_exit [OF assms(1) disjI2 [OF refl] N er W(1) pw U A t]
  show "keeps {} s t \<and> frame s t \<and> scalars t = scalars t1 \<and> elements t = elements t1 \<and> rand t = rand t1 \<and> brk t1 \<le> brk t"
    using pub(1,4,5) by simp
  have f: "g = Some (brk t1)" "m = Some (Suc (brk t1))" "rd t m = msg" "brk t0 \<le> brk t1" "brk t = Suc (Suc (brk t1))"
      "rcores t = rcores t1" "ustates t = (ustates t1)(brk t1 := \<lparr>su_used = False, su_core = Some c, su_uninitialized = uninitializedResponder\<rparr>)"
    using pub(1,4,5) by blast+
  note ready = responder_published [OF at f(4-7) pub(3)]
  let ?V = "insert (Suc (brk t1)) (W \<inter> {x. brk t0 \<le> x \<and> x \<noteq> Suc (brk t1)})"
  have "mem t (Suc (brk t1)) = rd t m" using f(2) by simp
  then have "rc_isk (rcores t c) = Some x \<or> mem t x \<in> insert (rd t m) (core_residue st)" if "x \<in> ?V" for x
    using that W(2) pub(3) [of x] by (auto simp: f(6))
  moreover have "\<forall>x \<in> responder_owned t (brk t1). brk s \<le> x" "\<forall>x \<in> cells [m]. brk s \<le> x \<and> x \<notin> responder_owned t (brk t1)"
    using ready(2) pub(1) f(2) by fastforce+
  ultimately show "\<exists>a V. responder_ready t \<lparr>r_state = g\<rparr> a c st \<and> valid t m \<and> rd t m = msg
    \<and> (\<forall>x \<in> responder_owned t a. brk s \<le> x) \<and> (\<forall>x \<in> cells [m]. brk s \<le> x \<and> x \<notin> responder_owned t a)
    \<and> scrubs V s t \<and> (\<forall>x \<in> V. rc_isk (rcores t c) = Some x \<or> mem t x \<in> insert (rd t m) (core_residue st))"
    using ready(1) pub(2) f(1,3) by (intro exI [of _ "brk t1"] exI [of _ ?V]) (simp add: f(2,5))
qed

lemma respond_completes:
  fixes s :: "('s, 'e, 'r) store"
  assumes "valid_input s input" and "uniform_law R" and "encoding_laws R" and acc: "acceptable v"
    and N: "normalizeInput input responderInputRole s = (Ok ni, t0)"
    and norm: "normal_form responderInputRole v = norm_of (mem t0) ni" and vn: "valid_norm t0 ni"
    and A1: "alloc (ma_ya a) t0 = (ya, s1)" and A2: "alloc (ma_ada a) s1 = (ada, s2)" and eq: "ma_sid a = iv_sid v"
    and C: "newResponderCore R rr ni ya ada random s2 = (rc, t1)"
    and call: "(case rc of
          Err e \<Rightarrow> (Err e, normalizedInput_wipe ni t1)
        | Panic m \<Rightarrow> (Panic m, normalizedInput_wipe ni t1)
        | Ok (core, yb, tagB) \<Rightarrow>
            (let (st, s) = newSingleUseState core uninitializedResponder t1
             in case encodeMessageB (rd s yb) (rd s (ni_ad ni)) (rd s tagB) of
                  Err e \<Rightarrow> (Err e, normalizedInput_wipe ni s)
                | Panic m \<Rightarrow> (Panic m, normalizedInput_wipe ni s)
                | Ok msg \<Rightarrow> (let (msg, s) = alloc msg s in (Ok (\<lparr>r_state = st\<rparr>, msg), normalizedInput_wipe ni s)))) = (res, t)"
  shows "keeps {} s t \<and> frame s t
    \<and> (\<forall>x. elements t x = elements s x \<or> elements t x \<in> respond_elements R (normal_form responderInputRole v) (ma_ya a)
         (sampled R (random_source rr random) (rand s)))
    \<and> (\<forall>x. scalars t x = scalars s x \<or> scalars t x = NewScalar R)
    \<and> (rand t = rand s \<or> (\<exists>p. share R (ma_ya a) = Some p))
    \<and> (case respond_result R (normal_form responderInputRole v) a (sampled R (random_source rr random) (rand s)) of
         Err e \<Rightarrow> res = Err e \<and> (\<exists>W. scrubs W s t
           \<and> (\<forall>x \<in> W. mem t x \<in> rejected_residue R (normal_form responderInputRole v) a (sampled R (random_source rr random) (rand s))))
       | Panic m \<Rightarrow> False
       | Ok st \<Rightarrow> \<exists>r msg a c V. res = Ok (r, msg) \<and> responder_ready t r a c st \<and> valid t msg
           \<and> (\<forall>x \<in> responder_owned t a. brk s \<le> x) \<and> (\<forall>x \<in> cells [msg]. brk s \<le> x \<and> x \<notin> responder_owned t a)
           \<and> decodeMessageB (rd t msg) = Ok \<lparr>mb_yb = rs_yb st, mb_adb = rs_adb st,
                mb_tag = tag_value (rs_isk st) (rs_sid st) (rs_yb st) (rs_adb st)\<rparr>
           \<and> scrubs V s t \<and> (\<forall>x \<in> V. rc_isk (rcores t c) = Some x \<or> mem t x \<in> insert (rd t msg) (core_residue st))
           \<and> (\<exists>x. brk s \<le> x \<and> x < brk t \<and> derives_key R (elements t x) st))"
proof -
  let ?role = responderInputRole and ?rdr = "random_source rr random"
  note step = normalizeInput_step [OF assms(1) disjI2 [OF refl] N]
  have nv: "nv_sid (normal_form ?role v) = iv_sid v" "nv_ad (normal_form ?role v) = iv_ad v"
    by (simp_all add: normal_form_def Let_def)
  have sid: "ma_sid a = nv_sid (normal_form ?role v)" using eq nv(1) by simp
  note core = respond_core_share [OF assms(2) vn A1 A2 sid norm C, unfolded step(5)]
    and base = respond_core_base [OF assms(2) vn A1 A2 norm C, unfolded step(5)]
  have rnd: "rand t1 = rand s \<or> (\<exists>p. share R (ma_ya a) = Some p)" using base by blast
  have objs: "\<forall>x. elements t1 x = elements s x \<or> elements t1 x \<in> respond_elements R (normal_form ?role v) (ma_ya a)
        (sampled R ?rdr (rand s))"
      "\<forall>x. scalars t1 x = scalars s x \<or> scalars t1 x = NewScalar R"
    using base step(6) by simp_all
  have frames: "keeps (cells [ni_password ni]) t0 t1" "frame t0 t1" and b0: "brk s \<le> brk t0"
    using base step(1) by (simp_all add: keeps_def)
  show ?thesis
  proof (cases "respond_result R (normal_form ?role v) a (sampled R ?rdr (rand s))")
    case (Panic m)
    then show ?thesis using core by simp
  next
    case (Err e)
    let ?P = "rejected_residue R (normal_form ?role v) a (sampled R ?rdr (rand s))"
    obtain W where W: "rc = Err e" "scrubs W t0 t1" "\<forall>x \<in> W. mem t1 x \<in> ?P" using core Err by auto
    have res: "res = Err e" "t = normalizedInput_wipe ni t1" using call W(1) by simp_all
    note rest = wipe_exit_rest [OF assms(1) disjI2 [OF refl] N frames W(2) res(2)]
    have "\<exists>W. scrubs W s t \<and> (\<forall>x \<in> W. mem t x \<in> ?P)"
      using rest(2,3) W(3) by (intro exI [of _ "{x \<in> W. x \<notin> ni_cells ni}"]) simp
    then show ?thesis using rest(1) objs rnd by (simp add: res Err)
  next
    case st: (Ok st)
    let ?tag = "tag_value (rs_isk st) (rs_sid st) (rs_yb st) (rs_adb st)"
    obtain c yb n W x where W: "rc = Ok (Some c, yb, Some n)" "rd t1 yb = rs_yb st" "responder_at t1 c st"
        "\<forall>x \<in> rcore_cells (rcores t1 c). brk t0 \<le> x" "scrubs W t0 t1"
        "\<forall>x \<in> W. rc_isk (rcores t1 c) = Some x \<or> mem t1 x \<in> core_residue st" "brk t0 \<le> c" "mem t1 n = ?tag"
        "brk t0 \<le> x \<and> x < brk t1" "derives_key R (elements t1 x) st"
      using core unfolding st go.case by blast
    have "\<exists>p. decoded_share R initiatorPeerShare (ma_ya a) = Ok p"
      using st by (auto simp: respond_result_def split: if_splits go.splits)
    then have er: "erases (ni_password ni) t0 t1" using base by auto
    have st': "rs_adb st = iv_ad v" "length (rs_yb st) = 32"
      using respond_result_Ok [OF st] nv(2) length_scalarMult [OF assms(3)] by (auto simp: respond_state_def)
    have ad: "rd t1 (ni_ad ni) = iv_ad v"
      using erases_rd [OF er, of "ni_ad ni"] vn norm nv(2) by (simp add: valid_norm_def norm_of_def)
    obtain msg where msg: "encodeMessageB (rs_yb st) (iv_ad v) ?tag = Ok msg"
        "decodeMessageB msg = Ok \<lparr>mb_yb = rs_yb st, mb_adb = rs_adb st, mb_tag = ?tag\<rparr>"
      using message_B_ok [of "rs_yb st" "iv_ad v" ?tag] acc st' by (auto simp: acceptable_def)
    obtain g s3 where U: "newSingleUseState (Some c) uninitializedResponder t1 = (g, s3)" by fastforce
    obtain m u where A: "alloc msg s3 = (m, u)" by fastforce
    have "mem s3 = mem t1" using newSingleUseState_contract [OF U] by simp
    then have res: "res = Ok (\<lparr>r_state = g\<rparr>, m)" "t = normalizedInput_wipe ni u"
      using call by (simp_all add: W(1,2,8) U ad msg(1) A)
    note pub = respond_publishes [OF assms(1) N vn er W(5,6,3,4,7) U A res(2)]
    obtain a V where out: "responder_ready t \<lparr>r_state = g\<rparr> a c st" "valid t m" "rd t m = msg"
        "\<forall>x \<in> responder_owned t a. brk s \<le> x" "\<forall>x \<in> cells [m]. brk s \<le> x \<and> x \<notin> responder_owned t a"
        "scrubs V s t" "\<forall>x \<in> V. rc_isk (rcores t c) = Some x \<or> mem t x \<in> insert (rd t m) (core_residue st)"
      using pub(1) by blast
    have "decodeMessageB (rd t m) = Ok \<lparr>mb_yb = rs_yb st, mb_adb = rs_adb st, mb_tag = ?tag\<rparr>"
      unfolding out(3) by (rule msg(2))
    moreover have "\<exists>x. brk s \<le> x \<and> x < brk t \<and> derives_key R (elements t x) st"
      using W(9,10) b0 pub(2) by (intro exI [of _ x]) simp
    ultimately have "\<exists>r msg a c V. res = Ok (r, msg) \<and> responder_ready t r a c st \<and> valid t msg
         \<and> (\<forall>x \<in> responder_owned t a. brk s \<le> x) \<and> (\<forall>x \<in> cells [msg]. brk s \<le> x \<and> x \<notin> responder_owned t a)
         \<and> decodeMessageB (rd t msg) = Ok \<lparr>mb_yb = rs_yb st, mb_adb = rs_adb st, mb_tag = ?tag\<rparr>
         \<and> scrubs V s t \<and> (\<forall>x \<in> V. rc_isk (rcores t c) = Some x \<or> mem t x \<in> insert (rd t msg) (core_residue st))
         \<and> (\<exists>x. brk s \<le> x \<and> x < brk t \<and> derives_key R (elements t x) st)"
      using res(1) out by blast
    then show ?thesis using pub(2) objs rnd by (simp add: st)
  qed
qed

lemma respond_contract:
  assumes "valid_input s input" and "valid s messageA" and "uniform_law R" and "encoding_laws R"
    and "respondWithRandom R rr input messageA random s = (res, t)" and "v = inputs_of (mem s) input"
  shows "keeps {} s t \<and> frame s t
    \<and> (\<forall>x. elements t x = elements s x
         \<or> elements t x \<in> respond_dropped R (random_source rr random) v (rd s messageA) (rand s))
    \<and> (\<forall>x. scalars t x = scalars s x \<or> scalars t x = NewScalar R)
    \<and> (rand t = rand s \<or> acceptable v \<and> (\<exists>a p. decodeMessageA (rd s messageA) = Ok a \<and> ma_sid a = iv_sid v
         \<and> share R (ma_ya a) = Some p))
    \<and> (case respond_spec R (random_source rr random) v (rd s messageA) (rand s) of
       Err e \<Rightarrow> res = Err e \<and> (\<exists>W. scrubs W s t
         \<and> (\<forall>x \<in> W. mem t x \<in> respond_residue R (random_source rr random) v (rd s messageA) (rand s)))
     | Panic m \<Rightarrow> False
     | Ok st \<Rightarrow> \<exists>r msg a c V. res = Ok (r, msg) \<and> responder_ready t r a c st \<and> valid t msg
         \<and> (\<forall>x \<in> responder_owned t a. brk s \<le> x) \<and> (\<forall>x \<in> cells [msg]. brk s \<le> x \<and> x \<notin> responder_owned t a)
         \<and> decodeMessageB (rd t msg) = Ok \<lparr>mb_yb = rs_yb st, mb_adb = rs_adb st,
              mb_tag = tag_value (rs_isk st) (rs_sid st) (rs_yb st) (rs_adb st)\<rparr>
           \<and> scrubs V s t \<and> (\<forall>x \<in> V. rc_isk (rcores t c) = Some x \<or> mem t x \<in> insert (rd t msg) (core_residue st))
           \<and> (\<exists>x. brk s \<le> x \<and> x < brk t \<and> derives_key R (elements t x) st))"
proof (cases "input_error v")
  case (Some e)
  then have "respondWithRandom R rr input messageA random s = (Err e, s)"
    using assms(6) by (simp add: respondWithRandom_def normalizeRespondInput_def normalizeInput_closed [OF assms(1)])
  then show ?thesis using assms(5) Some by (auto simp: respond_spec_def intro!: exI [of _ "{}"])
next
  case None
  let ?role = responderInputRole and ?rdr = "random_source rr random"
  have acc: "acceptable v" using None by (simp add: input_error_None)
  obtain ni t0 where N: "normalizeInput input ?role s = (Ok ni, t0)"
    using normalizeInput_accepts [OF assms(1) disjI2 [OF refl]] acc assms(6) by blast
  note step = normalizeInput_step [OF assms(1) disjI2 [OF refl] N]
  have norm: "normal_form ?role v = norm_of (mem t0) ni" and vn: "valid_norm t0 ni"
    using norm_slices_at [OF assms(1) disjI2 [OF refl] N, folded assms(6)]
      norm_slices_valid [OF assms(1) disjI2 [OF refl] N] by auto
  note exit = wipe_exit [OF assms(1) disjI2 [OF refl] N]
  have rdm: "rd t0 messageA = rd s messageA" by (rule keeps_rd [OF step(1) assms(2)])
  have wipe: "brk (normalizedInput_wipe ni u) = brk u" "scalars (normalizedInput_wipe ni u) = scalars u"
      "elements (normalizedInput_wipe ni u) = elements u" "rand (normalizedInput_wipe ni u) = rand u" for u :: "('a, 'b, 'c) store"
    by (simp_all add: normalizedInput_wipe_closed)
  show ?thesis
  proof (cases "decodeMessageA (rd s messageA)")
    case (Panic m)
    then show ?thesis using decode_no_panic(1) by blast
  next
    case (Err e)
    then have res: "res = Err e" "t = normalizedInput_wipe ni t0"
      using assms(5) by (simp_all add: respondWithRandom_def normalizeRespondInput_def N rdm)
    show ?thesis
      using exit [of t0 "{}"] step(5,6) None Err
      by (auto simp: res wipe respond_spec_def intro!: exI [of _ "{}"])
  next
    case (Ok a)
    obtain ya s1 where A1: "alloc (ma_ya a) t0 = (ya, s1)" by fastforce
    obtain ada s2 where A2: "alloc (ma_ada a) s1 = (ada, s2)" by fastforce
    note f = alloc_fields [OF A1 A2]
    have nv: "nv_sid (normal_form ?role v) = iv_sid v" "nv_ad (normal_form ?role v) = iv_ad v"
      by (simp_all add: normal_form_def Let_def)
    have sid: "rd s2 (ni_sid ni) = iv_sid v"
      using allocates_rd [OF f(4), of "ni_sid ni"] vn norm nv(1) by (simp add: valid_norm_def norm_of_def)
    show ?thesis
    proof (cases "ma_sid a = iv_sid v")
      case False
      then have res: "res = Err (errorf ErrMessage ''session id mismatch'')" "t = normalizedInput_wipe ni s2"
        using assms(5) by (simp_all add: respondWithRandom_def normalizeRespondInput_def N rdm Ok A1 A2 sid)
      have al: "keeps (cells [ni_password ni]) t0 s2" "frame t0 s2" "scrubs {brk t0, Suc (brk t0)} t0 s2" "scalars s2 = scalars t0"
          "elements s2 = elements t0" "rand s2 = rand t0"
        using f(4) allocates_frame [OF f(4)] by (simp_all add: allocates_def keeps_def)
      note rest = wipe_exit_rest [OF assms(1) disjI2 [OF refl] N al(1-3) res(2)]
      have "\<forall>x \<in> {brk t0, Suc (brk t0)}. mem t x \<in> respond_residue R ?rdr v (rd s messageA) (rand s)"
        using rest(3,4) f(1,2,5,6) by (simp add: respond_residue_def rejected_residue_def Ok)
      moreover have "respond_spec R ?rdr v (rd s messageA) (rand s) = Err (errorf ErrMessage ''session id mismatch'')"
        using None Ok False nv(1) by (simp add: respond_spec_def respond_result_def)
      ultimately show ?thesis
        using rest(1,2) step(5,6) al(4-6) by (auto simp: res)
    next
      case True
      obtain rc t1 where C: "newResponderCore R rr ni ya ada random s2 = (rc, t1)" by fastforce
      have spec: "respond_spec R ?rdr v (rd s messageA) (rand s)
          = respond_result R (normal_form ?role v) a (sampled R ?rdr (rand s))"
        using None Ok by (simp add: respond_spec_def)
      have "(case rc of
          Err e \<Rightarrow> (Err e, normalizedInput_wipe ni t1)
        | Panic m \<Rightarrow> (Panic m, normalizedInput_wipe ni t1)
        | Ok (core, yb, tagB) \<Rightarrow>
            (let (st, s) = newSingleUseState core uninitializedResponder t1
             in case encodeMessageB (rd s yb) (rd s (ni_ad ni)) (rd s tagB) of
                  Err e \<Rightarrow> (Err e, normalizedInput_wipe ni s)
                | Panic m \<Rightarrow> (Panic m, normalizedInput_wipe ni s)
                | Ok msg \<Rightarrow> (let (msg, s) = alloc msg s in (Ok (\<lparr>r_state = st\<rparr>, msg), normalizedInput_wipe ni s)))) = (res, t)"
        using assms(5) True by (simp add: respondWithRandom_def normalizeRespondInput_def N rdm Ok A1 A2 sid C)
      note completed = respond_completes [OF assms(1,3,4) acc N norm vn A1 A2 True C this]
      have residue: "respond_residue R ?rdr v (rd s messageA) (rand s)
          = rejected_residue R (normal_form ?role v) a (sampled R ?rdr (rand s))"
        by (simp add: respond_residue_def Ok)
      have dropped: "respond_dropped R ?rdr v (rd s messageA) (rand s)
          = respond_elements R (normal_form ?role v) (ma_ya a) (sampled R ?rdr (rand s))"
        by (simp add: respond_dropped_def Ok)
      have "rand t = rand s \<or> acceptable v \<and> (\<exists>a p. decodeMessageA (rd s messageA) = Ok a \<and> ma_sid a = iv_sid v
          \<and> share R (ma_ya a) = Some p)"
        using completed acc Ok True by blast
      with completed show ?thesis unfolding spec residue dropped by (elim conjE) (intro conjI; assumption)
    qed
  qed
qed

text \<open>The result of \<open>Start\<close> as a function of the input's bytes and of the random source.\<close>

definition start_spec :: "('s, 'e) ristretto \<Rightarrow> 'r reader \<Rightarrow> inputs \<Rightarrow> 'r \<Rightarrow> 's initiator_state result" where
  "start_spec R rdr v w =
     (case input_error v of
        Some e \<Rightarrow> Err e
      | None \<Rightarrow>
          (case generator R (normal_form initiatorInputRole v) of
             None \<Rightarrow> Panic ''cpace: SHA-512 output rejected by Ristretto255 SetUniformBytes''
           | Some g \<Rightarrow>
               (case sampled R rdr w of
                  Err e \<Rightarrow> Err e
                | Panic m \<Rightarrow> Panic m
                | Ok y \<Rightarrow> Ok (start_state R v g y))))"

lemma start_contract_spec:
  assumes "valid_input s input" and "uniform_law R" and "encoding_laws R"
    and "Start R rand_Reader input s = (res, t)"
  shows "keeps {} s t \<and> frame s t
    \<and> (case start_spec R rand_Reader (inputs_of (mem s) input) (rand s) of
         Err e \<Rightarrow> res = Err e \<and> scrubs {} s t \<and> scalars t = scalars s
           \<and> (\<forall>x. elements t x = elements s x \<or> elements t x = NewIdentityElement R)
       | Panic m \<Rightarrow> False
       | Ok st \<Rightarrow> \<exists>i msg a c V. res = Ok (i, msg) \<and> initiator_ready t i a c st \<and> valid t msg
           \<and> (\<forall>x \<in> initiator_owned t a. brk s \<le> x) \<and> (\<forall>x \<in> cells [msg]. brk s \<le> x \<and> x \<notin> initiator_owned t a)
           \<and> decodeMessageA (rd t msg) = Ok \<lparr>ma_sid = is_sid st, ma_ya = is_ya st, ma_ada = is_ada st\<rparr>
           \<and> scrubs V s t \<and> (\<forall>x \<in> V. mem t x \<in> {rd t msg, is_sid st, is_ya st, is_ada st, is_peerID st})
           \<and> (\<forall>x. scalars t x = scalars s x \<or> ic_scalar (icores t c) = Some x)
           \<and> (\<forall>x. elements t x = elements s x \<or> elements t x = NewIdentityElement R
                \<or> Element_Bytes R (elements t x) = is_ya st))"
proof -
  let ?v = "inputs_of (mem s) input"
  note con = start_contract [OF assms(1-3) assms(4) [unfolded Start_def] refl, unfolded random_source_def option.case]
  obtain g where g: "generator R (normal_form initiatorInputRole ?v) = Some g" using generator_total [OF assms(2)] by blast
  show ?thesis
  proof (cases res)
    case (Err e)
    then have "start_spec R rand_Reader ?v (rand s) = Err e"
      using con g by (auto simp: start_spec_def input_error_None [symmetric] split: if_splits option.splits)
    then show ?thesis using con Err by simp
  next
    case (Panic m)
    then show ?thesis using con by simp
  next
    case (Ok q)
    obtain i msg where q: "q = (i, msg)" by fastforce
    obtain a c y V where c: "sampled R rand_Reader (rand s) = Ok y" "acceptable ?v"
        "initiator_ready t i a c (start_state R ?v g y)" "valid t msg" "\<forall>x \<in> initiator_owned t a. brk s \<le> x"
        "\<forall>x \<in> cells [msg]. brk s \<le> x \<and> x \<notin> initiator_owned t a"
        "decodeMessageA (rd t msg) = Ok \<lparr>ma_sid = iv_sid ?v, ma_ya = scalarMult_bytes R y g, ma_ada = iv_ad ?v\<rparr>"
        "scrubs V s t" "\<forall>x \<in> V. mem t x \<in> {rd t msg, iv_sid ?v, scalarMult_bytes R y g, iv_ad ?v, iv_peer ?v}"
        "\<forall>x. scalars t x = scalars s x \<or> ic_scalar (icores t c) = Some x"
        "\<forall>x. elements t x = elements s x \<or> elements t x \<in> {NewIdentityElement R, Element_ScalarMult R y g}"
      using con Ok q g by auto
    moreover have "start_spec R rand_Reader ?v (rand s) = Ok (start_state R ?v g y)"
      using c(1,2) g by (simp add: start_spec_def input_error_None [symmetric])
    moreover have "\<forall>x. elements t x = elements s x \<or> elements t x = NewIdentityElement R
        \<or> Element_Bytes R (elements t x) = scalarMult_bytes R y g"
      using c(11) by (auto simp: scalarMult_bytes_def)
    ultimately show ?thesis
      using con Ok q by (auto simp: start_state_def)
  qed
qed

section \<open>Properties\<close>

text \<open>C2. \<open>Start\<close> implements its specification on values: it fails exactly with the first input error or
  the error of the random source, and otherwise returns a fresh, unclaimed state for the sampled
  scalar and the derived generator, with a message A that decodes to session id, public share and
  associated data. No existing object changes; every new cell but those of the returned message
  and state holds zeros or public values, every new group element is the identity or encodes to the public share, and the only
  scalar that remains is the one that the state owns.\<close>

theorem Start_correct:
  assumes "valid_input s input" and "uniform_law R" and "encoding_laws R"
  shows "\<exists>res t. Start R rand_Reader input s = (res, t) \<and> keeps {} s t \<and> frame s t
    \<and> (case start_spec R rand_Reader (inputs_of (mem s) input) (rand s) of
         Err e \<Rightarrow> res = Err e \<and> scrubs {} s t \<and> scalars t = scalars s
           \<and> (\<forall>x. elements t x = elements s x \<or> elements t x = NewIdentityElement R)
       | Panic m \<Rightarrow> False
       | Ok st \<Rightarrow> \<exists>i msg a c V. res = Ok (i, msg) \<and> initiator_ready t i a c st \<and> valid t msg
           \<and> (\<forall>x \<in> initiator_owned t a. brk s \<le> x) \<and> (\<forall>x \<in> cells [msg]. brk s \<le> x \<and> x \<notin> initiator_owned t a)
           \<and> decodeMessageA (rd t msg) = Ok \<lparr>ma_sid = is_sid st, ma_ya = is_ya st, ma_ada = is_ada st\<rparr>
           \<and> scrubs V s t \<and> (\<forall>x \<in> V. mem t x \<in> {rd t msg, is_sid st, is_ya st, is_ada st, is_peerID st})
           \<and> (\<forall>x. scalars t x = scalars s x \<or> ic_scalar (icores t c) = Some x)
           \<and> (\<forall>x. elements t x = elements s x \<or> elements t x = NewIdentityElement R
                \<or> Element_Bytes R (elements t x) = is_ya st))"
proof -
  obtain res t where eq: "Start R rand_Reader input s = (res, t)" by fastforce
  show ?thesis using start_contract_spec [OF assms eq] eq by (intro exI [of _ res] exI [of _ t]) blast
qed

lemma sampled_residues:
  assumes "of_nat (unat x) \<noteq> (0 :: 7)"
  shows "sampled residues (constant_reader x) w = Ok (of_nat (unat x))"
proof -
  let ?m = "(replicate 32 x)[31 := replicate 32 x ! 31 AND (0x0f :: byte)]"
  have m: "Scalar_SetCanonicalBytes residues ?m = Some (of_nat (unat x))" by (simp add: residues_def)
  have "\<exists>y. Scalar_SetCanonicalBytes residues ?m = Some y
      \<and> sampleScalar_loop residues (constant_reader x) (Suc 127) (replicate 32 0) w = ((Ok y, ?m), ())"
    by (rule sampleScalar_loop_first [of residues "constant_reader x" w "replicate 32 x" "()"])
      (simp_all add: residues_laws constant_reader_def m, use assms in \<open>simp add: residues_def\<close>)
  then show ?thesis using m by (auto simp: sampled_def)
qed

lemma residue_values:
  "sampled residues (constant_reader 3) w = Ok 3" "sampled residues (constant_reader 5) w = Ok 5" "generator residues v = Some 1"
  "scalarMult_bytes residues x y = residue_bytes (x * y)"
  by (simp_all add: sampled_residues generator_def scalarMult_bytes_def) (simp_all add: residues_def)

lemma residue_bytes_neutral: "residue_bytes e = replicate 32 0 \<longleftrightarrow> e = 0"
  using identity_encoding [OF residues_encoding, of e] by (simp add: residues_def)

theorem Start_correct_witness:
  "\<exists>i msg t. Start residues (constant_reader 3) sample_input (sample_store ()) = (Ok (i, msg), t)
     \<and> decodeMessageA (rd t msg) = Ok \<lparr>ma_sid = [3], ma_ya = residue_bytes 3, ma_ada = []\<rparr>"
proof -
  have "start_spec residues (constant_reader 3) (inputs_of (mem (sample_store ())) sample_input) (rand (sample_store ()))
      = Ok (start_state residues (inputs_of (mem (sample_store ())) sample_input) 1 3)"
    using sample_simps(2) [of "()"] by (simp add: start_spec_def residue_values input_error_None [symmetric])
  then show ?thesis
    using Start_correct [OF sample_simps(1) [of "()"] residues_laws(1) residues_encoding, of "constant_reader 3"]
    by (auto simp: start_state_def sample_values residue_values)
qed

text \<open>C3. \<open>Respond\<close> implements its specification on values: the checks of the input, of the message, of
  the session id and of the peer's share come in this order and each gives its own error; an
  accepted message gives a fresh, unclaimed state with the derived key and a message B that
  decodes to the public share, the associated data and the responder's tag. Nothing is drawn
  from the random source before the peer's share has been accepted, and no existing object changes.
  On every path the password copies, the scalar, the generator, and the byte slice of the shared secret are
  erased. What is left is listed: of bytes, public values, the tag, the MAC key in the HMAC object and,
  after success, the key that the state owns; of group elements, the identity, the two shares and the shared secret. That last one
  does stay: after every success some new element determines the session key, with public values.\<close>

theorem Respond_correct:
  assumes "valid_input s input" and "valid s messageA" and "uniform_law R" and "encoding_laws R"
  shows "\<exists>res t. Respond R rand_Reader input messageA s = (res, t) \<and> keeps {} s t \<and> frame s t
    \<and> (\<forall>x. elements t x = elements s x
         \<or> elements t x \<in> respond_dropped R rand_Reader (inputs_of (mem s) input) (rd s messageA) (rand s))
    \<and> (\<forall>x. scalars t x = scalars s x \<or> scalars t x = NewScalar R)
    \<and> (rand t = rand s \<or> acceptable (inputs_of (mem s) input) \<and> (\<exists>a p. decodeMessageA (rd s messageA) = Ok a
         \<and> ma_sid a = rd s (in_SessionID input) \<and> share R (ma_ya a) = Some p))
    \<and> (case respond_spec R rand_Reader (inputs_of (mem s) input) (rd s messageA) (rand s) of
         Err e \<Rightarrow> res = Err e \<and> (\<exists>W. scrubs W s t
           \<and> (\<forall>x \<in> W. mem t x \<in> respond_residue R rand_Reader (inputs_of (mem s) input) (rd s messageA) (rand s)))
       | Panic m \<Rightarrow> False
       | Ok st \<Rightarrow> \<exists>r msg a c V. res = Ok (r, msg) \<and> responder_ready t r a c st \<and> valid t msg
           \<and> (\<forall>x \<in> responder_owned t a. brk s \<le> x) \<and> (\<forall>x \<in> cells [msg]. brk s \<le> x \<and> x \<notin> responder_owned t a)
           \<and> decodeMessageB (rd t msg) = Ok \<lparr>mb_yb = rs_yb st, mb_adb = rs_adb st,
                mb_tag = tag_value (rs_isk st) (rs_sid st) (rs_yb st) (rs_adb st)\<rparr>
           \<and> scrubs V s t
           \<and> (\<forall>x \<in> V. rc_isk (rcores t c) = Some x \<or> mem t x \<in> insert (rd t msg) (core_residue st))
           \<and> (\<exists>x. brk s \<le> x \<and> x < brk t \<and> derives_key R (elements t x) st))"
proof -
  obtain res t where eq: "Respond R rand_Reader input messageA s = (res, t)" by fastforce
  have sid: "iv_sid (inputs_of (mem s) input) = rd s (in_SessionID input)" by (simp add: inputs_of_def)
  show ?thesis
    using respond_contract [OF assms eq [unfolded Respond_def] refl, unfolded random_source_def option.case sid] eq by blast
qed

text \<open>A store with the caller's input and a message A from a peer whose public share is \<open>residue_bytes 2\<close>.\<close>

definition sample_message_A :: bytes where
  "sample_message_A = [0xc1, 0x01, 0x01, 0x01, 0x03, 0x20, 0x02] @ replicate 31 0 @ [0x00]"

definition respond_store :: "(7, 7, unit) store" where
  "respond_store = (sample_store ())\<lparr>brk := 5, mem := (mem (sample_store ()))(4 := sample_message_A)\<rparr>"

lemma decode_sample_message_A:
  "decodeMessageA sample_message_A = Ok \<lparr>ma_sid = [3], ma_ya = residue_bytes 2, ma_ada = []\<rparr>"
proof -
  have "decode messageASpec sample_message_A = Ok [[3], residue_bytes 2, []]"
    by (subst decode_iff [OF specs_cap_wf(1)])
      (simp add: sample_message_A_def messageASpec_def message_cap_defs field_ok_def header_def lv_def residue_bytes_def
        leb_small wireFormatV1_def wireSuite_def currentSuite_def roleA_def)
  then show ?thesis by (simp add: decodeMessageA_def)
qed

theorem Respond_correct_witness:
  "\<exists>r msg t tag. Respond residues (constant_reader 3) sample_input (Some 4) respond_store = (Ok (r, msg), t)
     \<and> decodeMessageB (rd t msg) = Ok \<lparr>mb_yb = residue_bytes 3, mb_adb = [], mb_tag = tag\<rparr>"
proof -
  have v: "valid_input respond_store sample_input" "valid respond_store (Some 4)"
    "inputs_of (mem respond_store) sample_input = inputs_of (mem (sample_store ())) sample_input"
    "rd respond_store (Some 4) = sample_message_A"
    by (simp_all add: respond_store_def valid_input_def sample_input_def sample_store_def inputs_of_def)
  have "share residues (residue_bytes 2) = Some 2" by (simp add: share_residues)
  then have dec: "decoded_share residues initiatorPeerShare (residue_bytes 2) = Ok 2" by (simp add: decoded_share_Ok_iff)
  have "scalarMult_bytes residues 3 2 \<noteq> replicate 32 0"
    by (simp add: residue_values residue_bytes_neutral)
  then obtain k where "respond_spec residues (constant_reader 3) (inputs_of (mem (sample_store ())) sample_input) sample_message_A
      (rand respond_store) = Ok (respond_state (normal_form responderInputRole (inputs_of (mem (sample_store ())) sample_input))
          (residue_bytes 2) [] (residue_bytes 3) k)"
    using sample_simps(2) [of "()"]
    by (simp add: respond_spec_def respond_result_def residue_values input_error_None [symmetric] decode_sample_message_A dec
        normal_form_def sample_values Let_def)
  then show ?thesis
    using Respond_correct [OF v(1,2) residues_laws(1) residues_encoding, of "constant_reader 3"] v(3,4)
    by (auto simp: respond_state_def normal_form_def sample_values Let_def)
qed

end
