(* ===== verification/Finish.thy ===== *)
theory Finish
  imports Api
begin

text \<open>
  The contracts of \<open>Finish\<close> and \<open>Close\<close> of both roles (api.go), over the operations that the
  theory of api.go defines: what each returns as a function of the role's state and of the message,
  and what is left in memory on every exit.
\<close>

section \<open>The initiator\<close>

text \<open>\<open>Initiator.Finish\<close> on values: message C's tag and the session, or the error.\<close>

definition initiator_result ::
  "('s, 'e) ristretto \<Rightarrow> 's initiator_state \<Rightarrow> bytes \<Rightarrow> (bytes \<times> confirmed) result" where
  "initiator_result R st msg =
     (case decodeMessageB msg of
        Err e \<Rightarrow> Err e
      | Panic m \<Rightarrow> Panic m
      | Ok b \<Rightarrow>
          (case decoded_share R responderPeerShare (mb_yb b) of
             Err e \<Rightarrow> Err e
           | Panic m \<Rightarrow> Panic m
           | Ok p \<Rightarrow>
               if scalarMult_bytes R (is_scalar st) p = replicate 32 0
               then Err (errorf ErrAbort ''neutral-element shared secret'')
               else case initiator_outcome st (scalarMult_bytes R (is_scalar st) p) (mb_yb b) (mb_adb b) (mb_tag b) of
                      None \<Rightarrow> Err (Sentinel ErrConfirmationFailed)
                    | Some x \<Rightarrow> Ok x))"

text \<open>
  What the call may leave in memory that nothing clears. Bytes: the two fields of message B, and once its share has been
  accepted the wire values, hashes of them, the two tags, and the MAC key in the HMAC objects. Group elements: the decoded
  share and the shared secret.
\<close>

definition initiator_residue :: "('s, 'e) ristretto \<Rightarrow> 's initiator_state \<Rightarrow> bytes \<Rightarrow> bytes set" where
  "initiator_residue R st msg =
     (case decodeMessageB msg of
        Ok b \<Rightarrow> {mb_yb b, mb_adb b} \<union>
          (case share R (mb_yb b) of
             None \<Rightarrow> {}
           | Some p \<Rightarrow>
               (let k = scalarMult_bytes R (is_scalar st) p;
                    tr = transcript_value (is_ya st) (is_ada st) (mb_yb b) (mb_adb b)
                in if k = replicate 32 0 then {}
                   else finish_residue (ISK_value (is_sid st) k tr) (is_sid st) (is_ya st) (is_ada st) (mb_yb b) (mb_adb b)))
      | Err e \<Rightarrow> {}
      | Panic m \<Rightarrow> {})"

definition initiator_dropped :: "('s, 'e) ristretto \<Rightarrow> 's initiator_state \<Rightarrow> bytes \<Rightarrow> 'e set" where
  "initiator_dropped R st msg =
     (case decodeMessageB msg of
        Ok b \<Rightarrow> shared_elements R (is_scalar st) (mb_yb b)
      | Err e \<Rightarrow> {}
      | Panic m \<Rightarrow> {})"

definition claimed :: "nat \<Rightarrow> ('s, 'e, 'r) store \<Rightarrow> ('s, 'e, 'r) store" where
  "claimed a s = s\<lparr>ustates := (ustates s)(a := (ustates s a)\<lparr>su_used := True\<rparr>)\<rparr>"

text \<open>What the wipe leaves; \<open>E\<close> are the values of the group elements that the call may have dropped.\<close>

definition initiator_wiped ::
  "('s, 'e) ristretto \<Rightarrow> 'e set \<Rightarrow> nat \<Rightarrow> nat \<Rightarrow> ('s, 'e, 'r) store \<Rightarrow> ('s, 'e, 'r) store \<Rightarrow> bool" where
  "initiator_wiped R E a c s t \<longleftrightarrow> keeps {} s t \<and> ustates t = ustates (claimed a s)
     \<and> icores t = (icores s)(c := (icores s c)\<lparr>ic_scalar := None\<rparr>)
     \<and> (\<exists>b. ic_scalar (icores s c) = Some b \<and> scalars t = (scalars s)(b := NewScalar R))
     \<and> (\<forall>x. elements t x = elements s x \<or> brk s \<le> x \<and> elements t x \<in> E) \<and> rcores t = rcores s \<and> rand t = rand s \<and> (\<forall>x < brk s. sessions t x = sessions s x)"

lemma claimed_simps [simp]:
  "brk (claimed a s) = brk s" "mem (claimed a s) = mem s" "scalars (claimed a s) = scalars s"
  "elements (claimed a s) = elements s" "icores (claimed a s) = icores s" "rcores (claimed a s) = rcores s"
  "sessions (claimed a s) = sessions s" "rand (claimed a s) = rand s" "valid (claimed a s) sl = valid s sl"
  by (simp_all add: claimed_def)

lemma finishCore_claims:
  "initiator_ready s i a c st \<Longrightarrow> i_state j = i_state i \<Longrightarrow> initiator_finishCore (Some j) s = (Ok (Some c), claimed a s)"
  "responder_ready s r a c rst \<Longrightarrow> r_state q = r_state r \<Longrightarrow> responder_finishCore (Some q) s = (Ok (Some c), claimed a s)"
  by (simp_all add: initiator_finishCore_def responder_finishCore_def initiator_ready_def responder_ready_def
      claimFinish_cases spent_def claimed_def)

lemma initiator_at_allocates:
  assumes "initiator_at s c st" and "allocates W s' t"
    and "mem s' = mem s" "brk s' = brk s" "icores s' = icores s" "scalars s' = scalars s"
  shows "initiator_at t c st"
proof (rule initiator_at_mono [OF assms(1)])
  show "\<forall>x \<in> icore_cells (icores s c). mem t x = mem s x"
    using assms by (auto simp: initiator_at_def icore_cells_def cells_def valid_def allocates_def keeps_def)
qed (use assms allocates_brk [OF assms(2)] in \<open>simp_all add: allocates_def\<close>)

lemma initiator_exit:
  assumes "initiator_at s c st" and "leaves A E W (claimed a s) u" and "t = initiatorCore_clear R (Some c) u"
  shows "initiator_wiped R E a c s t" and "\<exists>V. scrubs (W \<union> V) s t \<and> (\<forall>x \<in> V. mem t x \<in> A)"
    and "mem t = mem u" and "brk t = brk u" and "sessions t = sessions u"
proof -
  obtain b where "ic_scalar (icores s c) = Some b" using assms(1) by (auto simp: initiator_at_def)
  then show "initiator_wiped R E a c s t"
    using assms(2) by (simp add: assms(3) initiator_wiped_def initiatorCore_clear_closed leaves_def keeps_def clear_closed) blast
  show same: "mem t = mem u" "brk t = brk u" "sessions t = sessions u" by (simp_all add: assms(3) initiatorCore_clear_closed)
  show "\<exists>V. scrubs (W \<union> V) s t \<and> (\<forall>x \<in> V. mem t x \<in> A)"
    using leaves_scrubs [OF assms(2)] by (auto simp: scrubs_def same(1))
qed

lemma session_at_cong:
  assumes "session_at s S cf" and "brk s \<le> brk t" and "sessions t = sessions s"
    and "\<forall>x \<in> session_cells s S. mem t x = mem s x"
  shows "session_at t S cf"
proof -
  obtain a where a: "s_state S = Some a" using assms(1) by (auto simp: session_at_def split: option.splits)
  have "rd t sl = rd s sl" if "sl \<in> {ss_isk (sessions s a), s_transcriptID S, s_peerAD S, s_peerID S}" for sl
    using that assms(4) a by (intro rd_same) (auto simp: session_cells_def cells_def)
  then show ?thesis
    using assms(1,2,3) valid_mono [OF _ assms(2)] a by (simp add: session_at_def session_metadata_def)
qed

lemma session_at_cells:
  assumes "session_at s S cf" and "x \<in> session_cells s S"
  shows "x < brk s"
proof -
  obtain a where a: "s_state S = Some a" using assms(1) by (auto simp: session_at_def split: option.splits)
  then have "x \<in> cells [ss_isk (sessions s a), s_transcriptID S, s_peerAD S, s_peerID S]"
    using assms(2) by (simp add: session_cells_def)
  then show ?thesis by (rule cells_lt [rotated]) (use assms(1) a in \<open>simp add: session_at_def\<close>)
qed

lemma session_owned_lt: "session_at s S cf \<Longrightarrow> x \<in> session_owned s S \<Longrightarrow> x < brk s"
  using session_at_cells by (auto simp: session_at_def)

lemma initiator_outcome_tag: "initiator_outcome st k yb adb tag = Some (tagA, cf) \<Longrightarrow> length tagA = 64"
  by (auto simp: initiator_outcome_def Let_def split: if_splits)

text \<open>The last steps of a successful \<open>Finish\<close>: message C is published, then the core is cleared.\<close>

lemma initiator_publishes:
  assumes at: "initiator_at s c st" and S: "session_at s3 S cf" "leaves P E (session_cells s3 S) (claimed a s) s3"
      "\<forall>x \<in> session_owned s3 S. brk s \<le> x"
    and A: "alloc msg s3 = (m, u)" and t: "t = initiatorCore_clear R (Some c) u"
  shows "initiator_wiped R E a c s t \<and> session_at t S cf \<and> valid t m \<and> rd t m = msg
    \<and> (\<forall>x \<in> session_owned t S. brk s \<le> x) \<and> (\<forall>x \<in> cells [m]. brk s \<le> x \<and> x \<notin> session_owned t S)"
    and "\<exists>W. scrubs (session_cells t S \<union> W) s t \<and> (\<forall>x \<in> W. mem t x \<in> insert msg P)"
proof -
  note al = allocates_alloc [OF A]
  have "leaves (insert msg P) E ({brk s3} \<union> session_cells s3 S) (claimed a s) u"
    by (rule leaves_mono [OF leaves_trans [OF leaves_mono [OF S(2) subset_insertI subset_refl subset_refl] allocates_leaves [OF al(2)]]]) auto
  then have 2: "leaves (insert msg P) E (session_cells s3 S) (claimed a s) u"
    by (rule leaves_forget) (simp add: al(3,4))
  note e = initiator_exit [OF at 2 t]
  have b: "brk s \<le> brk s3" using leaves_brk [OF S(2)] by simp
  have same: "mem t x = mem s3 x" if "x \<noteq> brk s3" for x using A e(3) that by (auto simp: alloc_closed)
  have sess: "sessions t = sessions s3" using A e(5) by (auto simp: alloc_closed)
  have owned: "session_cells t S = session_cells s3 S" "session_owned t S = session_owned s3 S"
    by (simp_all add: session_owned_def session_cells_def sess)
  have "brk s3 \<le> brk t" using e(4) al(4) by simp
  moreover have "\<forall>x \<in> session_cells s3 S. mem t x = mem s3 x"
    using same session_at_cells [OF S(1), THEN less_imp_neq] by simp
  ultimately have "session_at t S cf" by (rule session_at_cong [OF S(1) _ sess])
  then show "initiator_wiped R E a c s t \<and> session_at t S cf \<and> valid t m \<and> rd t m = msg
    \<and> (\<forall>x \<in> session_owned t S. brk s \<le> x) \<and> (\<forall>x \<in> cells [m]. brk s \<le> x \<and> x \<notin> session_owned t S)"
    unfolding owned using e(1,3,4) al S(3) b session_owned_lt [OF S(1)] by (auto simp: valid_def)
  show "\<exists>W. scrubs (session_cells t S \<union> W) s t \<and> (\<forall>x \<in> W. mem t x \<in> insert msg P)"
    unfolding owned by (rule e(2))
qed

lemma initiator_finish_contract:
  fixes s :: "('s, 'e, 'r) store"
  assumes "initiator_ready s i a c st" and "valid s messageB" and "i_state j = i_state i"
    and "Initiator_Finish R (Some j) messageB s = (res, t)"
  shows "initiator_wiped R (initiator_dropped R st (rd s messageB)) a c s t
    \<and> (case initiator_result R st (rd s messageB) of
         Err e \<Rightarrow> res = Err e \<and> (\<exists>V. scrubs V s t \<and> (\<forall>x \<in> V. mem t x \<in> initiator_residue R st (rd s messageB)))
       | Panic m \<Rightarrow> False
       | Ok (tagA, cf) \<Rightarrow> \<exists>m S V. res = Ok (m, S) \<and> session_at t S cf \<and> valid t m
           \<and> decodeMessageC (rd t m) = Ok \<lparr>mc_tag = tagA\<rparr>
           \<and> scrubs (session_cells t S \<union> V) s t \<and> (\<forall>x \<in> session_owned t S. brk s \<le> x)
           \<and> (\<forall>x \<in> cells [m]. brk s \<le> x \<and> x \<notin> session_owned t S)
           \<and> (\<forall>x \<in> V. mem t x \<in> insert (rd t m) (initiator_residue R st (rd s messageB))))"
proof -
  have at: "initiator_at s c st" using assms(1) by (simp add: initiator_ready_def)
  note claim = finishCore_claims(1) [OF assms(1,3)]
  note exit = initiator_exit [OF at _ refl, where a = a and R = R]
  show ?thesis
  proof (cases "decodeMessageB (rd s messageB)")
    case (Panic m)
    then show ?thesis using decode_no_panic(2) by blast
  next
    case (Err e)
    then have res: "res = Err e" "t = initiatorCore_clear R (Some c) (claimed a s)"
      using assms(4) by (simp_all add: Initiator_Finish_def claim)
    show ?thesis
      using exit(1,2) [OF leaves_refl [of "{}" "{}" "{}" "claimed a s"]] Err
      by (simp add: res initiator_result_def initiator_residue_def initiator_dropped_def)
  next
    case (Ok b)
    obtain yb s1 where A1: "alloc (mb_yb b) (claimed a s) = (yb, s1)" by fastforce
    obtain adb s2 where A2: "alloc (mb_adb b) s1 = (adb, s2)" by fastforce
    note f = alloc_fields [OF A1 A2]
    obtain rf s3 where F: "initiatorCore_finish R c yb adb (mb_tag b) s2 = (rf, s3)" by fastforce
    have at2: "initiator_at s2 c st" by (rule initiator_at_allocates [OF at f(4)]) simp_all
    let ?E = "initiator_dropped R st (rd s messageB)" and ?P = "initiator_residue R st (rd s messageB)"
    have E: "?E = shared_elements R (is_scalar st) (mb_yb b)" by (simp add: initiator_dropped_def Ok)
    note fin = initiatorCore_finish_contract [OF at2 f(7,8) F, unfolded f(5,6), OF E]
    have P: "{mb_yb b, mb_adb b} \<subseteq> ?P" by (auto simp: initiator_residue_def Ok)
    have start: "leaves ?P ?E {} (claimed a s) s2"
    proof (rule leaves_forget)
      show "leaves ?P ?E ({brk s, Suc (brk s)} \<union> {}) (claimed a s) s2" using allocates_leaves [OF f(4)] by simp
      show "\<forall>x \<in> {brk s, Suc (brk s)}. brk (claimed a s) \<le> x \<longrightarrow> x < brk s2 \<and> mem s2 x \<in> ?P"
        using f(1-3,5,6) P by auto
    qed
    have rejected: "initiator_wiped R ?E a c s t \<and> res = Err e \<and> (\<exists>V. scrubs V s t \<and> (\<forall>x \<in> V. mem t x \<in> ?P))"
      if "rf = Err e" "leaves ?P ?E {} s2 s3" for e
    proof -
      have res: "res = Err e" "t = initiatorCore_clear R (Some c) s3"
        using assms(4) that(1) by (simp_all add: Initiator_Finish_def claim Ok A1 A2 F)
      show ?thesis using exit(1,2) [OF leaves_trans [OF start that(2)]] by (simp add: res)
    qed
    have none: "leaves {} ?E {} s2 s3 \<Longrightarrow> leaves ?P ?E {} s2 s3" by (erule leaves_mono) simp_all
    show ?thesis
    proof (cases "initiator_result R st (rd s messageB)")
      case (Panic m)
      then show ?thesis
        using fin by (auto simp: initiator_result_def Ok Let_def split: go.splits if_splits option.splits)
    next
      case (Err e)
      then have "rf = Err e \<and> leaves ?P ?E {} s2 s3"
        using fin none by (auto simp: initiator_result_def initiator_residue_def Ok Let_def decoded_share_Ok_iff
            split: go.splits if_splits option.splits intro: leaves_mono)
      then show ?thesis using rejected Err by auto
    next
      case out: (Ok x)
      obtain tagA cf where x: "x = (tagA, cf)" by fastforce
      obtain S n where fin: "rf = Ok (Some n, S)" "mem s3 n = tagA" "session_at s3 S cf" "leaves ?P ?E (session_cells s3 S) s2 s3"
          "\<forall>x \<in> session_owned s3 S. brk s2 \<le> x" and "length tagA = 64"
        using fin out by (auto simp: initiator_result_def initiator_residue_def Ok x Let_def decoded_share_Ok_iff
            split: go.splits if_splits option.splits dest: initiator_outcome_tag intro: leaves_mono)
      obtain msg where msg: "encodeMessageC tagA = Ok msg" "decodeMessageC msg = Ok \<lparr>mc_tag = tagA\<rparr>"
        using message_C_ok [OF \<open>length tagA = 64\<close>] by blast
      obtain m u where A3: "alloc msg s3 = (m, u)" by fastforce
      have res: "res = Ok (m, S)" "t = initiatorCore_clear R (Some c) u"
        using assms(4) by (simp_all add: Initiator_Finish_def claim Ok A1 A2 F fin(1,2) msg(1) A3)
      have all: "leaves ?P ?E (session_cells s3 S) (claimed a s) s3" using leaves_trans [OF start fin(4)] by simp
      have "\<forall>x \<in> session_owned s3 S. brk s \<le> x" using fin(5) leaves_brk [OF start] by (auto dest: bspec)
      note out = initiator_publishes [OF at fin(3) all this A3 res(2)]
      have "decodeMessageC (rd t m) = Ok \<lparr>mc_tag = tagA\<rparr>" using out(1) msg(2) by (simp only:)
      then show ?thesis
        using out unfolding res(1) \<open>initiator_result R st (rd s messageB) = Ok x\<close> x go.case prod.case by blast
    qed
  qed
qed

section \<open>The responder\<close>

definition responder_result :: "responder_state \<Rightarrow> bytes \<Rightarrow> confirmed result" where
  "responder_result st msg =
     (case decodeMessageC msg of
        Err e \<Rightarrow> Err e
      | Panic m \<Rightarrow> Panic m
      | Ok m \<Rightarrow>
          (case responder_outcome st (mc_tag m) of
             None \<Rightarrow> Err (Sentinel ErrConfirmationFailed)
           | Some cf \<Rightarrow> Ok cf))"

text \<open>What the call may leave: wire values, the two tags and the MAC key, once message C has been decoded.\<close>

definition responder_residue :: "responder_state \<Rightarrow> bytes \<Rightarrow> bytes set" where
  "responder_residue st msg =
     (case decodeMessageC msg of
        Ok m \<Rightarrow> finish_residue (rs_isk st) (rs_sid st) (rs_ya st) (rs_ada st) (rs_yb st) (rs_adb st)
      | Err e \<Rightarrow> {}
      | Panic m \<Rightarrow> {})"

definition responder_wiped :: "nat \<Rightarrow> nat \<Rightarrow> ('s, 'e, 'r) store \<Rightarrow> ('s, 'e, 'r) store \<Rightarrow> bool" where
  "responder_wiped a c s t \<longleftrightarrow> keeps (rcore_secret_cells (rcores s c)) s t \<and> ustates t = ustates (claimed a s)
     \<and> rcores t = (rcores s)(c := cleared_rcore (rcores s c))
     \<and> (\<forall>x \<in> rcore_secret_cells (rcores s c). mem t x = zeros (mem s x))
     \<and> scalars t = scalars s \<and> elements t = elements s \<and> icores t = icores s \<and> rand t = rand s
     \<and> (\<forall>x < brk s. sessions t x = sessions s x)"

lemma responder_secret_cells: "responder_at s c st \<Longrightarrow> x \<in> rcore_secret_cells (rcores s c) \<Longrightarrow> x < brk s"
  by (rule responder_at_cells) (auto simp: rcore_secret_cells_def rcore_cells_def cells_def)

lemma responder_exit_clear:
  assumes "responder_at s c st" and "leaves A {} W (claimed a s) u" and "t = responderCore_clear (Some c) u"
  shows "responder_wiped a c s t" and "\<exists>V. scrubs (W \<union> V) s t \<and> (\<forall>x \<in> V. mem t x \<in> A)"
    and "\<forall>x \<ge> brk s. mem t x = mem u x" and "brk t = brk u" and "sessions t = sessions u"
proof -
  have rc: "rcores u = rcores s" and k: "keeps {} s u" using assms(2) by (simp_all add: leaves_def keeps_def)
  have lt: "\<forall>x \<in> rcore_secret_cells (rcores s c). x < brk s" using responder_secret_cells [OF assms(1)] by blast
  have "elements u = elements s" using assms(2) by (auto simp: leaves_def)
  then show "responder_wiped a c s t"
    using assms(2) k lt
    by (simp add: responder_wiped_def assms(3) responderCore_clear_closed rc leaves_def keeps_def)
  show *: "\<forall>x \<ge> brk s. mem t x = mem u x" using lt by (auto simp: assms(3) responderCore_clear_closed rc)
  show "\<exists>V. scrubs (W \<union> V) s t \<and> (\<forall>x \<in> V. mem t x \<in> A)"
    using leaves_scrubs [OF assms(2)] * by (auto simp: scrubs_def)
  show "brk t = brk u" "sessions t = sessions u" by (simp_all add: assms(3) responderCore_clear_closed)
qed

lemma responder_finish_contract:
  fixes s :: "('s, 'e, 'r) store"
  assumes "responder_ready s r a c st" and "r_state q = r_state r"
    and "Responder_Finish (Some q) messageC s = (res, t)"
  shows "responder_wiped a c s t
    \<and> (case responder_result st (rd s messageC) of
         Err e \<Rightarrow> res = Err e \<and> (\<exists>V. scrubs V s t \<and> (\<forall>x \<in> V. mem t x \<in> responder_residue st (rd s messageC)))
       | Panic m \<Rightarrow> False
       | Ok cf \<Rightarrow> \<exists>S V. res = Ok S \<and> session_at t S cf \<and> scrubs (session_cells t S \<union> V) s t
           \<and> (\<forall>x \<in> session_owned t S. brk s \<le> x)
           \<and> (\<forall>x \<in> V. mem t x \<in> responder_residue st (rd s messageC)))"
proof -
  have at: "responder_at s c st" using assms(1) by (simp add: responder_ready_def)
  note claim = finishCore_claims(2) [OF assms(1,2)]
  note exit = responder_exit_clear [OF at _ refl, where a = a]
  show ?thesis
  proof (cases "decodeMessageC (rd s messageC)")
    case (Panic m)
    then show ?thesis using decode_no_panic(3) by blast
  next
    case (Err e)
    then have res: "res = Err e" "t = responderCore_clear (Some c) (claimed a s)"
      using assms(3) by (simp_all add: Responder_Finish_def claim)
    show ?thesis
      using exit(1,2) [OF leaves_refl [of "{}" "{}" "{}" "claimed a s"]] Err by (simp add: res responder_result_def responder_residue_def)
  next
    case (Ok m)
    obtain rf u where F: "responderCore_finish c (mc_tag m) (claimed a s) = (rf, u)" by fastforce
    have res: "res = rf" "t = responderCore_clear (Some c) u"
      using assms(3) by (simp_all add: Responder_Finish_def claim Ok F)
    have at': "responder_at (claimed a s) c st" using at by (rule responder_at_mono) simp_all
    let ?P = "responder_residue st (rd s messageC)"
    have P: "?P = finish_residue (rs_isk st) (rs_sid st) (rs_ya st) (rs_ada st) (rs_yb st) (rs_adb st)"
      by (simp add: responder_residue_def Ok)
    note fin = responderCore_finish_contract [OF at' F P, of "{}", unfolded claimed_simps]
    show ?thesis
    proof (cases "responder_outcome st (mc_tag m)")
      case None
      then have "rf = Err (Sentinel ErrConfirmationFailed)" "leaves ?P {} {} (claimed a s) u" using fin by simp_all
      then show ?thesis using None exit(1,2) [of ?P "{}" u] by (simp add: res responder_result_def Ok)
    next
      case (Some cf)
      obtain S where S: "rf = Ok S" "session_at u S cf" "leaves ?P {} (session_cells u S) (claimed a s) u"
          "\<forall>x \<in> session_owned u S. brk s \<le> x"
        using fin Some by auto
      note e = exit [OF S(3), folded res(2)]
      have cells: "session_cells t S = session_cells u S" "session_owned t S = session_owned u S"
        using e(5) by (simp_all add: session_cells_def session_owned_def)
      have "session_at t S cf"
      proof (rule session_at_cong [OF S(2)])
        show "\<forall>x \<in> session_cells u S. mem t x = mem u x" using S(4) e(3) by simp
      qed (use e in simp_all)
      moreover have val: "responder_result st (rd s messageC) = Ok cf" using Some by (simp add: responder_result_def Ok)
      moreover obtain V where "scrubs (session_cells t S \<union> V) s t" "\<forall>x \<in> V. mem t x \<in> ?P"
        using e(2) unfolding cells(1) by blast
      moreover have "\<forall>x \<in> session_owned t S. brk s \<le> x" using S(4) by (simp only: cells(2))
      ultimately show ?thesis
        unfolding res(1) val go.case S(1) by (intro conjI e(1) exI [of _ S] exI [of _ V]) (assumption | rule refl)+
    qed
  qed
qed

section \<open>Close\<close>

lemma spent_calls:
  assumes "spent a s"
  shows "i_state i = Some a \<Longrightarrow> Initiator_Finish R (Some i) msg s = (Err (Sentinel ErrStateUsed), s)"
    and "i_state i = Some a \<Longrightarrow> Initiator_Close R (Some i) s = (Ok (), s)"
    and "r_state r = Some a \<Longrightarrow> Responder_Finish (Some r) msg s = (Err (Sentinel ErrStateUsed), s)"
    and "r_state r = Some a \<Longrightarrow> Responder_Close (Some r) s = (Ok (), s)"
  using assms
  by (simp_all add: Initiator_Finish_def Initiator_Close_def Responder_Finish_def Responder_Close_def
      initiator_finishCore_def responder_finishCore_def claimFinish_cases closeCore_def claimClose_def spent_def)

lemma close_contract:
  "initiator_ready s i a c st \<Longrightarrow> i_state j = i_state i \<Longrightarrow>
    Initiator_Close R (Some j) s = (Ok (), initiatorCore_clear R (Some c) (claimed a s))"
  "responder_ready s r a c rst \<Longrightarrow> r_state q = r_state r \<Longrightarrow>
    Responder_Close (Some q) s = (Ok (), responderCore_clear (Some c) (claimed a s))"
  by (simp_all add: Initiator_Close_def Responder_Close_def initiator_ready_def responder_ready_def closeCore_def
      claimClose_def claimed_def Let_def)

lemma wiped_spent:
  "initiator_wiped R E a c s t \<Longrightarrow> spent a t" "responder_wiped a c s t \<Longrightarrow> spent a t"
  by (simp_all add: initiator_wiped_def responder_wiped_def spent_def claimed_def)

section \<open>Properties\<close>

text \<open>
  For the witnesses: an initiator and a responder of the residues modulo 7 and the messages B and
  C of a peer. The peer's share and data are the initiator's own, so that its tag is too: the case
  that the second tag comparison of \<open>finish\<close> is there for.
\<close>

definition sample_message_B :: bytes where
  "sample_message_B = [0xc1, 0x01, 0x02, 0x20, 0x03] @ replicate 31 0 @ [0x00, 0x40] @ replicate 64 0xab"

definition sample_initiator :: "7 initiator_state" where
  "sample_initiator = \<lparr>is_scalar = 3, is_sid = [3], is_ya = residue_bytes 3, is_ada = [], is_peerID = [2]\<rparr>"

definition sample_responder :: responder_state where
  "sample_responder = \<lparr>rs_isk = replicate 64 7, rs_sid = [3], rs_ya = residue_bytes 3, rs_ada = [], rs_yb = residue_bytes 3,
     rs_adb = [], rs_peerID = [1]\<rparr>"

definition finish_store :: "(7, 7, unit) store" where
  "finish_store = (empty_store ())\<lparr>brk := 9,
     mem := (\<lambda>_. [])(0 := [3], 1 := residue_bytes 3, 2 := [2], 3 := replicate 64 7,
       4 := transcript_value (residue_bytes 3) [] (residue_bytes 3) [], 5 := [1], 6 := sample_message_B, 7 := sample_C),
     scalars := (\<lambda>_. 3),
     icores := (\<lambda>_. \<lparr>ic_scalar = Some 0, ic_sid = Some 0, ic_ya = Some 1, ic_ada = None, ic_peerID = Some 2\<rparr>),
     rcores := (\<lambda>_. \<lparr>rc_isk = Some 3, rc_transcript = \<lparr>tr_transcript = Some 4, tr_ya = Some 1, tr_ada = None,
        tr_yb = Some 1, tr_adb = None\<rparr>, rc_sid = Some 0, rc_peerID = Some 5\<rparr>),
     ustates := (\<lambda>a. \<lparr>su_used = False, su_core = Some 0,
        su_uninitialized = (if a = 0 then uninitializedInitiator else uninitializedResponder)\<rparr>)\<rparr>"

lemma decode_sample_message_B:
  "decodeMessageB sample_message_B = Ok \<lparr>mb_yb = residue_bytes 3, mb_adb = [], mb_tag = replicate 64 0xab\<rparr>"
proof -
  have "decode messageBSpec sample_message_B = Ok [residue_bytes 3, [], replicate 64 0xab]"
    by (subst decode_iff [OF specs_cap_wf(2)])
      (simp add: sample_message_B_def messageBSpec_def message_cap_defs field_ok_def header_def lv_def residue_bytes_def
        leb_small wireFormatV1_def wireSuite_def currentSuite_def roleB_def)
  then show ?thesis by (simp add: decodeMessageB_def)
qed

lemma sample_ready:
  "initiator_ready finish_store \<lparr>i_state = Some 0\<rparr> 0 0 sample_initiator"
  "responder_ready finish_store \<lparr>r_state = Some 1\<rparr> 1 0 sample_responder"
  by (simp_all add: initiator_ready_def responder_ready_def initiator_at_def responder_at_def transcript_at_def
      finish_store_def sample_initiator_def sample_responder_def)

lemma sample_result:
  "mem finish_store 6 = sample_message_B" "mem finish_store 7 = sample_C"
  "initiator_result residues sample_initiator sample_message_B = Err (Sentinel ErrConfirmationFailed)"
  "responder_result sample_responder sample_C = Err (Sentinel ErrConfirmationFailed)"
proof -
  have "decoded_share residues responderPeerShare (residue_bytes 3) = Ok 3"
    by (simp add: decoded_share_Ok_iff share_residues)
  then show "initiator_result residues sample_initiator sample_message_B = Err (Sentinel ErrConfirmationFailed)"
    by (simp add: initiator_result_def decode_sample_message_B residue_values residue_bytes_neutral sample_initiator_def
        initiator_outcome_def Let_def)
  have "decodeMessageC sample_C = Ok \<lparr>mc_tag = replicate 64 0xab\<rparr>"
    by (simp add: decodeMessageC_def decode_sample_C)
  then show "responder_result sample_responder sample_C = Err (Sentinel ErrConfirmationFailed)"
    by (simp add: responder_result_def responder_outcome_def sample_responder_def)
qed (simp_all add: finish_store_def)

text \<open>C4. \<open>Initiator.Finish\<close>, on any copy of a fresh initiator, implements its specification on values: the
  errors of the decoder, of the peer's share and of the confirmation come in this order and are
  exactly those of \<open>initiator_result\<close>; success gives message C with the initiator's tag and an open
  session with the key, transcript id, peer data and peer identity that the values determine. On
  every path the state is spent and the scalar, the bytes of the shared secret and the local session key are erased before
  the call returns. The bytes left in memory are the session's own, public values, the two tags and the MAC key that the
  HMAC objects keep; the group elements left are the decoded share and the shared secret.\<close>

theorem Initiator_Finish_correct:
  assumes "initiator_ready s i a c st" and "valid s messageB" and "i_state j = i_state i"
  shows "\<exists>res t. Initiator_Finish R (Some j) messageB s = (res, t) \<and> initiator_wiped R (initiator_dropped R st (rd s messageB)) a c s t
    \<and> (case initiator_result R st (rd s messageB) of
         Err e \<Rightarrow> res = Err e \<and> (\<exists>V. scrubs V s t \<and> (\<forall>x \<in> V. mem t x \<in> initiator_residue R st (rd s messageB)))
       | Panic m \<Rightarrow> False
       | Ok (tagA, cf) \<Rightarrow> \<exists>m S V. res = Ok (m, S) \<and> session_at t S cf \<and> valid t m
           \<and> decodeMessageC (rd t m) = Ok \<lparr>mc_tag = tagA\<rparr>
           \<and> scrubs (session_cells t S \<union> V) s t \<and> (\<forall>x \<in> session_owned t S. brk s \<le> x)
           \<and> (\<forall>x \<in> cells [m]. brk s \<le> x \<and> x \<notin> session_owned t S)
           \<and> (\<forall>x \<in> V. mem t x \<in> insert (rd t m) (initiator_residue R st (rd s messageB))))"
proof -
  obtain res t where eq: "Initiator_Finish R (Some j) messageB s = (res, t)" by fastforce
  show ?thesis using initiator_finish_contract [OF assms eq] eq by (intro exI [of _ res] exI [of _ t]) blast
qed

theorem Initiator_Finish_correct_witness:
  "\<exists>t. Initiator_Finish residues (Some \<lparr>i_state = Some 0\<rparr>) (Some 6) finish_store = (Err (Sentinel ErrConfirmationFailed), t)
     \<and> ic_scalar (icores t 0) = None \<and> scalars t 0 = 0"
proof -
  have "valid finish_store (Some 6)" by (simp add: finish_store_def)
  moreover have "ic_scalar (icores finish_store 0) = Some 0" "NewScalar residues = 0"
    by (simp_all add: finish_store_def residues_def)
  ultimately show ?thesis
    using Initiator_Finish_correct [OF sample_ready(1) _ refl, of "Some 6" residues]
    by (auto simp: sample_result initiator_wiped_def)
qed

text \<open>C5. \<open>Responder.Finish\<close>, on any copy of a fresh responder, implements its specification on values:
  it accepts exactly the initiator's tag, unless that is its own, and then returns an open session
  with its key; on every path the state is spent, and the key and the transcript that it held are
  zeroed, while the session keeps its own copy. No group element is made; the bytes left are the session's, public
  values, the two tags and the MAC key that the HMAC objects keep.\<close>

theorem Responder_Finish_correct:
  assumes "responder_ready s r a c st" and "r_state q = r_state r"
  shows "\<exists>res t. Responder_Finish (Some q) messageC s = (res, t) \<and> responder_wiped a c s t
    \<and> (case responder_result st (rd s messageC) of
         Err e \<Rightarrow> res = Err e \<and> (\<exists>V. scrubs V s t \<and> (\<forall>x \<in> V. mem t x \<in> responder_residue st (rd s messageC)))
       | Panic m \<Rightarrow> False
       | Ok cf \<Rightarrow> \<exists>S V. res = Ok S \<and> session_at t S cf \<and> scrubs (session_cells t S \<union> V) s t
           \<and> (\<forall>x \<in> session_owned t S. brk s \<le> x)
           \<and> (\<forall>x \<in> V. mem t x \<in> responder_residue st (rd s messageC)))"
proof -
  obtain res t where eq: "Responder_Finish (Some q) messageC s = (res, t)" by fastforce
  show ?thesis using responder_finish_contract [OF assms eq] eq by (intro exI [of _ res] exI [of _ t]) blast
qed

theorem Responder_Finish_correct_witness:
  "\<exists>t. Responder_Finish (Some \<lparr>r_state = Some 1\<rparr>) (Some 7) finish_store = (Err (Sentinel ErrConfirmationFailed), t)
     \<and> mem t 3 = replicate 64 0"
proof -
  have "3 \<in> rcore_secret_cells (rcores finish_store 0)" "zeros (mem finish_store 3) = replicate 64 0"
    by (simp_all add: finish_store_def rcore_secret_cells_def zeros_eq)
  then show ?thesis
    using Responder_Finish_correct [OF sample_ready(2) refl, of "Some 7"]
    by (auto simp: sample_result responder_wiped_def)
qed

text \<open>C11. The initiator is single use, through any of its copies: after one \<open>Finish\<close>, whatever its
  outcome, or one \<open>Close\<close>, the scalar is erased, every further \<open>Finish\<close> fails with \<open>ErrStateUsed\<close> and
  every further \<open>Close\<close> succeeds, both without any effect. \<open>Close\<close> on nil succeeds, and a zero
  value gives \<open>ErrInvalidInput\<close>.\<close>

theorem Initiator_single_use:
  assumes "initiator_ready s i a c st" and "valid s messageB"
    and "t \<in> {snd (Initiator_Finish R (Some i) messageB s), snd (Initiator_Close R (Some i) s)}"
    and "i_state j = i_state i"
  shows "initiator_wiped R (initiator_dropped R st (rd s messageB)) a c s t \<and> fst (Initiator_Close R (Some i) s) = Ok ()
    \<and> Initiator_Finish R (Some j) msg t = (Err (Sentinel ErrStateUsed), t)
    \<and> Initiator_Close R (Some j) t = (Ok (), t) \<and> Initiator_Close R None t = (Ok (), t)
    \<and> (\<exists>e. Initiator_Finish R None msg t = (Err e, t) \<and> Initiator_Close R (Some \<lparr>i_state = None\<rparr>) t = (Err e, t)
         \<and> errors_Is e ErrInvalidInput)"
proof -
  have at: "initiator_at s c st" and i: "i_state i = Some a" using assms(1) by (simp_all add: initiator_ready_def)
  have close: "Initiator_Close R (Some i) s = (Ok (), initiatorCore_clear R (Some c) (claimed a s))"
    using close_contract(1) [OF assms(1) refl] .
  have "initiator_wiped R (initiator_dropped R st (rd s messageB)) a c s t"
    using assms(3) initiator_finish_contract [OF assms(1,2) refl surjective_pairing]
      initiator_exit(1) [OF at leaves_refl refl] close by auto
  moreover have "i_state j = Some a" using assms(4) i by simp
  moreover have "Initiator_Close R None t = (Ok (), t)"
    "Initiator_Finish R None msg t = (Err (errorf ErrInvalidInput uninitializedInitiator), t)"
    "Initiator_Close R (Some \<lparr>i_state = None\<rparr>) t = (Err (errorf ErrInvalidInput uninitializedInitiator), t)"
    by (simp_all add: Initiator_Close_def Initiator_Finish_def initiator_finishCore_def)
  moreover note spent_calls(1,2) [OF wiped_spent(1) [OF calculation(1)]]
  ultimately show ?thesis using close by simp
qed

theorem Initiator_single_use_witness:
  "Initiator_Finish residues (Some \<lparr>i_state = Some 0\<rparr>) (Some 6)
      (snd (Initiator_Close residues (Some \<lparr>i_state = Some 0\<rparr>) finish_store))
    = (Err (Sentinel ErrStateUsed), snd (Initiator_Close residues (Some \<lparr>i_state = Some 0\<rparr>) finish_store))"
proof -
  have v: "valid finish_store (Some 6)" by (simp add: finish_store_def)
  show ?thesis
    by (rule Initiator_single_use [OF sample_ready(1) v, THEN conjunct2, THEN conjunct2, THEN conjunct1]) simp_all
qed

text \<open>C12. The responder is single use in the same way; what its wipe erases is the session key and the
  transcript.\<close>

theorem Responder_single_use:
  assumes "responder_ready s r a c st"
    and "t \<in> {snd (Responder_Finish (Some r) messageC s), snd (Responder_Close (Some r) s)}"
    and "r_state q = r_state r"
  shows "responder_wiped a c s t \<and> fst (Responder_Close (Some r) s) = Ok ()
    \<and> Responder_Finish (Some q) msg t = (Err (Sentinel ErrStateUsed), t)
    \<and> Responder_Close (Some q) t = (Ok (), t) \<and> Responder_Close None t = (Ok (), t)
    \<and> (\<exists>e. Responder_Finish None msg t = (Err e, t) \<and> Responder_Close (Some \<lparr>r_state = None\<rparr>) t = (Err e, t)
         \<and> errors_Is e ErrInvalidInput)"
proof -
  have at: "responder_at s c st" and r: "r_state r = Some a" using assms(1) by (simp_all add: responder_ready_def)
  have close: "Responder_Close (Some r) s = (Ok (), responderCore_clear (Some c) (claimed a s))"
    using close_contract(2) [OF assms(1) refl] .
  have "responder_wiped a c s t"
    using assms(2) responder_finish_contract [OF assms(1) refl surjective_pairing]
      responder_exit_clear(1) [OF at leaves_refl refl] close by auto
  moreover have "r_state q = Some a" using assms(3) r by simp
  moreover have "Responder_Close None t = (Ok (), t)"
    "Responder_Finish None msg t = (Err (errorf ErrInvalidInput uninitializedResponder), t)"
    "Responder_Close (Some \<lparr>r_state = None\<rparr>) t = (Err (errorf ErrInvalidInput uninitializedResponder), t)"
    by (simp_all add: Responder_Close_def Responder_Finish_def responder_finishCore_def)
  moreover note spent_calls(3,4) [OF wiped_spent(2) [OF calculation(1)]]
  ultimately show ?thesis using close by simp
qed

theorem Responder_single_use_witness:
  "Responder_Finish (Some \<lparr>r_state = Some 1\<rparr>) (Some 7) (snd (Responder_Close (Some \<lparr>r_state = Some 1\<rparr>) finish_store))
    = (Err (Sentinel ErrStateUsed), snd (Responder_Close (Some \<lparr>r_state = Some 1\<rparr>) finish_store))"
  by (rule Responder_single_use [OF sample_ready(2), THEN conjunct2, THEN conjunct2, THEN conjunct1]) simp_all

end
