(* ===== verification/Protocol.thy ===== *)
theory Protocol
  imports Finish
begin

text \<open>
  The composition of the two roles: an honest exchange over two stores, one per machine, with the
  messages copied from one to the other, and what the messages of an attacker can and cannot do.
\<close>

section \<open>The exchange on values\<close>

text \<open>Two configurations that belong together: same secret, context and session id, mirrored identities.\<close>

definition mirrored :: "inputs \<Rightarrow> inputs \<Rightarrow> bool" where
  "mirrored v u \<longleftrightarrow> iv_password v = iv_password u \<and> iv_self v = iv_peer u \<and> iv_peer v = iv_self u
     \<and> iv_context v = iv_context u \<and> iv_sid v = iv_sid u"

lemma mirrored_generator:
  "mirrored v u \<Longrightarrow> generator R (normal_form initiatorInputRole v) = generator R (normal_form responderInputRole u)"
  by (simp add: mirrored_def generator_def normal_form_def Let_def initiatorInputRole_def responderInputRole_def)

text \<open>Both parties compute the same Diffie-Hellman result, and the responder's share is usable if it is.\<close>

lemma key_exchange:
  assumes "encoding_laws R" and "commuting_law R" and "identity_law R"
    and "share R (scalarMult_bytes R x g) = Some p" and "scalarMult_bytes R y p \<noteq> replicate 32 0"
  shows "\<exists>q. share R (scalarMult_bytes R y g) = Some q \<and> scalarMult_bytes R x q = scalarMult_bytes R y p"
proof -
  let ?q = "Element_ScalarMult R y g"
  have dec: "Element_SetCanonicalBytes R (Element_Bytes R e) = Some e" "length (Element_Bytes R e) = 32" for e
    using assms(1) by (simp_all add: encoding_laws_def)
  have p: "p = Element_ScalarMult R x g"
    using assms(4) by (auto simp: share_def scalarMult_bytes_def dec split: if_splits)
  then have eq: "Element_ScalarMult R x ?q = Element_ScalarMult R y p"
    using assms(2) by (simp add: commuting_law_def)
  have "?q \<noteq> NewIdentityElement R"
    using assms(1,3,5) eq by (auto simp: scalarMult_bytes_def identity_encoding identity_law_def)
  then show ?thesis using assms(1) eq by (simp add: share_def scalarMult_bytes_def dec identity_encoding)
qed

lemma exchange_values:
  assumes "encoding_laws R" and "commuting_law R" and "identity_law R" and "mirrored v u"
    and "start_spec R rd1 v w1 = Ok I" and "respond_spec R rd2 u msgA w2 = Ok st"
    and "decodeMessageA msgA = Ok \<lparr>ma_sid = is_sid I, ma_ya = is_ya I, ma_ada = is_ada I\<rparr>"
    and "decodeMessageB msgB = Ok \<lparr>mb_yb = rs_yb st, mb_adb = rs_adb st,
           mb_tag = tag_value (rs_isk st) (rs_sid st) (rs_yb st) (rs_adb st)\<rparr>"
    and "tagA = tag_value (rs_isk st) (rs_sid st) (rs_ya st) (rs_ada st)"
    and "tid = transcriptID (transcript_value (rs_ya st) (rs_ada st) (rs_yb st) (rs_adb st))"
  shows "initiator_result R I msgB =
      (if tag_value (rs_isk st) (rs_sid st) (rs_yb st) (rs_adb st) = tagA then Err (Sentinel ErrConfirmationFailed)
       else Ok (tagA, \<lparr>cf_isk = rs_isk st, cf_transcriptID = tid, cf_peerAD = iv_ad u, cf_peerID = iv_peer v\<rparr>))"
    and "decodeMessageC msgC = Ok \<lparr>mc_tag = tagA\<rparr> \<Longrightarrow> responder_result st msgC =
      (if tag_value (rs_isk st) (rs_sid st) (rs_yb st) (rs_adb st) = tagA then Err (Sentinel ErrConfirmationFailed)
       else Ok \<lparr>cf_isk = rs_isk st, cf_transcriptID = tid, cf_peerAD = iv_ad v, cf_peerID = iv_peer u\<rparr>)"
    and "rs_sid st = iv_sid v \<and> rs_ya st = is_ya I \<and> rs_ada st = is_ada I"
proof -
  let ?v = "normal_form initiatorInputRole v" and ?u = "normal_form responderInputRole u"
  obtain g x where g: "generator R ?v = Some g" and I: "I = start_state R v g x"
    using assms(5) by (auto simp: start_spec_def split: option.splits go.splits)
  have g': "generator R ?u = Some g" using mirrored_generator [OF assms(4), of R] g by simp
  obtain p y where p: "decoded_share R initiatorPeerShare (is_ya I) = Ok p"
    and y: "sampled R rd2 w2 = Ok y" "scalarMult_bytes R y p \<noteq> replicate 32 0"
    and st: "st = respond_state ?u (is_ya I) (is_ada I) (scalarMult_bytes R y g) (scalarMult_bytes R y p)"
    using assms(6,7) g' by (auto simp: respond_spec_def respond_result_def split: option.splits go.splits if_splits)
  have "share R (scalarMult_bytes R x g) = Some p" using p by (simp add: decoded_share_Ok_iff I start_state_def)
  then obtain q where q: "share R (scalarMult_bytes R y g) = Some q" "scalarMult_bytes R x q = scalarMult_bytes R y p"
    using key_exchange [OF assms(1-3) _ y(2)] by blast
  have dec: "decoded_share R responderPeerShare (scalarMult_bytes R y g) = Ok q" using q(1) by (simp add: decoded_share_Ok_iff)
  have u: "nv_sid ?u = iv_sid v" "nv_ad ?u = iv_ad u" "nv_initiatorID ?u = iv_peer u" "iv_sid u = iv_sid v"
    using assms(4) by (simp_all add: normal_form_def mirrored_def Let_def initiatorInputRole_def responderInputRole_def)
  show "rs_sid st = iv_sid v \<and> rs_ya st = is_ya I \<and> rs_ada st = is_ada I" using u by (simp add: st respond_state_def)
  show "initiator_result R I msgB =
      (if tag_value (rs_isk st) (rs_sid st) (rs_yb st) (rs_adb st) = tagA then Err (Sentinel ErrConfirmationFailed)
       else Ok (tagA, \<lparr>cf_isk = rs_isk st, cf_transcriptID = tid, cf_peerAD = iv_ad u, cf_peerID = iv_peer v\<rparr>))"
    using y(2) u
    by (simp add: initiator_result_def assms(8-10) st respond_state_def dec I start_state_def q(2) initiator_outcome_def Let_def)
  show "responder_result st msgC =
      (if tag_value (rs_isk st) (rs_sid st) (rs_yb st) (rs_adb st) = tagA then Err (Sentinel ErrConfirmationFailed)
       else Ok \<lparr>cf_isk = rs_isk st, cf_transcriptID = tid, cf_peerAD = iv_ad v, cf_peerID = iv_peer u\<rparr>)"
    if "decodeMessageC msgC = Ok \<lparr>mc_tag = tagA\<rparr>"
    using that u
    by (auto simp: responder_result_def responder_outcome_def assms(9,10) st respond_state_def I start_state_def)
qed

text \<open>The arrival of a message leaves the waiting party as it is.\<close>

lemma ready_allocates:
  assumes "allocates W s t"
  shows "initiator_ready s i a c I \<Longrightarrow> initiator_ready t i a c I"
    and "responder_ready s r a c st \<Longrightarrow> responder_ready t r a c st"
proof -
  have b: "brk s \<le> brk t" and g: "ustates t = ustates s" using assms allocates_brk by (auto simp: allocates_def)
  show "initiator_ready t i a c I" if "initiator_ready s i a c I"
    using that initiator_at_allocates [OF _ assms] b g by (auto simp: initiator_ready_def)
  show "responder_ready t r a c st" if ready: "responder_ready s r a c st"
  proof -
    have at: "responder_at s c st" using ready by (simp add: responder_ready_def)
    have "responder_at t c st"
    proof (rule responder_at_mono [OF at b])
      show "rcores t c = rcores s c" using assms by (simp add: allocates_def)
      show "\<forall>x \<in> rcore_cells (rcores s c). mem t x = mem s x"
        using responder_at_cells [OF at] assms by (simp add: allocates_def keeps_def)
    qed
    then show ?thesis using ready b g by (simp add: responder_ready_def)
  qed
qed

section \<open>Authentication\<close>

text \<open>
  What one party believes about an exchange: session id, Diffie-Hellman result, and the shares and
  associated data of both sides. The key and the two confirmation tags are functions of it.
\<close>

record view =
  vw_sid :: bytes
  vw_k :: bytes
  vw_ya :: bytes
  vw_ada :: bytes
  vw_yb :: bytes
  vw_adb :: bytes

definition view_material :: "view \<Rightarrow> bytes" where
  "view_material w = ISK_material (vw_sid w) (vw_k w) (transcript_value (vw_ya w) (vw_ada w) (vw_yb w) (vw_adb w))"

definition view_mac_key :: "view \<Rightarrow> bytes" where
  "view_mac_key w = mac_key_material (Sum512 (view_material w)) (vw_sid w)"

definition view_tagA :: "view \<Rightarrow> bytes" where
  "view_tagA w = tag_value (Sum512 (view_material w)) (vw_sid w) (vw_ya w) (vw_ada w)"

definition view_tagB :: "view \<Rightarrow> bytes" where
  "view_tagB w = tag_value (Sum512 (view_material w)) (vw_sid w) (vw_yb w) (vw_adb w)"

definition view_session :: "view \<Rightarrow> bytes \<Rightarrow> bytes \<Rightarrow> confirmed" where
  "view_session w ad pid = \<lparr>cf_isk = Sum512 (view_material w),
     cf_transcriptID = transcriptID (transcript_value (vw_ya w) (vw_ada w) (vw_yb w) (vw_adb w)),
     cf_peerAD = ad, cf_peerID = pid\<rparr>"

definition bounded_view :: "view \<Rightarrow> bool" where
  "bounded_view w \<longleftrightarrow> list_all go_slice [vw_sid w, vw_k w, vw_ya w, vw_ada w, vw_yb w, vw_adb w]"

definition initiator_view :: "('s, 'e) ristretto \<Rightarrow> 's initiator_state \<Rightarrow> messageB \<Rightarrow> view" where
  "initiator_view R I B = \<lparr>vw_sid = is_sid I, vw_k = scalarMult_bytes R (is_scalar I) (the (share R (mb_yb B))),
     vw_ya = is_ya I, vw_ada = is_ada I, vw_yb = mb_yb B, vw_adb = mb_adb B\<rparr>"

text \<open>
  A concrete collision: the hash functions are not injective, so statements about them name the two
  inputs that would have to collide.
\<close>

definition collides :: "('a \<Rightarrow> 'b) \<Rightarrow> 'a \<Rightarrow> 'a \<Rightarrow> bool" where
  "collides f x y \<longleftrightarrow> x \<noteq> y \<and> f x = f y"

definition hash_collision :: "view \<Rightarrow> view \<Rightarrow> bool" where
  "hash_collision w w' \<longleftrightarrow> collides Sum512 (view_material w) (view_material w')
     \<or> collides Sum512 (view_mac_key w) (view_mac_key w')"

definition mac_collision :: "view \<Rightarrow> view \<Rightarrow> bytes list \<Rightarrow> bytes list \<Rightarrow> bool" where
  "mac_collision w w' x y \<longleftrightarrow>
     collides (\<lambda>(k, m). hmac_sha512 k m) (Sum512 (view_mac_key w), lvCat x) (Sum512 (view_mac_key w'), lvCat y)"

lemma view_agreement:
  assumes "bounded_view w" and "bounded_view w'"
    and "tag_value (Sum512 (view_material w)) (vw_sid w) y ad = tag_value (Sum512 (view_material w')) (vw_sid w') y' ad'"
  shows "w = w' \<or> hash_collision w w' \<or> mac_collision w w' [y, ad] [y', ad']"
proof (rule ccontr)
  assume *: "\<not> ?thesis"
  have "Sum512 (view_mac_key w) = Sum512 (view_mac_key w')"
    using * assms(3) by (auto simp: tag_value_def mac_collision_def collides_def view_mac_key_def)
  then have "view_mac_key w = view_mac_key w'" using * by (auto simp: hash_collision_def collides_def)
  then have "vw_sid w @ Sum512 (view_material w) = vw_sid w' @ Sum512 (view_material w')"
    by (simp add: view_mac_key_def mac_key_material_def)
  moreover have "length (Sum512 (view_material w)) = length (Sum512 (view_material w'))" by simp
  ultimately have "Sum512 (view_material w) = Sum512 (view_material w')"
    by (blast dest: append_eq_append_same_suffix_length)
  then have "view_material w = view_material w'" using * by (auto simp: hash_collision_def collides_def)
  then have m: "vw_sid w = vw_sid w' \<and> vw_k w = vw_k w' \<and> transcript_value (vw_ya w) (vw_ada w) (vw_yb w) (vw_adb w)
      = transcript_value (vw_ya w') (vw_ada w') (vw_yb w') (vw_adb w')"
    unfolding view_material_def using assms(1,2) by (intro ISK_material_inj) (simp_all add: bounded_view_def)
  have "vw_ya w = vw_ya w' \<and> vw_ada w = vw_ada w' \<and> vw_yb w = vw_yb w' \<and> vw_adb w = vw_adb w'"
    using assms(1,2) m by (intro transcript_inj) (simp_all add: bounded_view_def)
  then have "w = w'" using m by simp
  then show False using * by simp
qed

lemma initiator_result_view:
  assumes "decodeMessageB msg = Ok B" and "initiator_result R I msg = Ok (tagA, cf)"
  shows "let w = initiator_view R I B in mb_tag B = view_tagB w \<and> tagA = view_tagA w
     \<and> cf = view_session w (vw_adb w) (is_peerID I)"
proof -
  obtain p where p: "share R (mb_yb B) = Some p"
    and out: "initiator_outcome I (scalarMult_bytes R (is_scalar I) p) (mb_yb B) (mb_adb B) (mb_tag B) = Some (tagA, cf)"
    using assms by (auto simp: initiator_result_def decoded_share_Ok_iff split: go.splits if_splits option.splits)
  then show ?thesis
    by (auto simp: initiator_view_def initiator_outcome_def ISK_value_def view_material_def view_tagA_def view_tagB_def
        view_session_def Let_def split: if_splits)
qed

text \<open>The state of a responder with a given view, and its decision on a message C.\<close>

definition responder_of :: "view \<Rightarrow> bytes \<Rightarrow> responder_state" where
  "responder_of w pid = \<lparr>rs_isk = Sum512 (view_material w), rs_sid = vw_sid w, rs_ya = vw_ya w, rs_ada = vw_ada w,
     rs_yb = vw_yb w, rs_adb = vw_adb w, rs_peerID = pid\<rparr>"

lemma respond_state_view:
  "respond_state v ya ada yb k = responder_of \<lparr>vw_sid = nv_sid v, vw_k = k, vw_ya = ya, vw_ada = ada, vw_yb = yb, vw_adb = nv_ad v\<rparr>
     (nv_initiatorID v)"
  by (simp add: respond_state_def responder_of_def view_material_def ISK_value_def)

lemma responder_result_view:
  assumes "decodeMessageC msg = Ok C"
  shows "responder_result (responder_of w pid) msg =
    (if mc_tag C = view_tagA w \<and> mc_tag C \<noteq> view_tagB w then Ok (view_session w (vw_ada w) pid)
     else Err (Sentinel ErrConfirmationFailed))"
  by (auto simp: responder_result_def assms responder_outcome_def responder_of_def view_tagA_def view_tagB_def view_session_def)

section \<open>Properties\<close>

text \<open>C6. An honest exchange succeeds. Two machines with mirrored configurations run the four calls and
  hand each message over as bytes: then the initiator accepts message B unless the two
  confirmation tags under the key that the responder holds coincide, which both sides refuse; and when it accepts, the responder accepts
  message C, both sessions are open with the same key and the same transcript id, and each reports the
  other's associated data and the identity it was configured to expect.\<close>

theorem honest_exchange:
  assumes "uniform_law R" and "encoding_laws R" and "commuting_law R" and "identity_law R"
    and "valid_input s input" and "valid_input u input'"
    and "v = inputs_of (mem s) input" and "w = inputs_of (mem u) input'" and "mirrored v w"
    and "Start R rd1 input s = (Ok (i, mA), s1)"
    and "alloc (rd s1 mA) u = (a, u1)" and "Respond R rd2 input' a u1 = (Ok (r, mB), u2)"
    and "alloc (rd u2 mB) s1 = (b, s2)" and "Initiator_Finish R (Some i) b s2 = (res, s3)"
  shows "case res of
      Err e \<Rightarrow> e = Sentinel ErrConfirmationFailed
        \<and> (\<exists>ra rc st A B. responder_ready u2 r ra rc st \<and> decodeMessageA (rd s1 mA) = Ok A \<and> decodeMessageB (rd u2 mB) = Ok B
             \<and> tag_value (rs_isk st) (iv_sid v) (ma_ya A) (ma_ada A) = tag_value (rs_isk st) (iv_sid v) (mb_yb B) (mb_adb B))
    | Panic m \<Rightarrow> False
    | Ok (mC, S) \<Rightarrow> \<exists>c u3 S' u4 k tid. alloc (rd s3 mC) u2 = (c, u3) \<and> Responder_Finish (Some r) c u3 = (Ok S', u4)
        \<and> session_at s3 S \<lparr>cf_isk = k, cf_transcriptID = tid, cf_peerAD = iv_ad w, cf_peerID = iv_peer v\<rparr>
        \<and> session_at u4 S' \<lparr>cf_isk = k, cf_transcriptID = tid, cf_peerAD = iv_ad v, cf_peerID = iv_peer w\<rparr>"
proof -
  obtain I ia ic where I: "start_spec R rd1 v (rand s) = Ok I" "initiator_ready s1 i ia ic I" "valid s1 mA"
      "decodeMessageA (rd s1 mA) = Ok \<lparr>ma_sid = is_sid I, ma_ya = is_ya I, ma_ada = is_ada I\<rparr>"
    using start_contract_spec [OF assms(5,1,2,10)] unfolding assms(7) [symmetric] by (auto split: go.splits)
  note au = allocates_alloc [OF assms(11)] and bs = allocates_alloc [OF assms(13)]
  have w: "inputs_of (mem u1) input' = w" "valid_input u1 input'" "valid u1 a" "rd u1 a = rd s1 mA"
    using assms(6,8) au allocates_rd [OF au(2)] allocates_valid [OF au(2)] by (simp_all add: inputs_of_def valid_input_def)
  obtain st ra rc where st: "respond_spec R rd2 w (rd s1 mA) (rand u1) = Ok st" "responder_ready u2 r ra rc st"
      "decodeMessageB (rd u2 mB) = Ok \<lparr>mb_yb = rs_yb st, mb_adb = rs_adb st,
                mb_tag = tag_value (rs_isk st) (rs_sid st) (rs_yb st) (rs_adb st)\<rparr>"
    using respond_contract [OF w(2,3) assms(1,2) assms(12) [unfolded Respond_def] w(1) [symmetric],
        unfolded random_source_def option.case w(4)]
    by (auto split: go.splits)
  note vals = exchange_values [OF assms(2-4,9) I(1) st(1) I(4) st(3) refl refl]
  have ready: "initiator_ready s2 i ia ic I" by (rule ready_allocates(1) [OF bs(2) I(2)])
  have b: "valid s2 b" "rd s2 b = rd u2 mB" using bs by simp_all
  note fin = initiator_finish_contract [OF ready b(1) refl assms(14), unfolded b(2)]
  let ?tagA = "tag_value (rs_isk st) (rs_sid st) (rs_ya st) (rs_ada st)"
    and ?tagB = "tag_value (rs_isk st) (rs_sid st) (rs_yb st) (rs_adb st)"
  show ?thesis
  proof (cases "?tagB = ?tagA")
    case True
    then have "res = Err (Sentinel ErrConfirmationFailed)" using fin vals(1) by simp
    moreover have "tag_value (rs_isk st) (iv_sid v) (is_ya I) (is_ada I) = tag_value (rs_isk st) (iv_sid v) (rs_yb st) (rs_adb st)"
      using True vals(3) by simp
    ultimately show ?thesis using I(4) st(2,3) by simp (intro exI conjI; (assumption | simp))
  next
    case False
    obtain mC S where res: "res = Ok (mC, S)" "decodeMessageC (rd s3 mC) = Ok \<lparr>mc_tag = ?tagA\<rparr>"
      and S: "session_at s3 S \<lparr>cf_isk = rs_isk st, cf_transcriptID = transcriptID (transcript_value (rs_ya st) (rs_ada st)
        (rs_yb st) (rs_adb st)), cf_peerAD = iv_ad w, cf_peerID = iv_peer v\<rparr>"
      using fin vals(1) False by auto
    obtain c u3 where C: "alloc (rd s3 mC) u2 = (c, u3)" by fastforce
    note cu = allocates_alloc [OF C]
    have ready: "responder_ready u3 r ra rc st" by (rule ready_allocates(2) [OF cu(2) st(2)])
    obtain res' u4 where F: "Responder_Finish (Some r) c u3 = (res', u4)" by fastforce
    have "rd u3 c = rd s3 mC" using cu by simp
    then obtain S' where "res' = Ok S'" "session_at u4 S' \<lparr>cf_isk = rs_isk st, cf_transcriptID = transcriptID
        (transcript_value (rs_ya st) (rs_ada st) (rs_yb st) (rs_adb st)), cf_peerAD = iv_ad v, cf_peerID = iv_peer w\<rparr>"
      using responder_finish_contract [OF ready refl F] vals(2) [OF res(2)] False by auto
    then show ?thesis using res(1) S C F by (simp only: go.case prod.case) blast
  qed
qed

text \<open>A responder's configuration that mirrors the sample input.\<close>

definition mirror_input :: inputStruct where
  "mirror_input = sample_input\<lparr>in_SelfID := Some 2, in_PeerID := Some 1\<rparr>"

lemma mirror_simps:
  "valid_input (sample_store w) mirror_input" "acceptable (inputs_of (mem (sample_store w)) mirror_input)"
  "mirrored (inputs_of (mem (sample_store w)) sample_input) (inputs_of (mem (sample_store w)) mirror_input)"
  "iv_sid (inputs_of (mem (sample_store w)) mirror_input) = [3]"
  by (simp_all add: valid_input_def mirror_input_def sample_input_def sample_store_def acceptable_def inputs_of_def mirrored_def)

theorem honest_exchange_witness:
  "\<exists>i mA s1 a u1 r mB u2 b s2 res s3.
     Start residues (constant_reader 3) sample_input (sample_store ()) = (Ok (i, mA), s1)
     \<and> alloc (rd s1 mA) (sample_store ()) = (a, u1)
     \<and> Respond residues (constant_reader 5) mirror_input a u1 = (Ok (r, mB), u2)
     \<and> alloc (rd u2 mB) s1 = (b, s2) \<and> Initiator_Finish residues (Some i) b s2 = (res, s3)
     \<and> (case res of
          Err e \<Rightarrow> e = Sentinel ErrConfirmationFailed
        | Panic m \<Rightarrow> False
        | Ok (mC, S) \<Rightarrow> \<exists>c u3 S' u4. alloc (rd s3 mC) u2 = (c, u3) \<and> Responder_Finish (Some r) c u3 = (Ok S', u4))"
proof -
  let ?s = "sample_store ()" and ?v = "inputs_of (mem (sample_store ())) sample_input"
    and ?w = "inputs_of (mem (sample_store ())) mirror_input"
  obtain x s1 where S: "Start residues (constant_reader 3) sample_input ?s = (x, s1)" by fastforce
  have "start_spec residues (constant_reader 3) ?v (rand ?s) = Ok (start_state residues ?v 1 3)"
    using sample_simps(2) [of "()"] by (simp add: start_spec_def residue_values input_error_None [symmetric])
  then obtain i mA where x: "x = Ok (i, mA)" "decodeMessageA (rd s1 mA) = Ok \<lparr>ma_sid = [3], ma_ya = residue_bytes 3, ma_ada = []\<rparr>"
    using start_contract_spec [OF sample_simps(1) residues_laws(1) residues_encoding S]
    by (auto simp: start_state_def sample_values residue_values)
  obtain a u1 where A: "alloc (rd s1 mA) ?s = (a, u1)" by fastforce
  note au = allocates_alloc [OF A]
  obtain y u2 where Rs: "Respond residues (constant_reader 5) mirror_input a u1 = (y, u2)" by fastforce
  have w: "inputs_of (mem u1) mirror_input = ?w" "valid_input u1 mirror_input" "valid u1 a" "rd u1 a = rd s1 mA"
    using mirror_simps(1) [of "()"] au allocates_rd [OF au(2)] allocates_valid [OF au(2)]
    by (simp_all add: inputs_of_def valid_input_def)
  have dec: "decoded_share residues initiatorPeerShare (residue_bytes 3) = Ok 3"
    by (simp add: decoded_share_Ok_iff share_residues)
  have sid: "nv_sid (normal_form responderInputRole ?w) = [3]"
    using mirror_simps(4) [of "()"] by (simp add: normal_form_def Let_def)
  have "respond_spec residues (constant_reader 5) ?w (rd s1 mA) (rand u1) = Ok (respond_state
      (normal_form responderInputRole ?w) (residue_bytes 3) [] (residue_bytes 5) (residue_bytes 15))"
    using mirror_simps(2) [of "()"]
    by (simp add: respond_spec_def respond_result_def residue_values input_error_None [symmetric] x(2) dec sid residue_bytes_neutral)
  then obtain r mB where y: "y = Ok (r, mB)"
    using respond_contract [OF w(2,3) residues_laws(1) residues_encoding Rs [unfolded Respond_def] w(1) [symmetric],
        unfolded random_source_def option.case w(4)]
    by auto
  obtain b s2 where B: "alloc (rd u2 mB) s1 = (b, s2)" by fastforce
  obtain res s3 where F: "Initiator_Finish residues (Some i) b s2 = (res, s3)" by fastforce
  from honest_exchange [OF residues_laws(1) residues_encoding residues_laws(2,5) sample_simps(1) mirror_simps(1) refl refl
      mirror_simps(3) S [unfolded x(1)] A Rs [unfolded y] B F]
  have "case res of
          Err e \<Rightarrow> e = Sentinel ErrConfirmationFailed
        | Panic m \<Rightarrow> False
        | Ok (mC, S) \<Rightarrow> \<exists>c u3 S' u4. alloc (rd s3 mC) u2 = (c, u3) \<and> Responder_Finish (Some r) c u3 = (Ok S', u4)"
    by (auto split: go.splits)
  with S [unfolded x(1)] A Rs [unfolded y] B F show ?thesis by blast
qed

text \<open>C7. The responder's tag authenticates the exchange to the initiator: when \<open>Finish\<close> accepts a message B
  whose tag is that of a responder with view \<open>w\<close>, whatever happened to the other fields on the way, then
  the initiator's own view is \<open>w\<close>: same session id, same shared secret, same shares and data of both
  sides; and the session has that responder's key and data. The only way out are collisions of
  SHA-512 or HMAC between strings that the statement names.\<close>

theorem initiator_authenticates:
  assumes "initiator_ready s i a c I" and "valid s b" and "decodeMessageB (rd s b) = Ok B"
    and "bounded_view (initiator_view R I B)" and "bounded_view w" and "mb_tag B = view_tagB w"
  shows "\<exists>res t. Initiator_Finish R (Some i) b s = (res, t)
    \<and> (case res of
         Err e \<Rightarrow> initiator_result R I (rd s b) = Err e
       | Panic m \<Rightarrow> False
       | Ok (m, S) \<Rightarrow>
           initiator_view R I B = w \<and> session_at t S (view_session w (vw_adb w) (is_peerID I))
             \<and> decodeMessageC (rd t m) = Ok \<lparr>mc_tag = view_tagA w\<rparr>
         \<or> hash_collision (initiator_view R I B) w
         \<or> mac_collision (initiator_view R I B) w [mb_yb B, mb_adb B] [vw_yb w, vw_adb w])"
proof -
  let ?w = "initiator_view R I B"
  obtain res t where F: "Initiator_Finish R (Some i) b s = (res, t)" by fastforce
  note fin = initiator_finish_contract [OF assms(1,2) refl F]
  show ?thesis
  proof (cases "initiator_result R I (rd s b)")
    case (Err e)
    then show ?thesis using fin F by auto
  next
    case (Panic m)
    then show ?thesis using fin by simp
  next
    case (Ok x)
    obtain tagA cf where x: "x = (tagA, cf)" by fastforce
    note v = initiator_result_view [OF assms(3) Ok [unfolded x], unfolded Let_def]
    obtain m S where S: "res = Ok (m, S)" "session_at t S cf" "decodeMessageC (rd t m) = Ok \<lparr>mc_tag = tagA\<rparr>"
      using fin Ok x by auto
    have "view_tagB ?w = view_tagB w" using v assms(6) by simp
    then have "?w = w \<or> hash_collision ?w w \<or> mac_collision ?w w [vw_yb ?w, vw_adb ?w] [vw_yb w, vw_adb w]"
      unfolding view_tagB_def by (rule view_agreement [OF assms(4,5)])
    moreover have "vw_yb ?w = mb_yb B" "vw_adb ?w = mb_adb B" by (simp_all add: initiator_view_def)
    ultimately show ?thesis using F S v by (intro exI [of _ res] exI [of _ t]) auto
  qed
qed

text \<open>An initiator that waits for message B, and the message of a responder with its view; a view with another key.\<close>

definition sample_view :: view where
  "sample_view = \<lparr>vw_sid = [3], vw_k = [1], vw_ya = residue_bytes 3, vw_ada = [], vw_yb = residue_bytes 5, vw_adb = []\<rparr>"

definition agreed_view :: view where
  "agreed_view = initiator_view residues sample_initiator \<lparr>mb_yb = residue_bytes 5, mb_adb = [], mb_tag = []\<rparr>"

lemma length_residue_bytes [simp]: "length (residue_bytes e) = 32"
  by (simp add: residue_bytes_def)

lemma sample_bounded: "bounded_view sample_view"
  by (simp add: bounded_view_def sample_view_def go_slice_def)

lemma agreed_bounded: "bounded_view agreed_view"
  by (simp add: bounded_view_def agreed_view_def initiator_view_def sample_initiator_def go_slice_def residue_values)

lemma no_collision [simp]: "\<not> hash_collision w w" "\<not> mac_collision w w x x"
  by (simp_all add: hash_collision_def mac_collision_def collides_def)

theorem initiator_authenticates_witness:
  "\<exists>msg res t. decodeMessageB msg = Ok \<lparr>mb_yb = residue_bytes 5, mb_adb = [], mb_tag = view_tagB agreed_view\<rparr>
     \<and> Initiator_Finish residues (Some \<lparr>i_state = Some 0\<rparr>) (Some 6) (finish_store\<lparr>mem := (mem finish_store)(6 := msg)\<rparr>) = (res, t)
     \<and> (case res of
          Err e \<Rightarrow> initiator_result residues sample_initiator msg = Err e
        | Panic m \<Rightarrow> False
        | Ok (m, S) \<Rightarrow> session_at t S (view_session agreed_view [] (is_peerID sample_initiator))
            \<and> decodeMessageC (rd t m) = Ok \<lparr>mc_tag = view_tagA agreed_view\<rparr>)"
proof -
  let ?B = "\<lparr>mb_yb = residue_bytes 5, mb_adb = [], mb_tag = view_tagB agreed_view\<rparr>"
  obtain msg where msg: "decodeMessageB msg = Ok ?B"
    using message_B_ok [of "residue_bytes 5" "[]" "view_tagB agreed_view"] by (auto simp: view_tagB_def)
  let ?s = "finish_store\<lparr>mem := (mem finish_store)(6 := msg)\<rparr>"
  have ready: "initiator_ready ?s \<lparr>i_state = Some 0\<rparr> 0 0 sample_initiator" "valid ?s (Some 6)" "rd ?s (Some 6) = msg"
    by (simp_all add: initiator_ready_def initiator_at_def finish_store_def sample_initiator_def)
  have view: "initiator_view residues sample_initiator ?B = agreed_view" by (simp add: agreed_view_def initiator_view_def)
  have fields: "vw_adb agreed_view = []" "vw_yb agreed_view = residue_bytes 5" by (simp_all add: agreed_view_def initiator_view_def)
  have tag: "mb_tag ?B = view_tagB agreed_view" by simp
  have dec: "decodeMessageB (rd ?s (Some 6)) = Ok ?B" by (simp only: ready(3) msg)
  from initiator_authenticates [OF ready(1,2) dec, of residues agreed_view, unfolded view ready(3),
      OF agreed_bounded agreed_bounded tag, unfolded fields messageB.simps]
  have "\<exists>res t. Initiator_Finish residues (Some \<lparr>i_state = Some 0\<rparr>) (Some 6) ?s = (res, t)
    \<and> (case res of Err e \<Rightarrow> initiator_result residues sample_initiator msg = Err e | Panic m \<Rightarrow> False
        | Ok (m, S) \<Rightarrow> session_at t S (view_session agreed_view [] (is_peerID sample_initiator))
            \<and> decodeMessageC (rd t m) = Ok \<lparr>mc_tag = view_tagA agreed_view\<rparr>)"
    by (simp only: no_collision simp_thms)
  with msg show ?thesis by blast
qed

text \<open>C8. The initiator's tag authenticates the exchange to the responder in the same way: a responder with view
  \<open>w\<close> that accepts a message C with the tag of an initiator with view \<open>w'\<close> has that same view, or a named
  collision exists; it accepts no tag other than that of its own view, and the session that it returns has the
  key and the data of that view.\<close>

theorem responder_authenticates:
  assumes "responder_ready u r a c (responder_of w pid)" and "decodeMessageC (rd u m) = Ok C"
    and "bounded_view w" and "bounded_view w'" and "mc_tag C = view_tagA w'"
  shows "\<exists>res t. Responder_Finish (Some r) m u = (res, t)
    \<and> (case res of
         Err e \<Rightarrow> e = Sentinel ErrConfirmationFailed \<and> (mc_tag C \<noteq> view_tagA w \<or> view_tagA w = view_tagB w)
       | Panic x \<Rightarrow> False
       | Ok S \<Rightarrow> w' = w \<and> session_at t S (view_session w (vw_ada w) pid)
           \<or> hash_collision w' w \<or> mac_collision w' w [vw_ya w', vw_ada w'] [vw_ya w, vw_ada w])"
proof -
  obtain res t where F: "Responder_Finish (Some r) m u = (res, t)" by fastforce
  note fin = responder_finish_contract [OF assms(1) refl F, unfolded responder_result_view [OF assms(2)]]
  show ?thesis
  proof (cases "mc_tag C = view_tagA w \<and> mc_tag C \<noteq> view_tagB w")
    case True
    then have "view_tagA w' = view_tagA w" using assms(5) by simp
    then have "w' = w \<or> hash_collision w' w \<or> mac_collision w' w [vw_ya w', vw_ada w'] [vw_ya w, vw_ada w]"
      unfolding view_tagA_def by (rule view_agreement [OF assms(4,3)])
    then show ?thesis using fin True F by auto
  next
    case False
    then show ?thesis using fin F by auto
  qed
qed

theorem responder_authenticates_witness:
  "\<exists>msg res t. decodeMessageC msg = Ok \<lparr>mc_tag = view_tagA sample_view\<rparr>
     \<and> Responder_Finish (Some \<lparr>r_state = Some 1\<rparr>) (Some 7)
         (finish_store\<lparr>mem := (mem finish_store)(7 := msg, 3 := Sum512 (view_material sample_view), 8 := residue_bytes 5,
            4 := transcript_value (residue_bytes 3) [] (residue_bytes 5) []),
          rcores := \<lambda>_. \<lparr>rc_isk = Some 3, rc_transcript = \<lparr>tr_transcript = Some 4, tr_ya = Some 1, tr_ada = None,
            tr_yb = Some 8, tr_adb = None\<rparr>, rc_sid = Some 0, rc_peerID = Some 5\<rparr>\<rparr>) = (res, t)
     \<and> (case res of
          Err e \<Rightarrow> view_tagA sample_view = view_tagB sample_view
        | Panic x \<Rightarrow> False
        | Ok S \<Rightarrow> session_at t S (view_session sample_view [] [1]))"
proof -
  obtain msg where msg: "decodeMessageC msg = Ok \<lparr>mc_tag = view_tagA sample_view\<rparr>"
    using message_C_ok [of "view_tagA sample_view"] by (auto simp: view_tagA_def)
  let ?u = "finish_store\<lparr>mem := (mem finish_store)(7 := msg, 3 := Sum512 (view_material sample_view), 8 := residue_bytes 5,
            4 := transcript_value (residue_bytes 3) [] (residue_bytes 5) []),
          rcores := \<lambda>_. \<lparr>rc_isk = Some 3, rc_transcript = \<lparr>tr_transcript = Some 4, tr_ya = Some 1, tr_ada = None,
            tr_yb = Some 8, tr_adb = None\<rparr>, rc_sid = Some 0, rc_peerID = Some 5\<rparr>\<rparr>"
  have ready: "responder_ready ?u \<lparr>r_state = Some 1\<rparr> 1 0 (responder_of sample_view [1])" "rd ?u (Some 7) = msg"
    by (simp_all add: responder_ready_def responder_at_def transcript_at_def finish_store_def responder_of_def sample_view_def)
  have fields: "vw_ada sample_view = []" by (simp add: sample_view_def)
  have dec: "decodeMessageC (rd ?u (Some 7)) = Ok \<lparr>mc_tag = view_tagA sample_view\<rparr>" by (simp only: ready(2) msg)
  have tag: "mc_tag \<lparr>mc_tag = view_tagA sample_view\<rparr> = view_tagA sample_view" by simp
  from responder_authenticates [OF ready(1) dec sample_bounded sample_bounded tag, unfolded fields messageC.simps]
  obtain res t where F: "Responder_Finish (Some \<lparr>r_state = Some 1\<rparr>) (Some 7) ?u = (res, t)"
      and "case res of Err e \<Rightarrow> e = Sentinel ErrConfirmationFailed
            \<and> (view_tagA sample_view \<noteq> view_tagA sample_view \<or> view_tagA sample_view = view_tagB sample_view)
        | Panic x \<Rightarrow> False | Ok S \<Rightarrow> session_at t S (view_session sample_view [] [1])"
    by (simp only: no_collision simp_thms) blast
  then have "case res of Err e \<Rightarrow> view_tagA sample_view = view_tagB sample_view | Panic x \<Rightarrow> False
        | Ok S \<Rightarrow> session_at t S (view_session sample_view [] [1])"
    by (cases res) simp_all
  with msg F show ?thesis by blast
qed

text \<open>C9. Reflection is refused. An initiator that gets its own share and data back, with any tag at all, and
  a responder that gets its own tag back return an error, spend their state and erase it, and there is no
  session.\<close>

theorem reflection_refused:
  assumes "initiator_ready s i a c st" and "valid s b"
    and "decodeMessageB (rd s b) = Ok \<lparr>mb_yb = is_ya st, mb_adb = is_ada st, mb_tag = tag\<rparr>"
    and "responder_ready u r d k rst"
    and "decodeMessageC (rd u m) = Ok \<lparr>mc_tag = tag_value (rs_isk rst) (rs_sid rst) (rs_yb rst) (rs_adb rst)\<rparr>"
  shows "(\<exists>e t. Initiator_Finish R (Some i) b s = (Err e, t) \<and> initiator_wiped R (initiator_dropped R st (rd s b)) a c s t)
    \<and> (\<exists>t. Responder_Finish (Some r) m u = (Err (Sentinel ErrConfirmationFailed), t) \<and> responder_wiped d k u t)"
proof
  obtain res t where F: "Initiator_Finish R (Some i) b s = (res, t)" by fastforce
  have "\<exists>e. initiator_result R st (rd s b) = Err e"
    using decoded_share_total [of R responderPeerShare "is_ya st"]
    by (auto simp: initiator_result_def assms(3) initiator_outcome_def Let_def split: go.split)
  then show "\<exists>e t. Initiator_Finish R (Some i) b s = (Err e, t) \<and> initiator_wiped R (initiator_dropped R st (rd s b)) a c s t"
    using initiator_finish_contract [OF assms(1,2) refl F] F by auto
  obtain res' t' where F: "Responder_Finish (Some r) m u = (res', t')" by fastforce
  have "responder_result rst (rd u m) = Err (Sentinel ErrConfirmationFailed)"
    by (simp add: responder_result_def assms(5) responder_outcome_def)
  then show "\<exists>t. Responder_Finish (Some r) m u = (Err (Sentinel ErrConfirmationFailed), t) \<and> responder_wiped d k u t"
    using responder_finish_contract [OF assms(4) refl F] F by auto
qed

theorem reflection_refused_witness:
  "\<exists>msg e t. Initiator_Finish residues (Some \<lparr>i_state = Some 0\<rparr>) (Some 6)
     (finish_store\<lparr>mem := (mem finish_store)(7 := msg)\<rparr>) = (Err e, t)
     \<and> initiator_wiped residues (initiator_dropped residues sample_initiator sample_message_B) 0 0
         (finish_store\<lparr>mem := (mem finish_store)(7 := msg)\<rparr>) t"
proof -
  obtain msg where msg: "decodeMessageC msg = Ok \<lparr>mc_tag = tag_value (rs_isk sample_responder) (rs_sid sample_responder)
      (rs_yb sample_responder) (rs_adb sample_responder)\<rparr>"
    using message_C_ok [OF length_tag_value] by blast
  let ?s = "finish_store\<lparr>mem := (mem finish_store)(7 := msg)\<rparr>"
  have "initiator_ready ?s \<lparr>i_state = Some 0\<rparr> 0 0 sample_initiator" "responder_ready ?s \<lparr>r_state = Some 1\<rparr> 1 0 sample_responder"
      "valid ?s (Some 6)" "rd ?s (Some 7) = msg" "rd ?s (Some 6) = sample_message_B"
    by (simp_all add: initiator_ready_def initiator_at_def finish_store_def sample_initiator_def responder_ready_def
        responder_at_def transcript_at_def sample_responder_def)
  then have "\<exists>e t. Initiator_Finish residues (Some \<lparr>i_state = Some 0\<rparr>) (Some 6) ?s = (Err e, t)
      \<and> initiator_wiped residues (initiator_dropped residues sample_initiator (rd ?s (Some 6))) 0 0 ?s t"
    using decode_sample_message_B msg
    by (intro reflection_refused [THEN conjunct1, of ?s _ 0 0 sample_initiator _ _ ?s "\<lparr>r_state = Some 1\<rparr>" 1 0 sample_responder "Some 7"])
      (simp_all add: sample_initiator_def)
  then show ?thesis unfolding \<open>rd ?s (Some 6) = sample_message_B\<close> by blast
qed

end
