(* ===== verification/Objects.thy ===== *)
theory Objects
  imports Finish
begin

text \<open>
  The objects that a program gets from the package, and the memory that each of them owns: an \<open>Initiator\<close> or
  \<open>Responder\<close> is named by the guard that its copies share, a \<open>Session\<close> by its struct. An object depends on
  its own cells only, so a step elsewhere leaves it alone.
\<close>

section \<open>Objects and their standing\<close>

datatype obj = Initiator_Obj nat | Responder_Obj nat | Session_Obj sessionStruct

text \<open>What an object is, on values: a state that waits for its message, a spent one, or a session.\<close>

datatype 's standing =
    Waiting "'s initiator_state"
  | Answered responder_state
  | Spent
  | Open confirmed
  | Closed confirmed

definition session_closed_at :: "('s, 'e, 'r) store \<Rightarrow> sessionStruct \<Rightarrow> confirmed \<Rightarrow> bool" where
  "session_closed_at s S c \<longleftrightarrow>
     (\<exists>a < brk s. s_state S = Some a \<and> sessions s a = \<lparr>ss_closed = True, ss_isk = None\<rparr>)
   \<and> valid s (s_transcriptID S) \<and> valid s (s_peerAD S) \<and> valid s (s_peerID S)
   \<and> session_metadata s S = (cf_transcriptID c, cf_peerAD c, cf_peerID c)"

fun holds :: "('s, 'e, 'r) store \<Rightarrow> obj \<Rightarrow> 's standing \<Rightarrow> bool" where
  "holds s (Initiator_Obj a) (Waiting st) = (\<exists>c. initiator_ready s \<lparr>i_state = Some a\<rparr> a c st)"
| "holds s (Initiator_Obj a) Spent = spent a s"
| "holds s (Responder_Obj a) (Answered st) = (\<exists>c. responder_ready s \<lparr>r_state = Some a\<rparr> a c st)"
| "holds s (Responder_Obj a) Spent = spent a s"
| "holds s (Session_Obj S) (Open c) = session_at s S c"
| "holds s (Session_Obj S) (Closed c) = session_closed_at s S c"
| "holds s _ _ = False"

fun owned :: "('s, 'e, 'r) store \<Rightarrow> obj \<Rightarrow> nat set" where
  "owned s (Initiator_Obj a) = initiator_owned s a"
| "owned s (Responder_Obj a) = responder_owned s a"
| "owned s (Session_Obj S) = session_owned s S"

section \<open>Locality\<close>

text \<open>\<open>same_at X s t\<close>: the cells of \<open>X\<close> hold the same in both stores. \<open>changes F s t\<close>: of the cells that
  existed in \<open>s\<close>, only those of \<open>F\<close> have changed.\<close>

definition same_at :: "nat set \<Rightarrow> ('s, 'e, 'r) store \<Rightarrow> ('s, 'e, 'r) store \<Rightarrow> bool" where
  "same_at X s t \<longleftrightarrow> (\<forall>x \<in> X. mem t x = mem s x \<and> scalars t x = scalars s x \<and> elements t x = elements s x
     \<and> icores t x = icores s x \<and> rcores t x = rcores s x \<and> ustates t x = ustates s x \<and> sessions t x = sessions s x)"

definition changes :: "nat set \<Rightarrow> ('s, 'e, 'r) store \<Rightarrow> ('s, 'e, 'r) store \<Rightarrow> bool" where
  "changes F s t \<longleftrightarrow> brk s \<le> brk t \<and> same_at ({..<brk s} - F) s t"

lemma same_at_mono: "same_at Y s t \<Longrightarrow> X \<subseteq> Y \<Longrightarrow> same_at X s t"
  by (auto simp: same_at_def)

lemma changes_same_at: "changes F s t \<Longrightarrow> X \<subseteq> {..<brk s} \<Longrightarrow> X \<inter> F = {} \<Longrightarrow> same_at X s t"
  unfolding changes_def by (erule conjE, erule same_at_mono) blast

lemma changes_refl [simp]: "changes F s s"
  by (simp add: changes_def same_at_def)

lemma changes_mono: "changes F s t \<Longrightarrow> F \<subseteq> G \<Longrightarrow> changes G s t"
  by (auto simp: changes_def same_at_def)

lemma changes_frame: "keeps W s t \<Longrightarrow> frame s t \<Longrightarrow> changes W s t"
  by (auto simp: changes_def same_at_def keeps_def frame_def)

lemma initiator_owned_local:
  "same_at (initiator_owned s a) s t \<Longrightarrow> initiator_owned t a = initiator_owned s a"
  by (auto simp: initiator_owned_def same_at_def split: option.splits)

lemma responder_owned_local:
  "same_at (responder_owned s a) s t \<Longrightarrow> responder_owned t a = responder_owned s a"
  by (auto simp: responder_owned_def same_at_def split: option.splits)

lemma session_owned_local:
  "same_at (session_owned s S) s t \<Longrightarrow> session_owned t S = session_owned s S"
  by (cases "s_state S") (auto simp: session_owned_def session_cells_def same_at_def)

lemma owned_local: "same_at (owned s x) s t \<Longrightarrow> owned t x = owned s x"
  by (cases x) (simp_all add: initiator_owned_local responder_owned_local session_owned_local)

lemma initiator_local:
  assumes "initiator_ready s i a c st" and "same_at (initiator_owned s a) s t" and "brk s \<le> brk t"
  shows "initiator_ready t i a c st"
proof -
  have c: "su_core (ustates s a) = Some c" and at: "initiator_at s c st" using assms(1) by (simp_all add: initiator_ready_def)
  then have *: "same_at (insert a (insert c (icore_owned (icores s c)))) s t"
    using assms(2) by (simp add: initiator_owned_def)
  have "initiator_at t c st"
    by (rule initiator_at_mono [OF at assms(3)]) (use * in \<open>auto simp: same_at_def icore_owned_def\<close>)
  then show ?thesis using assms(1,3) * by (simp add: initiator_ready_def same_at_def)
qed

lemma responder_local:
  assumes "responder_ready s r a c st" and "same_at (responder_owned s a) s t" and "brk s \<le> brk t"
  shows "responder_ready t r a c st"
proof -
  have c: "su_core (ustates s a) = Some c" and at: "responder_at s c st" using assms(1) by (simp_all add: responder_ready_def)
  then have *: "same_at (insert a (insert c (rcore_cells (rcores s c)))) s t"
    using assms(2) by (simp add: responder_owned_def)
  have "responder_at t c st"
    by (rule responder_at_mono [OF at assms(3)]) (use * in \<open>auto simp: same_at_def\<close>)
  then show ?thesis using assms(1,3) * by (simp add: responder_ready_def same_at_def)
qed

lemma session_reads_local:
  assumes "same_at (session_owned s S) s t" and "brk s \<le> brk t"
  shows "session_metadata t S = session_metadata s S"
    and "s_state S = Some a \<Longrightarrow> sessions t a = sessions s a \<and> rd t (ss_isk (sessions s a)) = rd s (ss_isk (sessions s a))"
    and "valid s sl \<Longrightarrow> valid t sl"
proof -
  have rd: "rd t sl = rd s sl" if "cells [sl] \<subseteq> session_owned s S" for sl
    using that assms(1) by (cases sl) (auto simp: same_at_def)
  show "session_metadata t S = session_metadata s S"
    by (simp add: session_metadata_def rd session_owned_def session_cells_def cells_def subset_iff)
  show "s_state S = Some a \<Longrightarrow> sessions t a = sessions s a \<and> rd t (ss_isk (sessions s a)) = rd s (ss_isk (sessions s a))"
    using assms(1) by (auto simp: same_at_def intro!: rd simp: session_owned_def session_cells_def cells_def)
  show "valid s sl \<Longrightarrow> valid t sl" by (rule valid_mono [OF _ assms(2)])
qed

lemma session_local:
  assumes "same_at (session_owned s S) s t" and "brk s \<le> brk t"
  shows "session_at s S c \<Longrightarrow> session_at t S c" and "session_closed_at s S c \<Longrightarrow> session_closed_at t S c"
  using session_reads_local [OF assms] assms(2)
  by (auto simp: session_at_def session_closed_at_def split: option.splits)

lemma holds_local:
  assumes "holds s x v" and "same_at (owned s x) s t" and "brk s \<le> brk t"
  shows "holds t x v"
  using assms
proof (induction s x v rule: holds.induct)
  case (1 s a st)
  then show ?case by (auto dest: initiator_local)
next
  case (3 s a st)
  then show ?case by (auto dest: responder_local)
next
  case (5 s S c)
  then show ?case by (auto dest: session_local(1))
next
  case (6 s S c)
  then show ?case by (auto dest: session_local(2))
qed (auto simp: spent_def same_at_def initiator_owned_def responder_owned_def)

text \<open>The cell that identifies an object, in every store.\<close>

fun root :: "obj \<Rightarrow> nat option" where
  "root (Initiator_Obj a) = Some a"
| "root (Responder_Obj a) = Some a"
| "root (Session_Obj S) = s_state S"

lemma root_owned: "root x = Some a \<Longrightarrow> a \<in> owned s x"
  by (cases x) (auto simp: initiator_owned_def responder_owned_def)

lemma holds_root: "holds s x v \<Longrightarrow> root x \<noteq> None"
  by (induction s x v rule: holds.induct) (auto simp: session_at_def session_closed_at_def split: option.splits)

end
