(* ===== verification/Service.thy ===== *)
theory Service
  imports Objects
begin

text \<open>
  The package as a whole, used by a program that holds any number of initiators, responders and sessions at a
  time. The program calls the package's functions with its own slices, on objects that it got from it, in any
  order, and writes to its own memory in between. The service that the package implements has no memory: it is a
  table of objects, each on its own.
\<close>

section \<open>Programs\<close>

text \<open>A program's memory, the objects that it holds, and the cells of the slices that it can write to.\<close>

record ('s, 'e, 'r) world =
  w_store :: "('s, 'e, 'r) store"
  w_objs :: "obj set"
  w_bufs :: "nat set"

definition after :: "('s, 'e, 'r) world \<Rightarrow> ('s, 'e, 'r) store \<Rightarrow> obj set \<Rightarrow> nat set \<Rightarrow> ('s, 'e, 'r) world" where
  "after w t X B = \<lparr>w_store = t, w_objs = w_objs w \<union> X, w_bufs = w_bufs w \<union> B\<rparr>"

text \<open>
  A call as its caller sees it: arguments and results are bytes and handles. A constructor's event also has the
  state of the random source at the call.
\<close>

datatype 'r event =
    Start_Event inputs 'r "(initiatorStruct \<times> bytes) result"
  | Respond_Event inputs bytes 'r "(responderStruct \<times> bytes) result"
  | Initiator_Finish_Event nat bytes "(bytes \<times> sessionStruct) result"
  | Initiator_Close_Event nat "unit result"
  | Responder_Finish_Event nat bytes "sessionStruct result"
  | Responder_Close_Event nat "unit result"
  | Export_Event sessionStruct bytes bytes int "bytes result"
  | Session_Close_Event sessionStruct "unit result"
  | TranscriptID_Event sessionStruct bytes
  | PeerAssociatedData_Event sessionStruct bytes
  | PeerID_Event sessionStruct bytes
  | Caller_Event

fun on_ok :: "('a \<Rightarrow> 'b set) \<Rightarrow> 'a result \<Rightarrow> 'b set" where
  "on_ok f (Ok x) = f x"
| "on_ok f (Err e) = {}"
| "on_ok f (Panic m) = {}"

definition input_cells :: "inputStruct \<Rightarrow> nat set" where
  "input_cells i = cells [in_Password i, in_SelfID i, in_PeerID i, in_Context i, in_SessionID i, in_LocalAssociatedData i]"

inductive api_step ::
  "('s, 'e) ristretto \<Rightarrow> 'r reader \<Rightarrow> ('s, 'e, 'r) world \<Rightarrow> 'r event \<Rightarrow> ('s, 'e, 'r) world \<Rightarrow> bool"
  for R rdr where
  start: "input_cells input \<subseteq> w_bufs w \<Longrightarrow> Start R rdr input (w_store w) = (res, t) \<Longrightarrow>
    api_step R rdr w (Start_Event (inputs_of (mem (w_store w)) input) (rand (w_store w)) (map_go id (\<lambda>(i, m). (i, rd t m)) res))
      (after w t (on_ok (\<lambda>(i, m). Initiator_Obj ` set_option (i_state i)) res) (on_ok (\<lambda>(i, m). cells [m]) res))"
| respond: "input_cells input \<subseteq> w_bufs w \<Longrightarrow> cells [msg] \<subseteq> w_bufs w \<Longrightarrow>
    Respond R rdr input msg (w_store w) = (res, t) \<Longrightarrow>
    api_step R rdr w (Respond_Event (inputs_of (mem (w_store w)) input) (rd (w_store w) msg) (rand (w_store w))
        (map_go id (\<lambda>(r, m). (r, rd t m)) res))
      (after w t (on_ok (\<lambda>(r, m). Responder_Obj ` set_option (r_state r)) res) (on_ok (\<lambda>(r, m). cells [m]) res))"
| initiator_finish: "Initiator_Obj a \<in> w_objs w \<Longrightarrow> cells [msg] \<subseteq> w_bufs w \<Longrightarrow>
    Initiator_Finish R (Some \<lparr>i_state = Some a\<rparr>) msg (w_store w) = (res, t) \<Longrightarrow>
    api_step R rdr w (Initiator_Finish_Event a (rd (w_store w) msg) (map_go id (\<lambda>(m, S). (rd t m, S)) res))
      (after w t (on_ok (\<lambda>(m, S). {Session_Obj S}) res) (on_ok (\<lambda>(m, S). cells [m]) res))"
| initiator_close: "Initiator_Obj a \<in> w_objs w \<Longrightarrow> Initiator_Close R (Some \<lparr>i_state = Some a\<rparr>) (w_store w) = (res, t) \<Longrightarrow>
    api_step R rdr w (Initiator_Close_Event a res) (after w t {} {})"
| responder_finish: "Responder_Obj a \<in> w_objs w \<Longrightarrow> cells [msg] \<subseteq> w_bufs w \<Longrightarrow>
    Responder_Finish (Some \<lparr>r_state = Some a\<rparr>) msg (w_store w) = (res, t) \<Longrightarrow>
    api_step R rdr w (Responder_Finish_Event a (rd (w_store w) msg) res) (after w t (on_ok (\<lambda>S. {Session_Obj S}) res) {})"
| responder_close: "Responder_Obj a \<in> w_objs w \<Longrightarrow> Responder_Close (Some \<lparr>r_state = Some a\<rparr>) (w_store w) = (res, t) \<Longrightarrow>
    api_step R rdr w (Responder_Close_Event a res) (after w t {} {})"
| export: "Session_Obj S \<in> w_objs w \<Longrightarrow> Export (Some S) label ctx n (w_store w) = (res, t) \<Longrightarrow>
    api_step R rdr w (Export_Event S label ctx n (map_go id (rd t) res)) (after w t {} (on_ok (\<lambda>m. cells [m]) res))"
| session_close: "Session_Obj S \<in> w_objs w \<Longrightarrow> Session_Close (Some S) (w_store w) = (res, t) \<Longrightarrow>
    api_step R rdr w (Session_Close_Event S res) (after w t {} {})"
| transcript_id: "Session_Obj S \<in> w_objs w \<Longrightarrow> TranscriptID (Some S) (w_store w) = (m, t) \<Longrightarrow>
    api_step R rdr w (TranscriptID_Event S (rd t m)) (after w t {} (cells [m]))"
| peer_associated_data: "Session_Obj S \<in> w_objs w \<Longrightarrow> PeerAssociatedData (Some S) (w_store w) = (m, t) \<Longrightarrow>
    api_step R rdr w (PeerAssociatedData_Event S (rd t m)) (after w t {} (cells [m]))"
| peer_id: "Session_Obj S \<in> w_objs w \<Longrightarrow> PeerID (Some S) (w_store w) = (m, t) \<Longrightarrow>
    api_step R rdr w (PeerID_Event S (rd t m)) (after w t {} (cells [m]))"
| caller: "brk (w_store w) \<le> n \<Longrightarrow> \<forall>x < brk (w_store w). x \<notin> w_bufs w \<longrightarrow> m x = mem (w_store w) x \<Longrightarrow>
    B \<subseteq> {brk (w_store w)..<n} \<Longrightarrow>
    api_step R rdr w Caller_Event (after w ((w_store w)\<lparr>brk := n, mem := m, rand := r\<rparr>) {} B)"

section \<open>The service\<close>

inductive service_step ::
  "('s, 'e) ristretto \<Rightarrow> 'r reader \<Rightarrow> (obj \<Rightarrow> 's standing option) \<Rightarrow> 'r event \<Rightarrow> (obj \<Rightarrow> 's standing option) \<Rightarrow> bool"
  for R rdr where
  started: "start_spec R rdr v r = Ok st \<Longrightarrow> A (Initiator_Obj a) = None \<Longrightarrow>
    decodeMessageA msg = Ok \<lparr>ma_sid = is_sid st, ma_ya = is_ya st, ma_ada = is_ada st\<rparr> \<Longrightarrow>
    service_step R rdr A (Start_Event v r (Ok (\<lparr>i_state = Some a\<rparr>, msg))) (A(Initiator_Obj a \<mapsto> Waiting st))"
| not_started: "start_spec R rdr v r = Err e \<Longrightarrow> service_step R rdr A (Start_Event v r (Err e)) A"
| responded: "respond_spec R rdr v b r = Ok st \<Longrightarrow> A (Responder_Obj a) = None \<Longrightarrow>
    decodeMessageB msg = Ok \<lparr>mb_yb = rs_yb st, mb_adb = rs_adb st,
      mb_tag = tag_value (rs_isk st) (rs_sid st) (rs_yb st) (rs_adb st)\<rparr> \<Longrightarrow>
    service_step R rdr A (Respond_Event v b r (Ok (\<lparr>r_state = Some a\<rparr>, msg))) (A(Responder_Obj a \<mapsto> Answered st))"
| not_responded: "respond_spec R rdr v b r = Err e \<Longrightarrow> service_step R rdr A (Respond_Event v b r (Err e)) A"
| initiator_accepts: "A (Initiator_Obj a) = Some (Waiting st) \<Longrightarrow> initiator_result R st b = Ok (tagA, c) \<Longrightarrow>
    decodeMessageC msg = Ok \<lparr>mc_tag = tagA\<rparr> \<Longrightarrow> A (Session_Obj S) = None \<Longrightarrow>
    service_step R rdr A (Initiator_Finish_Event a b (Ok (msg, S))) (A(Initiator_Obj a \<mapsto> Spent, Session_Obj S \<mapsto> Open c))"
| initiator_rejects: "A (Initiator_Obj a) = Some (Waiting st) \<Longrightarrow> initiator_result R st b = Err e \<Longrightarrow>
    service_step R rdr A (Initiator_Finish_Event a b (Err e)) (A(Initiator_Obj a \<mapsto> Spent))"
| initiator_reused: "A (Initiator_Obj a) = Some Spent \<Longrightarrow>
    service_step R rdr A (Initiator_Finish_Event a b (Err (Sentinel ErrStateUsed))) A"
| initiator_closed: "A (Initiator_Obj a) = Some v \<Longrightarrow>
    service_step R rdr A (Initiator_Close_Event a (Ok ())) (A(Initiator_Obj a \<mapsto> Spent))"
| responder_accepts: "A (Responder_Obj a) = Some (Answered st) \<Longrightarrow> responder_result st b = Ok c \<Longrightarrow> A (Session_Obj S) = None \<Longrightarrow>
    service_step R rdr A (Responder_Finish_Event a b (Ok S)) (A(Responder_Obj a \<mapsto> Spent, Session_Obj S \<mapsto> Open c))"
| responder_rejects: "A (Responder_Obj a) = Some (Answered st) \<Longrightarrow> responder_result st b = Err e \<Longrightarrow>
    service_step R rdr A (Responder_Finish_Event a b (Err e)) (A(Responder_Obj a \<mapsto> Spent))"
| responder_reused: "A (Responder_Obj a) = Some Spent \<Longrightarrow>
    service_step R rdr A (Responder_Finish_Event a b (Err (Sentinel ErrStateUsed))) A"
| responder_closed: "A (Responder_Obj a) = Some v \<Longrightarrow>
    service_step R rdr A (Responder_Close_Event a (Ok ())) (A(Responder_Obj a \<mapsto> Spent))"
| exported: "A (Session_Obj S) = Some (Open c) \<Longrightarrow> 0 \<le> n \<Longrightarrow> n \<le> maxHKDFOutput \<Longrightarrow>
    service_step R rdr A (Export_Event S label ctx n (Ok (take (nat n) (export_stream (cf_isk c) label ctx)))) A"
| bad_length: "A (Session_Obj S) = Some (Open c) \<Longrightarrow> \<not> (0 \<le> n \<and> n \<le> maxHKDFOutput) \<Longrightarrow> errors_Is e ErrInvalidInput \<Longrightarrow>
    service_step R rdr A (Export_Event S label ctx n (Err e)) A"
| export_closed: "A (Session_Obj S) = Some (Closed c) \<Longrightarrow>
    service_step R rdr A (Export_Event S label ctx n (Err (Sentinel ErrSessionClosed))) A"
| session_closed: "A (Session_Obj S) \<in> {Some (Open c), Some (Closed c)} \<Longrightarrow>
    service_step R rdr A (Session_Close_Event S (Ok ())) (A(Session_Obj S \<mapsto> Closed c))"
| transcript_id: "A (Session_Obj S) \<in> {Some (Open c), Some (Closed c)} \<Longrightarrow>
    service_step R rdr A (TranscriptID_Event S (cf_transcriptID c)) A"
| peer_associated_data: "A (Session_Obj S) \<in> {Some (Open c), Some (Closed c)} \<Longrightarrow>
    service_step R rdr A (PeerAssociatedData_Event S (cf_peerAD c)) A"
| peer_id: "A (Session_Obj S) \<in> {Some (Open c), Some (Closed c)} \<Longrightarrow>
    service_step R rdr A (PeerID_Event S (cf_peerID c)) A"
| caller: "service_step R rdr A Caller_Event A"

section \<open>The representation\<close>

text \<open>Every object's memory is its own: apart from that of the other objects and from the program's slices.\<close>

definition owned_apart :: "('s, 'e, 'r) world \<Rightarrow> bool" where
  "owned_apart w \<longleftrightarrow> w_bufs w \<subseteq> {..<brk (w_store w)}
     \<and> (\<forall>x \<in> w_objs w. owned (w_store w) x \<subseteq> {..<brk (w_store w)} \<and> owned (w_store w) x \<inter> w_bufs w = {}
          \<and> (\<forall>y \<in> w_objs w. x \<noteq> y \<longrightarrow> owned (w_store w) x \<inter> owned (w_store w) y = {}))"

definition represents :: "('s, 'e, 'r) world \<Rightarrow> (obj \<Rightarrow> 's standing option) \<Rightarrow> bool" where
  "represents w A \<longleftrightarrow> dom A = w_objs w \<and> (\<forall>x v. A x = Some v \<longrightarrow> holds (w_store w) x v) \<and> owned_apart w"

lemma represents_obj: "represents w A \<Longrightarrow> x \<in> w_objs w \<longleftrightarrow> A x \<noteq> None"
  by (auto simp: represents_def)

lemma represents_holds: "represents w A \<Longrightarrow> A x = Some v \<Longrightarrow> holds (w_store w) x v"
  by (simp add: represents_def)

lemma represents_apart:
  assumes "represents w A" and "x \<in> w_objs w"
  shows "owned (w_store w) x \<subseteq> {..<brk (w_store w)}" and "owned (w_store w) x \<inter> w_bufs w = {}"
    and "y \<in> w_objs w \<Longrightarrow> x \<noteq> y \<Longrightarrow> owned (w_store w) x \<inter> owned (w_store w) y = {}"
  using assms by (auto simp: represents_def owned_apart_def)

text \<open>
  One call: it changes cells of the objects in \<open>V\<close> only, the ones that the program held keep within their
  memory, and a new one has new memory.
\<close>

lemma represents_after:
  assumes "represents w A" and "changes F (w_store w) t" and "\<forall>x \<in> w_objs w. x \<notin> dom V \<longrightarrow> owned (w_store w) x \<inter> F = {}"
    and "\<forall>x v. V x = Some v \<longrightarrow> holds t x v" and "\<forall>x \<in> w_objs w. x \<in> dom V \<longrightarrow> owned t x \<subseteq> owned (w_store w) x"
    and "\<forall>x \<in> X. owned t x \<subseteq> {brk (w_store w)..<brk t} - B" and "\<forall>x \<in> X. \<forall>y \<in> X. x = y"
    and "B \<subseteq> {brk (w_store w)..<brk t}" and "dom V \<subseteq> w_objs w \<union> X" and "X \<subseteq> dom V"
  shows "represents (after w t X B) (A ++ V)"
proof -
  let ?s = "w_store w"
  have rep: "dom A = w_objs w" and apart: "owned_apart w" using assms(1) by (auto simp: represents_def)
  have brk: "brk ?s \<le> brk t" using assms(2) by (simp add: changes_def)
  note below = represents_apart [OF assms(1)]
  have local: "same_at (owned ?s x) ?s t" if "x \<in> w_objs w" "x \<notin> dom V" for x
    by (rule changes_same_at [OF assms(2) below(1) [OF that(1)]]) (use assms(3) that in blast)
  have old: "owned t x \<subseteq> owned ?s x" if "x \<in> w_objs w" for x
    using owned_local [OF local] assms(5) that by (cases "x \<in> dom V") auto
  have "holds t x v" if "(A ++ V) x = Some v" for x v
  proof (cases "V x")
    case None
    then have "A x = Some v" "x \<in> w_objs w" "x \<notin> dom V" using that rep by auto
    then show ?thesis using holds_local [OF represents_holds [OF assms(1)] local brk] by blast
  next
    case (Some u)
    then show ?thesis using that assms(4) by simp
  qed
  moreover have "dom (A ++ V) = w_objs w \<union> X" using rep assms(9,10) by auto
  moreover have "owned_apart (after w t X B)"
  proof -
    have bufs: "w_bufs w \<subseteq> {..<brk ?s}" using apart by (simp add: owned_apart_def)
    have new: "owned t x \<subseteq> {brk ?s..<brk t}" "owned t x \<inter> B = {}" if "x \<in> X" for x using assms(6) that by auto
    have range: "owned t x \<subseteq> {..<brk t} \<and> owned t x \<inter> (w_bufs w \<union> B) = {}" if "x \<in> w_objs w \<union> X" for x
    proof (cases "x \<in> X")
      case True
      then show ?thesis using new bufs by fastforce
    next
      case False
      then show ?thesis using that old [of x] below [of x] brk assms(8) by fastforce
    qed
    have mixed: "owned t x \<inter> owned t y = {}" if "x \<in> X" "y \<in> w_objs w" for x y
    proof -
      have "owned t x \<subseteq> {brk ?s..}" "owned t y \<subseteq> {..<brk ?s}" using new(1) [OF that(1)] old [OF that(2)] below(1) [OF that(2)] by auto
      then show ?thesis by (meson atLeast_iff disjoint_iff lessThan_iff not_le subset_iff)
    qed
    have "owned t x \<inter> owned t y = {}" if "x \<in> w_objs w \<union> X" "y \<in> w_objs w \<union> X" "x \<noteq> y" for x y
    proof (cases "x \<in> X \<or> y \<in> X")
      case True
      then show ?thesis using that assms(7) mixed [of x y] mixed [of y x] by blast
    next
      case False
      then show ?thesis using that old [of x] old [of y] below(3) [of x y] by blast
    qed
    then show ?thesis using range bufs brk assms(8) by (auto simp: owned_apart_def after_def)
  qed
  ultimately show ?thesis by (simp add: represents_def after_def)
qed

text \<open>The four kinds of calls: on no object, on a new one, on one that the program holds, and on one for a new one.\<close>

lemma fresh_obj:
  assumes "represents w A" and "owned t x \<subseteq> {brk (w_store w)..}" and "root x \<noteq> None"
  shows "A x = None"
proof (rule ccontr)
  assume "A x \<noteq> None"
  then have "owned (w_store w) x \<subseteq> {..<brk (w_store w)}"
    using represents_apart(1) [OF assms(1)] represents_obj [OF assms(1)] by simp
  moreover obtain a where a: "root x = Some a" using assms(3) by auto
  moreover note root_owned [OF a, of t] root_owned [OF a, of "w_store w"]
  ultimately show False using assms(2) by force
qed

lemma represents_quiet:
  assumes "represents w A" and "changes F (w_store w) t" and "F \<subseteq> w_bufs w" and "B \<subseteq> {brk (w_store w)..<brk t}"
  shows "represents (after w t {} B) A"
proof -
  have "\<forall>x \<in> w_objs w. owned (w_store w) x \<inter> F = {}"
    using represents_apart(2) [OF assms(1)] assms(3) by blast
  then show ?thesis using represents_after [OF assms(1,2), of Map.empty "{}" B] assms(4) by simp
qed

lemma represents_new:
  assumes "represents w A" and "changes {} (w_store w) t" and "holds t x v"
    and "owned t x \<subseteq> {brk (w_store w)..<brk t} - B" and "B \<subseteq> {brk (w_store w)..<brk t}"
  shows "represents (after w t {x} B) (A(x \<mapsto> v))" and "A x = None"
proof -
  show new: "A x = None" using assms(4) by (intro fresh_obj [OF assms(1) _ holds_root [OF assms(3)], of t]) auto
  then have "x \<notin> w_objs w" using assms(1) by (auto simp: represents_def)
  then show "represents (after w t {x} B) (A(x \<mapsto> v))"
    using represents_after [OF assms(1,2), of "[x \<mapsto> v]" "{x}" B] assms(3-5) by auto
qed

lemma represents_own:
  assumes "represents w A" and "A x = Some u" and "changes (owned (w_store w) x) (w_store w) t"
    and "holds t x v" and "owned t x \<subseteq> owned (w_store w) x"
  shows "represents (after w t {} {}) (A(x \<mapsto> v))"
proof -
  have x: "x \<in> w_objs w" using assms(1,2) by (auto simp: represents_def)
  moreover have "\<forall>y \<in> w_objs w. y \<noteq> x \<longrightarrow> owned (w_store w) y \<inter> owned (w_store w) x = {}"
    using represents_apart(3) [OF assms(1)] x by blast
  ultimately show ?thesis
    using represents_after [OF assms(1,3), of "[x \<mapsto> v]" "{}" "{}"] assms(4,5) by auto
qed

lemma represents_own_new:
  assumes "represents w A" and "A x = Some u" and "changes (owned (w_store w) x) (w_store w) t"
    and "holds t x v" and "owned t x \<subseteq> owned (w_store w) x"
    and "holds t y v'" and "owned t y \<subseteq> {brk (w_store w)..<brk t} - B" and "B \<subseteq> {brk (w_store w)..<brk t}"
  shows "represents (after w t {y} B) (A(x \<mapsto> v, y \<mapsto> v'))" and "A y = None"
proof -
  show new: "A y = None" using assms(7) by (intro fresh_obj [OF assms(1) _ holds_root [OF assms(6)], of t]) auto
  have x: "x \<in> w_objs w" and y: "y \<notin> w_objs w" "x \<noteq> y" using assms(1,2) new by (auto simp: represents_def)
  have sep: "\<forall>z \<in> w_objs w. z \<noteq> x \<longrightarrow> owned (w_store w) z \<inter> owned (w_store w) x = {}"
    using represents_apart(3) [OF assms(1)] x by blast
  have "represents (after w t {y} B) (A ++ [x \<mapsto> v, y \<mapsto> v'])"
    by (rule represents_after [OF assms(1,3)]) (use sep x y assms(4-8) in auto)
  then show "represents (after w t {y} B) (A(x \<mapsto> v, y \<mapsto> v'))" by simp
qed

lemma represents_valid:
  assumes "represents w A" and "cells [sl] \<subseteq> w_bufs w"
  shows "valid (w_store w) sl"
  using assms by (cases sl) (auto simp: represents_def owned_apart_def)

lemma represents_valid_input:
  assumes "represents w A" and "input_cells i \<subseteq> w_bufs w"
  shows "valid_input (w_store w) i"
proof -
  have "cells [sl] \<subseteq> input_cells i"
    if "sl \<in> {in_Password i, in_SelfID i, in_PeerID i, in_Context i, in_SessionID i, in_LocalAssociatedData i}" for sl
    using that by (auto simp: input_cells_def cells_def)
  then show ?thesis
    unfolding valid_input_def using assms(2) by (intro conjI represents_valid [OF assms(1)]; blast)
qed

section \<open>The calls\<close>

lemma initiator_owned_below: "initiator_ready s i a c st \<Longrightarrow> x \<in> initiator_owned s a \<Longrightarrow> x < brk s"
  by (auto simp: initiator_ready_def initiator_owned_def dest: initiator_cells_lt) (auto simp: initiator_at_def)

lemma responder_owned_below: "responder_ready s r a c st \<Longrightarrow> x \<in> responder_owned s a \<Longrightarrow> x < brk s"
  by (auto simp: responder_ready_def responder_owned_def dest: responder_at_cells) (auto simp: responder_at_def)

lemma valid_cells: "valid t m \<Longrightarrow> \<forall>x \<in> cells [m]. n \<le> x \<and> x \<notin> W \<Longrightarrow> cells [m] \<subseteq> {n..<brk t} \<and> cells [m] \<inter> W = {}"
  by (auto simp: cells_def)

lemma start_step:
  assumes "uniform_law R" "encoding_laws R" and "represents w A" and "input_cells input \<subseteq> w_bufs w"
    and "Start R rdr input (w_store w) = (res, t)"
  shows "\<exists>A'. service_step R rdr A
      (Start_Event (inputs_of (mem (w_store w)) input) (rand (w_store w)) (map_go id (\<lambda>(i, m). (i, rd t m)) res)) A'
    \<and> represents (after w t (on_ok (\<lambda>(i, m). Initiator_Obj ` set_option (i_state i)) res) (on_ok (\<lambda>(i, m). cells [m]) res)) A'"
proof -
  let ?s = "w_store w" and ?v = "inputs_of (mem (w_store w)) input"
  note con = start_contract_spec [OF represents_valid_input [OF assms(3,4)] assms(1,2,5)]
  have ch: "changes {} ?s t" using con changes_frame by blast
  show ?thesis
  proof (cases "start_spec R rdr ?v (rand ?s)")
    case (Err e)
    then have "res = Err e" using con by simp
    then show ?thesis
      using service_step.not_started [OF Err] represents_quiet [OF assms(3) ch, of "{}"] by (intro exI [of _ A]) simp
  next
    case (Panic m)
    then show ?thesis using con by simp
  next
    case (Ok st)
    obtain i msg a c where res: "res = Ok (i, msg)" and ready: "initiator_ready t i a c st" and "valid t msg"
      and fresh: "\<forall>x \<in> initiator_owned t a. brk ?s \<le> x" "\<forall>x \<in> cells [msg]. brk ?s \<le> x \<and> x \<notin> initiator_owned t a"
      and dec: "decodeMessageA (rd t msg) = Ok \<lparr>ma_sid = is_sid st, ma_ya = is_ya st, ma_ada = is_ada st\<rparr>"
      using con Ok by auto
    have i: "i = \<lparr>i_state = Some a\<rparr>" using ready by (cases i) (simp add: initiator_ready_def)
    have "holds t (Initiator_Obj a) (Waiting st)" using ready i by auto
    moreover note cells = valid_cells [OF \<open>valid t msg\<close> fresh(2)]
    moreover have "initiator_owned t a \<subseteq> {brk ?s..<brk t} - cells [msg]"
      using fresh(1) initiator_owned_below [OF ready] cells by auto
    ultimately have "represents (after w t {Initiator_Obj a} (cells [msg])) (A(Initiator_Obj a \<mapsto> Waiting st))"
        "A (Initiator_Obj a) = None"
      using represents_new [OF assms(3) ch, of "Initiator_Obj a" "Waiting st" "cells [msg]"] by simp_all
    then show ?thesis using service_step.started [OF Ok _ dec] by (auto simp: res i)
  qed
qed

lemma respond_step:
  assumes "uniform_law R" "encoding_laws R" and "represents w A" and "input_cells input \<subseteq> w_bufs w" and "cells [b] \<subseteq> w_bufs w"
    and "Respond R rdr input b (w_store w) = (res, t)"
  shows "\<exists>A'. service_step R rdr A (Respond_Event (inputs_of (mem (w_store w)) input) (rd (w_store w) b) (rand (w_store w))
        (map_go id (\<lambda>(r, m). (r, rd t m)) res)) A'
    \<and> represents (after w t (on_ok (\<lambda>(r, m). Responder_Obj ` set_option (r_state r)) res) (on_ok (\<lambda>(r, m). cells [m]) res)) A'"
proof -
  let ?s = "w_store w" and ?v = "inputs_of (mem (w_store w)) input"
  note con = respond_contract [OF represents_valid_input [OF assms(3,4)] represents_valid [OF assms(3,5)] assms(1,2)
      assms(6) [unfolded Respond_def] refl, unfolded random_source_def option.case]
  have ch: "changes {} ?s t" using con changes_frame by blast
  show ?thesis
  proof (cases "respond_spec R rdr ?v (rd ?s b) (rand ?s)")
    case (Err e)
    then have "res = Err e" using con by simp
    then show ?thesis
      using service_step.not_responded [OF Err] represents_quiet [OF assms(3) ch, of "{}"] by (intro exI [of _ A]) simp
  next
    case (Panic m)
    then show ?thesis using con by simp
  next
    case (Ok st)
    obtain r msg a c where res: "res = Ok (r, msg)" and ready: "responder_ready t r a c st" and "valid t msg"
      and fresh: "\<forall>x \<in> responder_owned t a. brk ?s \<le> x" "\<forall>x \<in> cells [msg]. brk ?s \<le> x \<and> x \<notin> responder_owned t a"
      and dec: "decodeMessageB (rd t msg) = Ok \<lparr>mb_yb = rs_yb st, mb_adb = rs_adb st,
        mb_tag = tag_value (rs_isk st) (rs_sid st) (rs_yb st) (rs_adb st)\<rparr>"
      using con Ok by auto
    have r: "r = \<lparr>r_state = Some a\<rparr>" using ready by (cases r) (simp add: responder_ready_def)
    have "holds t (Responder_Obj a) (Answered st)" using ready r by auto
    moreover note cells = valid_cells [OF \<open>valid t msg\<close> fresh(2)]
    moreover have "responder_owned t a \<subseteq> {brk ?s..<brk t} - cells [msg]"
      using fresh(1) responder_owned_below [OF ready] cells by auto
    ultimately have "represents (after w t {Responder_Obj a} (cells [msg])) (A(Responder_Obj a \<mapsto> Answered st))"
        "A (Responder_Obj a) = None"
      using represents_new [OF assms(3) ch, of "Responder_Obj a" "Answered st" "cells [msg]"] by simp_all
    then show ?thesis using service_step.responded [OF Ok _ dec] by (auto simp: res r)
  qed
qed

text \<open>What the wipes of the terminal operations change belongs to the object.\<close>

lemma initiator_wiped_owned:
  assumes "initiator_ready s i a c st" and "initiator_wiped R E a c s t"
  shows "changes (initiator_owned s a) s t" and "spent a t" and "initiator_owned t a \<subseteq> initiator_owned s a"
proof -
  have c: "su_core (ustates s a) = Some c" using assms(1) by (simp add: initiator_ready_def)
  obtain b where b: "ic_scalar (icores s c) = Some b" "scalars t = (scalars s)(b := NewScalar R)"
    using assms(2) by (auto simp: initiator_wiped_def)
  have owned: "initiator_owned s a = insert a (insert c (insert b (icore_cells (icores s c))))"
    using c b(1) by (auto simp: initiator_owned_def icore_owned_def)
  have "elements t x = elements s x" if "x < brk s" for x using assms(2) that by (auto simp: initiator_wiped_def)
  then show "changes (initiator_owned s a) s t"
    using assms(2) b(2) by (simp add: changes_def same_at_def initiator_wiped_def keeps_def claimed_def owned)
  show "spent a t" by (rule wiped_spent(1) [OF assms(2)])
  show "initiator_owned t a \<subseteq> initiator_owned s a"
    using assms(2) c by (auto simp: initiator_owned_def initiator_wiped_def claimed_def icore_owned_def icore_cells_def)
qed

lemma responder_wiped_owned:
  assumes "responder_ready s r a c st" and "responder_wiped a c s t"
  shows "changes (responder_owned s a) s t" and "spent a t" and "responder_owned t a \<subseteq> responder_owned s a"
proof -
  have c: "su_core (ustates s a) = Some c" using assms(1) by (simp add: responder_ready_def)
  then have owned: "responder_owned s a = insert a (insert c (rcore_cells (rcores s c)))" by (simp add: responder_owned_def)
  have secret: "rcore_secret_cells k \<subseteq> rcore_cells k" for k by (auto simp: rcore_secret_cells_def rcore_cells_def cells_def)
  show "changes (responder_owned s a) s t"
    using assms(2) secret [of "rcores s c"]
    by (auto simp: changes_def same_at_def responder_wiped_def keeps_def claimed_def owned)
  show "spent a t" by (rule wiped_spent(2) [OF assms(2)])
  show "responder_owned t a \<subseteq> responder_owned s a"
    using assms(2) c
    by (auto simp: responder_owned_def responder_wiped_def claimed_def cleared_rcore_def rcore_cells_def transcript_cells_def cells_def)
qed

lemma session_owned_new:
  assumes "session_at t S c" and "\<forall>x \<in> session_owned t S. n \<le> x" and "cells [m] \<inter> session_owned t S = {}"
  shows "owned t (Session_Obj S) \<subseteq> {n..<brk t} - cells [m]"
  using assms(2,3) session_owned_lt [OF assms(1)] by auto

lemma initiator_finish_step:
  assumes "represents w A" and "Initiator_Obj a \<in> w_objs w" and "cells [b] \<subseteq> w_bufs w"
    and "Initiator_Finish R (Some \<lparr>i_state = Some a\<rparr>) b (w_store w) = (res, t)"
  shows "\<exists>A'. service_step R rdr A (Initiator_Finish_Event a (rd (w_store w) b) (map_go id (\<lambda>(m, S). (rd t m, S)) res)) A'
    \<and> represents (after w t (on_ok (\<lambda>(m, S). {Session_Obj S}) res) (on_ok (\<lambda>(m, S). cells [m]) res)) A'"
proof -
  let ?s = "w_store w" and ?x = "Initiator_Obj a"
  obtain v where v: "A ?x = Some v" using assms(2) represents_obj [OF assms(1)] by auto
  then have "holds ?s ?x v" by (rule represents_holds [OF assms(1)])
  then consider "v = Spent" "spent a ?s" | st c where "v = Waiting st" "initiator_ready ?s \<lparr>i_state = Some a\<rparr> a c st"
    by (cases v) auto
  then show ?thesis
  proof cases
    case 1
    then have "res = Err (Sentinel ErrStateUsed)" "t = ?s"
      using assms(4) spent_calls(1) [OF 1(2), of "\<lparr>i_state = Some a\<rparr>" R b] by simp_all
    then show ?thesis
      using service_step.initiator_reused [of A a R rdr] v 1(1) represents_quiet [OF assms(1) changes_refl, of "{}" "{}"]
      by (intro exI [of _ A]) simp
  next
    case 2
    note con = initiator_finish_contract [OF 2(2) represents_valid [OF assms(1,3)] refl assms(4)]
    have own: "changes (owned ?s ?x) ?s t" "holds t ?x Spent" "owned t ?x \<subseteq> owned ?s ?x"
      using initiator_wiped_owned [OF 2(2) conjunct1 [OF con]] by simp_all
    have x: "A ?x = Some (Waiting st)" using v 2(1) by simp
    show ?thesis
    proof (cases "initiator_result R st (rd ?s b)")
      case (Err e)
      then have "res = Err e" using con by simp
      then show ?thesis
        using service_step.initiator_rejects [of A a st R _ e rdr, OF x Err] represents_own [OF assms(1) v own]
        by (intro exI [of _ "A(?x \<mapsto> Spent)"]) simp
    next
      case (Panic m)
      then show ?thesis using con by simp
    next
      case (Ok q)
      obtain tagA cf where q: "q = (tagA, cf)" by fastforce
      obtain m S where res: "res = Ok (m, S)" and S: "session_at t S cf" "valid t m" "\<forall>x \<in> session_owned t S. brk ?s \<le> x"
          "\<forall>x \<in> cells [m]. brk ?s \<le> x \<and> x \<notin> session_owned t S" and dec: "decodeMessageC (rd t m) = Ok \<lparr>mc_tag = tagA\<rparr>"
        using con Ok q by auto
      note cells = valid_cells [OF S(2,4)]
      have new: "holds t (Session_Obj S) (Open cf)" using S(1) by simp
      note rep = represents_own_new [OF assms(1) v own new session_owned_new [OF S(1,3) conjunct2 [OF cells]] conjunct1 [OF cells]]
      show ?thesis
        using service_step.initiator_accepts [of A a st R _ tagA cf, OF x Ok [unfolded q] dec rep(2)] rep(1) by (auto simp: res)
    qed
  qed
qed

lemma responder_finish_step:
  assumes "represents w A" and "Responder_Obj a \<in> w_objs w" and "cells [b] \<subseteq> w_bufs w"
    and "Responder_Finish (Some \<lparr>r_state = Some a\<rparr>) b (w_store w) = (res, t)"
  shows "\<exists>A'. service_step R rdr A (Responder_Finish_Event a (rd (w_store w) b) res) A'
    \<and> represents (after w t (on_ok (\<lambda>S. {Session_Obj S}) res) {}) A'"
proof -
  let ?s = "w_store w" and ?x = "Responder_Obj a"
  obtain v where v: "A ?x = Some v" using assms(2) represents_obj [OF assms(1)] by auto
  then have "holds ?s ?x v" by (rule represents_holds [OF assms(1)])
  then consider "v = Spent" "spent a ?s" | st c where "v = Answered st" "responder_ready ?s \<lparr>r_state = Some a\<rparr> a c st"
    by (cases v) auto
  then show ?thesis
  proof cases
    case 1
    then have "res = Err (Sentinel ErrStateUsed)" "t = ?s"
      using assms(4) spent_calls(3) [OF 1(2), of "\<lparr>r_state = Some a\<rparr>" b] by simp_all
    then show ?thesis
      using service_step.responder_reused [of A a R rdr] v 1(1) represents_quiet [OF assms(1) changes_refl, of "{}" "{}"]
      by (intro exI [of _ A]) simp
  next
    case 2
    note con = responder_finish_contract [OF 2(2) refl assms(4)]
    have own: "changes (owned ?s ?x) ?s t" "holds t ?x Spent" "owned t ?x \<subseteq> owned ?s ?x"
      using responder_wiped_owned [OF 2(2) conjunct1 [OF con]] by simp_all
    have x: "A ?x = Some (Answered st)" using v 2(1) by simp
    show ?thesis
    proof (cases "responder_result st (rd ?s b)")
      case (Err e)
      then have "res = Err e" using con by simp
      then show ?thesis
        using service_step.responder_rejects [of A a st _ e R rdr, OF x Err] represents_own [OF assms(1) v own]
        by (intro exI [of _ "A(?x \<mapsto> Spent)"]) simp
    next
      case (Panic m)
      then show ?thesis using con by simp
    next
      case (Ok cf)
      obtain S where res: "res = Ok S" and S: "session_at t S cf" "\<forall>x \<in> session_owned t S. brk ?s \<le> x"
        using con Ok by auto
      have new: "holds t (Session_Obj S) (Open cf)" using S(1) by simp
      have "owned t (Session_Obj S) \<subseteq> {brk ?s..<brk t} - {}" using session_owned_new [OF S, of None] by simp
      note rep = represents_own_new [OF assms(1) v own new this empty_subsetI]
      show ?thesis
        using service_step.responder_accepts [of A a st _ cf, OF x Ok rep(2)] rep(1) by (auto simp: res)
    qed
  qed
qed

lemma initiator_close_step:
  assumes "represents w A" and "Initiator_Obj a \<in> w_objs w"
    and "Initiator_Close R (Some \<lparr>i_state = Some a\<rparr>) (w_store w) = (res, t)"
  shows "\<exists>A'. service_step R rdr A (Initiator_Close_Event a res) A' \<and> represents (after w t {} {}) A'"
proof -
  let ?s = "w_store w" and ?x = "Initiator_Obj a"
  obtain v where v: "A ?x = Some v" using assms(2) represents_obj [OF assms(1)] by auto
  then have "holds ?s ?x v" by (rule represents_holds [OF assms(1)])
  then consider "v = Spent" "spent a ?s" | st c where "v = Waiting st" "initiator_ready ?s \<lparr>i_state = Some a\<rparr> a c st"
    by (cases v) auto
  then have "res = Ok () \<and> represents (after w t {} {}) (A(?x \<mapsto> Spent))"
  proof cases
    case 1
    then have "res = Ok ()" "t = ?s"
      using assms(3) spent_calls(2) [OF 1(2), of "\<lparr>i_state = Some a\<rparr>" R] by simp_all
    moreover have "A(?x \<mapsto> Spent) = A" using v 1(1) by auto
    ultimately show ?thesis using represents_quiet [OF assms(1) changes_refl, of "{}" "{}"] by simp
  next
    case 2
    have "initiator_at ?s c st" using 2(2) by (simp add: initiator_ready_def)
    moreover have res: "res = Ok ()" "t = initiatorCore_clear R (Some c) (claimed a ?s)"
      using close_contract(1) [OF 2(2) refl, of R] assms(3) by simp_all
    ultimately have "initiator_wiped R {} a c ?s t" using initiator_exit(1) [OF _ leaves_refl [of "{}" "{}" "{}"]] by blast
    note own = initiator_wiped_owned [OF 2(2) this]
    show ?thesis using represents_own [OF assms(1) v, of t Spent] own res(1) by simp
  qed
  then show ?thesis using service_step.initiator_closed [of A a v R rdr, OF v] by blast
qed

lemma responder_close_step:
  assumes "represents w A" and "Responder_Obj a \<in> w_objs w"
    and "Responder_Close (Some \<lparr>r_state = Some a\<rparr>) (w_store w) = (res, t)"
  shows "\<exists>A'. service_step R rdr A (Responder_Close_Event a res) A' \<and> represents (after w t {} {}) A'"
proof -
  let ?s = "w_store w" and ?x = "Responder_Obj a"
  obtain v where v: "A ?x = Some v" using assms(2) represents_obj [OF assms(1)] by auto
  then have "holds ?s ?x v" by (rule represents_holds [OF assms(1)])
  then consider "v = Spent" "spent a ?s" | st c where "v = Answered st" "responder_ready ?s \<lparr>r_state = Some a\<rparr> a c st"
    by (cases v) auto
  then have "res = Ok () \<and> represents (after w t {} {}) (A(?x \<mapsto> Spent))"
  proof cases
    case 1
    then have "res = Ok ()" "t = ?s"
      using assms(3) spent_calls(4) [OF 1(2), of "\<lparr>r_state = Some a\<rparr>"] by simp_all
    moreover have "A(?x \<mapsto> Spent) = A" using v 1(1) by auto
    ultimately show ?thesis using represents_quiet [OF assms(1) changes_refl, of "{}" "{}"] by simp
  next
    case 2
    have "responder_at ?s c st" using 2(2) by (simp add: responder_ready_def)
    moreover have res: "res = Ok ()" "t = responderCore_clear (Some c) (claimed a ?s)"
      using close_contract(2) [OF 2(2) refl] assms(3) by simp_all
    ultimately have "responder_wiped a c ?s t" using responder_exit_clear(1) [OF _ leaves_refl [of "{}" "{}" "{}"]] by blast
    note own = responder_wiped_owned [OF 2(2) this]
    show ?thesis using represents_own [OF assms(1) v, of t Spent] own res(1) by simp
  qed
  then show ?thesis using service_step.responder_closed [of A a v R rdr, OF v] by blast
qed

text \<open>A session that the program holds is open or closed.\<close>

lemma session_standing:
  assumes "represents w A" and "Session_Obj S \<in> w_objs w"
  obtains c where "A (Session_Obj S) = Some (Open c)" "session_at (w_store w) S c"
    | c where "A (Session_Obj S) = Some (Closed c)" "session_closed_at (w_store w) S c"
proof -
  obtain v where v: "A (Session_Obj S) = Some v" using assms(2) represents_obj [OF assms(1)] by auto
  moreover have "holds (w_store w) (Session_Obj S) v" by (rule represents_holds [OF assms(1) v])
  ultimately show thesis using that by (cases v) auto
qed

lemma session_values:
  assumes "represents w A" and "Session_Obj S \<in> w_objs w"
  obtains c where "A (Session_Obj S) \<in> {Some (Open c), Some (Closed c)}"
    "session_metadata (w_store w) S = (cf_transcriptID c, cf_peerAD c, cf_peerID c)"
  using assms by (rule session_standing) (auto simp: session_at_def session_closed_at_def)

lemma changes_new [simp]: "changes {} s (s\<lparr>brk := Suc (brk s), mem := (mem s)(brk s := v)\<rparr>)"
  by (simp add: changes_def same_at_def)

lemma clone_quiet:
  assumes "represents w A" and "clone sl (w_store w) = (m, t)"
  shows "represents (after w t {} (cells [m])) A" and "rd t m = rd (w_store w) sl"
proof -
  have m: "m = slice_at sl (brk (w_store w))"
    and t: "t = (w_store w)\<lparr>brk := Suc (brk (w_store w)), mem := (mem (w_store w))(brk (w_store w) := rd (w_store w) sl)\<rparr>"
    using assms(2) by (simp_all add: clone_closed)
  have "cells [m] \<subseteq> {brk (w_store w)..<brk t}" by (auto simp: m t cells_def)
  then show "represents (after w t {} (cells [m])) A"
    using represents_quiet [OF assms(1), of "{}" t "cells [m]"] by (simp add: t)
  show "rd t m = rd (w_store w) sl" by (cases sl) (simp_all add: m t content_at)
qed

lemma export_step:
  assumes "represents w A" and "Session_Obj S \<in> w_objs w" and "Export (Some S) label ctx n (w_store w) = (res, t)"
  shows "\<exists>A'. service_step R rdr A (Export_Event S label ctx n (map_go id (rd t) res)) A'
    \<and> represents (after w t {} (on_ok (\<lambda>m. cells [m]) res)) A'"
  using assms(1,2)
proof (cases rule: session_standing)
  case (1 c)
  then obtain a where a: "s_state S = Some a" "\<not> ss_closed (sessions (w_store w) a)"
      "rd (w_store w) (ss_isk (sessions (w_store w) a)) = cf_isk c"
    by (auto simp: session_at_def split: option.splits)
  note quiet = represents_quiet [OF assms(1)]
  show ?thesis
  proof (cases "0 \<le> n \<and> n \<le> maxHKDFOutput")
    case True
    let ?out = "take (nat n) (export_stream (cf_isk c) label ctx)"
    have res: "res = Ok (Some (brk (w_store w)))"
        "t = (w_store w)\<lparr>brk := Suc (brk (w_store w)), mem := (mem (w_store w))(brk (w_store w) := ?out)\<rparr>"
      using assms(3) a True by (simp_all add: Export_closed maxHKDFOutput_def)
    have "represents (after w t {} {brk (w_store w)}) A" using quiet [of "{}" t "{brk (w_store w)}"] by (simp add: res)
    then show ?thesis using service_step.exported [of A S c n R rdr, OF 1(1)] True by (intro exI [of _ A]) (simp add: res)
  next
    case False
    then have res: "res = Err (errorf ErrInvalidInput ''invalid export length'')" "t = w_store w"
      using assms(3) a by (auto simp: Export_closed maxHKDFOutput_def split: if_splits)
    then show ?thesis
      using service_step.bad_length [of A S c n _ R rdr, OF 1(1) False] quiet [OF changes_refl, of "{}" "{}"]
      by (intro exI [of _ A]) simp
  qed
next
  case (2 c)
  then have "res = Err (Sentinel ErrSessionClosed)" "t = w_store w"
    using assms(3) by (auto simp: Export_closed session_closed_at_def)
  then show ?thesis
    using service_step.export_closed [of A S c R rdr, OF 2(1)] represents_quiet [OF assms(1) changes_refl, of "{}" "{}"]
    by (intro exI [of _ A]) simp
qed

lemma session_close_step:
  assumes "represents w A" and "Session_Obj S \<in> w_objs w" and "Session_Close (Some S) (w_store w) = (res, t)"
  shows "\<exists>A'. service_step R rdr A (Session_Close_Event S res) A' \<and> represents (after w t {} {}) A'"
  using assms(1,2)
proof (cases rule: session_standing)
  case (1 c)
  let ?s = "w_store w" and ?x = "Session_Obj S"
  obtain a k where a: "s_state S = Some a" "a < brk ?s" "\<not> ss_closed (sessions ?s a)"
      "ss_isk (sessions ?s a) = Some k" "k < brk ?s"
    and distinct: "Some k \<notin> {s_transcriptID S, s_peerAD S, s_peerID S}"
    and md: "session_metadata ?s S = (cf_transcriptID c, cf_peerAD c, cf_peerID c)"
    and valid: "valid ?s (s_transcriptID S)" "valid ?s (s_peerAD S)" "valid ?s (s_peerID S)"
    using 1(2) by (auto simp: session_at_def split: option.splits)
  have res: "res = Ok ()" "t = (clearBytes (Some k) ?s)\<lparr>sessions := (sessions ?s)(a := \<lparr>ss_closed = True, ss_isk = None\<rparr>)\<rparr>"
    using assms(3) a by (simp_all add: Session_Close_closed)
  have "session_metadata t S = session_metadata ?s S"
    using distinct by (simp add: session_metadata_def res(2) clear_closed content_upd eq_commute)
  then have "holds t ?x (Closed c)"
    using a valid md by (simp add: session_closed_at_def res(2) valid_def)
  moreover have "k \<in> owned ?s ?x" using a by (simp add: session_cells_def cells_def)
  then have "changes (owned ?s ?x) ?s t"
    using a(1) by (auto simp: changes_def same_at_def res(2) mem_clearBytes)
  moreover have "owned t ?x \<subseteq> owned ?s ?x"
    using a(1) by (auto simp: res(2) session_cells_def cells_def)
  ultimately have "represents (after w t {} {}) (A(?x \<mapsto> Closed c))" by (intro represents_own [OF assms(1) 1(1)])
  then show ?thesis using service_step.session_closed [of A S c R rdr] 1(1) res(1) by auto
next
  case (2 c)
  then have "res = Ok ()" "t = w_store w" using assms(3) by (auto simp: Session_Close_closed session_closed_at_def)
  moreover have "A(Session_Obj S \<mapsto> Closed c) = A" using 2(1) by auto
  ultimately show ?thesis
    using service_step.session_closed [of A S c R rdr] 2(1) represents_quiet [OF assms(1) changes_refl, of "{}" "{}"]
    by (intro exI [of _ A]) simp
qed

section \<open>The simulation\<close>

text \<open>Traces of a labelled step relation, and the rule that a step-by-step simulation includes them.\<close>

inductive trace :: "('a \<Rightarrow> 'e \<Rightarrow> 'a \<Rightarrow> bool) \<Rightarrow> 'a \<Rightarrow> 'e list \<Rightarrow> 'a \<Rightarrow> bool" 
  for step :: "'a \<Rightarrow> 'e \<Rightarrow> 'a \<Rightarrow> bool" and a :: 'a where
  empty: "trace step a [] a"
| snoc: "trace step a es b \<Longrightarrow> step b e c \<Longrightarrow> trace step a (es @ [e]) c"

lemma trace_one: "step a e b \<Longrightarrow> trace step a [e] b"
  using trace.snoc [of step a "[]" a e b] trace.empty [of step a] by simp

locale simulation =
  fixes impl :: "'w \<Rightarrow> 'e \<Rightarrow> 'w \<Rightarrow> bool" and spec :: "'a \<Rightarrow> 'e \<Rightarrow> 'a \<Rightarrow> bool" and rel :: "'w \<Rightarrow> 'a \<Rightarrow> bool"
  assumes simulates: "rel w A \<Longrightarrow> impl w e w' \<Longrightarrow> \<exists>A'. spec A e A' \<and> rel w' A'"
begin

lemma trace_inclusion:
  assumes "trace impl w es w'" and "rel w A"
  shows "\<exists>A'. trace spec A es A' \<and> rel w' A'"
  using assms(1)
proof (induction rule: trace.induct)
  case empty
  show ?case using assms(2) trace.empty [of spec A] by blast
next
  case (snoc es w1 e w2)
  then obtain A1 where "trace spec A es A1" "rel w1 A1" by blast
  moreover obtain A2 where "spec A1 e A2" "rel w2 A2" using simulates [OF calculation(2) snoc.hyps(2)] by blast
  ultimately show ?case using trace.snoc [of spec A es A1 e A2] by blast
qed

end

interpretation package: simulation "api_step R rdr" "service_step R rdr"
  "\<lambda>w A. uniform_law R \<and> encoding_laws R \<and> represents w A" for R rdr
proof
  fix w A and e :: "'c event" and w'
  assume rel: "uniform_law R \<and> encoding_laws R \<and> represents w A" and step: "api_step R rdr w e w'"
  then have laws: "uniform_law R" "encoding_laws R" and rep: "represents w A" by simp_all
  from step have "\<exists>A'. service_step R rdr A e A' \<and> represents w' A'"
  proof cases
    case (start input res t)
    then show ?thesis using start_step [OF laws rep] by blast
  next
    case (respond input msg res t)
    then show ?thesis using respond_step [OF laws rep] by blast
  next
    case (initiator_finish a msg res t)
    then show ?thesis using initiator_finish_step [OF rep] by blast
  next
    case (initiator_close a res t)
    then show ?thesis using initiator_close_step [OF rep] by blast
  next
    case (responder_finish a msg res t)
    then show ?thesis using responder_finish_step [OF rep] by blast
  next
    case (responder_close a res t)
    then show ?thesis using responder_close_step [OF rep] by blast
  next
    case (export S label ctx n res t)
    then show ?thesis using export_step [OF rep] by blast
  next
    case (session_close S res t)
    then show ?thesis using session_close_step [OF rep] by blast
  next
    case (transcript_id S m t)
    then obtain c where "A (Session_Obj S) \<in> {Some (Open c), Some (Closed c)}" "rd (w_store w) (s_transcriptID S) = cf_transcriptID c"
      using session_values [OF rep] by (metis Pair_inject session_metadata_def)
    then show ?thesis
      using transcript_id clone_quiet [OF rep, of "s_transcriptID S" m t] service_step.transcript_id [of A S c R rdr]
      by (intro exI [of _ A]) (simp add: TranscriptID_def)
  next
    case (peer_associated_data S m t)
    then obtain c where "A (Session_Obj S) \<in> {Some (Open c), Some (Closed c)}" "rd (w_store w) (s_peerAD S) = cf_peerAD c"
      using session_values [OF rep] by (metis Pair_inject session_metadata_def)
    then show ?thesis
      using peer_associated_data clone_quiet [OF rep, of "s_peerAD S" m t] service_step.peer_associated_data [of A S c R rdr]
      by (intro exI [of _ A]) (simp add: PeerAssociatedData_def)
  next
    case (peer_id S m t)
    then obtain c where "A (Session_Obj S) \<in> {Some (Open c), Some (Closed c)}" "rd (w_store w) (s_peerID S) = cf_peerID c"
      using session_values [OF rep] by (metis Pair_inject session_metadata_def)
    then show ?thesis
      using peer_id clone_quiet [OF rep, of "s_peerID S" m t] service_step.peer_id [of A S c R rdr]
      by (intro exI [of _ A]) (simp add: PeerID_def)
  next
    case (caller n m B r)
    have "changes (w_bufs w) (w_store w) ((w_store w)\<lparr>brk := n, mem := m, rand := r\<rparr>)"
      using caller by (simp add: changes_def same_at_def)
    then show ?thesis
      using represents_quiet [OF rep _ subset_refl, of "(w_store w)\<lparr>brk := n, mem := m, rand := r\<rparr>" B] caller service_step.caller [of R rdr A]
      by auto
  qed
  then show "\<exists>A'. service_step R rdr A e A' \<and> uniform_law R \<and> encoding_laws R \<and> represents w' A'" using laws by blast
qed

text \<open>The object that a terminal call is on, and a call that panics.\<close>

fun claimed_obj :: "'r event \<Rightarrow> obj option" where
  "claimed_obj (Initiator_Finish_Event a b res) = Some (Initiator_Obj a)"
| "claimed_obj (Initiator_Close_Event a res) = Some (Initiator_Obj a)"
| "claimed_obj (Responder_Finish_Event a b res) = Some (Responder_Obj a)"
| "claimed_obj (Responder_Close_Event a res) = Some (Responder_Obj a)"
| "claimed_obj (Session_Close_Event S res) = Some (Session_Obj S)"
| "claimed_obj _ = None"

fun panics :: "'r event \<Rightarrow> bool" where
  "panics (Start_Event v r res) = (\<exists>m. res = Panic m)"
| "panics (Respond_Event v b r res) = (\<exists>m. res = Panic m)"
| "panics (Initiator_Finish_Event a b res) = (\<exists>m. res = Panic m)"
| "panics (Initiator_Close_Event a res) = (\<exists>m. res = Panic m)"
| "panics (Responder_Finish_Event a b res) = (\<exists>m. res = Panic m)"
| "panics (Responder_Close_Event a res) = (\<exists>m. res = Panic m)"
| "panics (Export_Event S label ctx n res) = (\<exists>m. res = Panic m)"
| "panics (Session_Close_Event S res) = (\<exists>m. res = Panic m)"
| "panics _ = False"

lemma service_step_laws:
  assumes "service_step R rdr A e A'"
  shows "\<not> panics e" and "A x = Some v \<Longrightarrow> claimed_obj e \<noteq> Some x \<Longrightarrow> A' x = Some v"
  using assms by (cases rule: service_step.cases; auto)+

lemma service_trace_laws:
  assumes "trace (service_step R rdr) A es A'"
  shows "\<forall>e \<in> set es. \<not> panics e" and "A x = Some v \<Longrightarrow> \<forall>e \<in> set es. claimed_obj e \<noteq> Some x \<Longrightarrow> A' x = Some v"
  using assms
proof (induction rule: trace.induct)
  case (snoc es B e C)
  {
    case 1
    then show ?case using snoc service_step_laws(1) [OF snoc.hyps(2)] by auto
  next
    case 2
    then show ?case using snoc service_step_laws(2) [OF snoc.hyps(2)] by auto
  }
qed auto

text \<open>A program that starts: it holds no object, and its slices are below the break.\<close>

definition fresh_world :: "('s, 'e, 'r) store \<Rightarrow> nat set \<Rightarrow> ('s, 'e, 'r) world" where
  "fresh_world s B = \<lparr>w_store = s, w_objs = {}, w_bufs = B\<rparr>"

lemma represents_fresh: "B \<subseteq> {..<brk s} \<Longrightarrow> represents (fresh_world s B) Map.empty"
  by (simp add: represents_def owned_apart_def fresh_world_def)

section \<open>Properties\<close>

text \<open>C1. The package implements its abstract service. Whatever a program does with it, with any number of
  exchanges and sessions at a time, in any order of calls, copying handles, and writing to its own memory, the slices
  that it passed in and got back included: the results that it sees are those of a table in which each
  initiator, responder and session stands alone, as a value that only its own \<open>Finish\<close> and \<open>Close\<close> change.\<close>

theorem api_implements_service:
  assumes "uniform_law R" and "encoding_laws R" and "B \<subseteq> {..<brk s}"
    and "trace (api_step R rdr) (fresh_world s B) es w"
  shows "\<exists>A. trace (service_step R rdr) Map.empty es A \<and> represents w A"
  using package.trace_inclusion [OF assms(4)] represents_fresh [OF assms(3)] assms(1,2) by blast

text \<open>A program that starts an exchange, and then overwrites the password that it passed in.\<close>

lemma sample_start:
  "\<exists>e w a. api_step residues (constant_reader 3) (fresh_world (sample_store ()) {..<4}) e w
     \<and> Initiator_Obj a \<in> w_objs w \<and> 0 \<in> w_bufs w"
proof -
  let ?w = "fresh_world (sample_store ()) {..<4}"
  obtain res t where S: "Start residues (constant_reader 3) sample_input (sample_store ()) = (res, t)" by fastforce
  have "start_spec residues (constant_reader 3) (inputs_of (mem (sample_store ())) sample_input) (rand (sample_store ()))
      = Ok (start_state residues (inputs_of (mem (sample_store ())) sample_input) 1 3)"
    using sample_simps(2) [of "()"] by (simp add: start_spec_def residue_values input_error_None [symmetric])
  then obtain i msg a c where res: "res = Ok (i, msg)" "initiator_ready t i a c
      (start_state residues (inputs_of (mem (sample_store ())) sample_input) 1 3)"
    using start_contract_spec [OF sample_simps(1) residues_laws(1) residues_encoding S] by auto
  have "input_cells sample_input \<subseteq> w_bufs ?w" by (auto simp: input_cells_def sample_input_def fresh_world_def)
  moreover have "Start residues (constant_reader 3) sample_input (w_store ?w) = (res, t)" using S by (simp add: fresh_world_def)
  ultimately have "api_step residues (constant_reader 3) ?w
      (Start_Event (inputs_of (mem (w_store ?w)) sample_input) (rand (w_store ?w)) (map_go id (\<lambda>(i, m). (i, rd t m)) res))
      (after ?w t (on_ok (\<lambda>(i, m). Initiator_Obj ` set_option (i_state i)) res) (on_ok (\<lambda>(i, m). cells [m]) res))"
    by (rule api_step.start)
  moreover have "i_state i = Some a" using res(2) by (simp add: initiator_ready_def)
  ultimately show ?thesis
    by (intro exI conjI) (assumption, simp_all add: res(1) after_def fresh_world_def)
qed

lemma sample_overwrite:
  assumes "0 \<in> w_bufs w" and "0 < brk (w_store w)"
  shows "api_step residues rdr w Caller_Event (after w ((w_store w)\<lparr>mem := (mem (w_store w))(0 := [9])\<rparr>) {} {})"
  using api_step.caller [of w "brk (w_store w)" "(mem (w_store w))(0 := [9])" "{}" residues rdr "rand (w_store w)"] assms
  by simp

theorem api_implements_service_witness:
  "\<exists>e w A. trace (api_step residues (constant_reader 3)) (fresh_world (sample_store ()) {..<4}) [e] w
     \<and> trace (service_step residues (constant_reader 3)) Map.empty [e] A \<and> represents w A \<and> w_objs w \<noteq> {}"
proof -
  obtain e w a where step: "api_step residues (constant_reader 3) (fresh_world (sample_store ()) {..<4}) e w"
    and a: "Initiator_Obj a \<in> w_objs w"
    using sample_start by blast
  have "trace (api_step residues (constant_reader 3)) (fresh_world (sample_store ()) {..<4}) [e] w"
    using step by (rule trace_one)
  moreover have "{..<4} \<subseteq> {..<brk (sample_store ())}" by (simp add: sample_store_def)
  ultimately show ?thesis
    using api_implements_service [OF residues_laws(1) residues_encoding, of "{..<4}" "sample_store ()" "constant_reader 3" "[e]" w] a
    by blast
qed

text \<open>C10. The heap stays well formed. In every reachable state each object that the program holds is
  well formed and owns its memory: no other object shares it, and no slice that the program passed in
  or was handed reaches it. So a waiting initiator, a waiting responder or an open session is
  unchanged by any sequence of calls that does not finish or close it, and by any
  write of the program. No call panics.\<close>

theorem objects_isolated:
  assumes "uniform_law R" and "encoding_laws R" and "B \<subseteq> {..<brk s}"
    and "trace (api_step R rdr) (fresh_world s B) es w" and "trace (api_step R rdr) w es' w'"
    and "x \<in> w_objs w" and "\<forall>e \<in> set es'. claimed_obj e \<noteq> Some x"
  shows "owned_apart w' \<and> x \<in> w_objs w' \<and> (\<forall>y \<in> w_objs w'. \<exists>v. holds (w_store w') y v)
    \<and> (\<exists>v. holds (w_store w) x v \<and> holds (w_store w') x v) \<and> (\<forall>e \<in> set es \<union> set es'. \<not> panics e)"
proof -
  obtain A where A: "trace (service_step R rdr) Map.empty es A" "represents w A"
    using package.trace_inclusion [OF assms(4)] represents_fresh [OF assms(3)] assms(1,2) by blast
  obtain A' where A': "trace (service_step R rdr) A es' A'" "represents w' A'"
    using package.trace_inclusion [OF assms(5)] A(2) assms(1,2) by blast
  obtain v where "A x = Some v" using assms(6) represents_obj [OF A(2)] by auto
  moreover from this have v: "A' x = Some v" using service_trace_laws(2) [OF A'(1)] assms(7) by blast
  ultimately have "holds (w_store w) x v" "holds (w_store w') x v" "x \<in> w_objs w'"
    using represents_holds A(2) A'(2) represents_obj [OF A'(2)] by auto
  moreover have "\<forall>y \<in> w_objs w'. \<exists>v. holds (w_store w') y v"
    using represents_obj [OF A'(2)] represents_holds [OF A'(2)] by blast
  ultimately show ?thesis
    using A'(2) service_trace_laws(1) [OF A(1)] service_trace_laws(1) [OF A'(1)] by (auto simp: represents_def)
qed

theorem objects_isolated_witness:
  "\<exists>x e w w'. trace (api_step residues (constant_reader 3)) w [e] w' \<and> x \<in> w_objs w \<and> mem (w_store w') 0 = [9]
     \<and> owned_apart w' \<and> (\<exists>v. holds (w_store w) x v \<and> holds (w_store w') x v)"
proof -
  let ?w0 = "fresh_world (sample_store ()) {..<4}"
  obtain e w a where step: "api_step residues (constant_reader 3) ?w0 e w"
    and a: "Initiator_Obj a \<in> w_objs w" "0 \<in> w_bufs w"
    using sample_start by blast
  have b: "{..<4} \<subseteq> {..<brk (sample_store ())}" by (simp add: sample_store_def)
  have t: "trace (api_step residues (constant_reader 3)) ?w0 [e] w" using step by (rule trace_one)
  obtain A where "represents w A"
    using package.trace_inclusion [OF t] represents_fresh [OF b] residues_laws(1) residues_encoding by blast
  then have "0 < brk (w_store w)" using a(2) by (auto simp: represents_def owned_apart_def)
  note step' = sample_overwrite [OF a(2) this, of "constant_reader 3"]
  have t': "trace (api_step residues (constant_reader 3)) w [Caller_Event]
      (after w ((w_store w)\<lparr>mem := (mem (w_store w))(0 := [9])\<rparr>) {} {})"
    using step' by (rule trace_one)
  have "owned_apart (after w ((w_store w)\<lparr>mem := (mem (w_store w))(0 := [9])\<rparr>) {} {})
      \<and> (\<exists>v. holds (w_store w) (Initiator_Obj a) v
           \<and> holds (w_store (after w ((w_store w)\<lparr>mem := (mem (w_store w))(0 := [9])\<rparr>) {} {})) (Initiator_Obj a) v)"
    using objects_isolated [OF residues_laws(1) residues_encoding b t t' a(1)] by simp
  moreover have "mem (w_store (after w ((w_store w)\<lparr>mem := (mem (w_store w))(0 := [9])\<rparr>) {} {})) 0 = [9]"
    by (simp add: after_def)
  ultimately show ?thesis using t' a(1) by blast
qed

end
