(* ===== verification/Concurrency.thy ===== *)
theory Concurrency
  imports Terminal_State
begin

text \<open>
  The mutex of terminal_state.go. Elsewhere in the development \<open>claimFinish\<close> and \<open>claimClose\<close> are single steps;
  here goroutines run their statements one at a time, in any interleaving, and the results are those of the single
  steps in some order.
\<close>

section \<open>Goroutines at the guard\<close>

datatype claim = Claim_Finish | Claim_Close

text \<open>Where a goroutine is in its claim: before \<open>s.mu.Lock()\<close>, before the test of \<open>s.used\<close>, before that of
  \<open>s.core\<close>, before the assignment to \<open>s.used\<close>, before the deferred \<open>s.mu.Unlock()\<close>, and returned.\<close>

datatype pc =
    Locking claim
  | Testing_Used claim
  | Testing_Core claim
  | Setting_Used claim
  | Unlocking "nat option result"
  | Returned "nat option result"

record guard =
  holder :: "nat option"
  guard_state :: singleUseState
  pcs :: "nat \<Rightarrow> pc"

text \<open>The result of a claim on a spent guard.\<close>

definition claim_lost :: "claim \<Rightarrow> nat option result" where
  "claim_lost c = (case c of Claim_Finish \<Rightarrow> Err (Sentinel ErrStateUsed) | Claim_Close \<Rightarrow> Ok None)"

abbreviation goto :: "nat \<Rightarrow> pc \<Rightarrow> guard \<Rightarrow> guard" where
  "goto t p g \<equiv> g\<lparr>pcs := (pcs g)(t := p)\<rparr>"

inductive claim_step :: "guard \<Rightarrow> guard \<Rightarrow> bool" where
  lock: "pcs g t = Locking c \<Longrightarrow> holder g = None \<Longrightarrow> claim_step g (goto t (Testing_Used c) (g\<lparr>holder := Some t\<rparr>))"
| used: "pcs g t = Testing_Used c \<Longrightarrow> su_used (guard_state g) \<Longrightarrow> claim_step g (goto t (Unlocking (claim_lost c)) g)"
| unused: "pcs g t = Testing_Used c \<Longrightarrow> \<not> su_used (guard_state g) \<Longrightarrow> claim_step g (goto t (Testing_Core c) g)"
| no_core: "pcs g t = Testing_Core c \<Longrightarrow> su_core (guard_state g) = None \<Longrightarrow>
    claim_step g (goto t (Unlocking (Err (uninitializedError (guard_state g)))) g)"
| core: "pcs g t = Testing_Core c \<Longrightarrow> su_core (guard_state g) \<noteq> None \<Longrightarrow> claim_step g (goto t (Setting_Used c) g)"
| set_used: "pcs g t = Setting_Used c \<Longrightarrow>
    claim_step g (goto t (Unlocking (Ok (su_core (guard_state g)))) (g\<lparr>guard_state := (guard_state g)\<lparr>su_used := True\<rparr>\<rparr>))"
| unlock: "pcs g t = Unlocking res \<Longrightarrow> claim_step g (goto t (Returned res) (g\<lparr>holder := None\<rparr>))"

inductive_cases claim_stepE: "claim_step g g'"

text \<open>Goroutine \<open>t\<close> makes the claim \<open>calls t\<close> on the guard.\<close>

definition claim_start :: "(nat \<Rightarrow> claim) \<Rightarrow> singleUseState \<Rightarrow> guard" where
  "claim_start calls u = \<lparr>holder = None, guard_state = u, pcs = (\<lambda>t. Locking (calls t))\<rparr>"

section \<open>The claims as single steps\<close>

definition claim_call :: "claim \<Rightarrow> nat \<Rightarrow> ('s, 'e, 'r) store \<Rightarrow> nat option result \<times> ('s, 'e, 'r) store" where
  "claim_call c a s = (case c of Claim_Finish \<Rightarrow> claimFinish a s | Claim_Close \<Rightarrow> claimClose a s)"

text \<open>The claims of the goroutines of a list, in its order: their results and the store after them.\<close>

fun claims_in_order :: "(nat \<Rightarrow> claim) \<Rightarrow> nat \<Rightarrow> nat list \<Rightarrow> ('s, 'e, 'r) store \<Rightarrow> (nat \<times> nat option result) list \<times> ('s, 'e, 'r) store" where
  "claims_in_order calls a [] s = ([], s)"
| "claims_in_order calls a (t # ts) s =
     (let (res, s) = claim_call (calls t) a s; (results, s) = claims_in_order calls a ts s
      in ((t, res) # results, s))"

lemma claims_in_order_snoc:
  "claims_in_order calls a (ts @ [t]) s =
     (let (results, s) = claims_in_order calls a ts s; (res, s) = claim_call (calls t) a s
      in (results @ [(t, res)], s))"
  by (induction ts arbitrary: s) (simp_all add: Let_def split: prod.split)

lemma claim_call_spent: "su_used (ustates s a) \<Longrightarrow> claim_call c a s = (claim_lost c, s)"
  by (simp add: claim_call_def claim_lost_def claimFinish_def claimClose_def split: claim.split)

lemma claim_call_no_core:
  "\<not> su_used (ustates s a) \<Longrightarrow> su_core (ustates s a) = None \<Longrightarrow>
     claim_call c a s = (Err (uninitializedError (ustates s a)), s)"
  by (simp add: claim_call_def claimFinish_def claimClose_def split: claim.split)

lemma claim_call_won:
  "\<not> su_used (ustates s a) \<Longrightarrow> su_core (ustates s a) \<noteq> None \<Longrightarrow>
     claim_call c a s = (Ok (su_core (ustates s a)), s\<lparr>ustates := (ustates s)(a := (ustates s a)\<lparr>su_used := True\<rparr>)\<rparr>)"
  by (cases c) (auto simp: claim_call_def claimFinish_def claimClose_def Let_def)

section \<open>The invariant\<close>

fun inside_lock :: "pc \<Rightarrow> bool" where
  "inside_lock (Locking c) = False"
| "inside_lock (Returned r) = False"
| "inside_lock p = True"

fun claim_result :: "pc \<Rightarrow> nat option result option" where
  "claim_result (Unlocking res) = Some res"
| "claim_result (Returned res) = Some res"
| "claim_result p = None"

text \<open>
  Whoever is between lock and unlock holds the mutex; what it has read still holds; and the goroutines that have
  decided are those of a list whose claims in its order give their results and the state of the guard.
\<close>

definition pc_ok :: "singleUseState \<Rightarrow> claim \<Rightarrow> pc \<Rightarrow> bool" where
  "pc_ok u c p \<longleftrightarrow> (case p of
     Locking d \<Rightarrow> d = c
   | Testing_Used d \<Rightarrow> d = c
   | Testing_Core d \<Rightarrow> d = c \<and> \<not> su_used u
   | Setting_Used d \<Rightarrow> d = c \<and> \<not> su_used u \<and> su_core u \<noteq> None
   | _ \<Rightarrow> True)"

definition linearized :: "(nat \<Rightarrow> claim) \<Rightarrow> nat \<Rightarrow> ('s, 'e, 'r) store \<Rightarrow> guard \<Rightarrow> nat list \<Rightarrow> bool" where
  "linearized calls a s g ts \<longleftrightarrow> distinct ts \<and> (\<forall>t. t \<in> set ts \<longleftrightarrow> claim_result (pcs g t) \<noteq> None)
   \<and> (\<forall>(t, res) \<in> set (fst (claims_in_order calls a ts s)). claim_result (pcs g t) = Some res)
   \<and> ustates (snd (claims_in_order calls a ts s)) a = guard_state g"

definition guarded :: "(nat \<Rightarrow> claim) \<Rightarrow> nat \<Rightarrow> ('s, 'e, 'r) store \<Rightarrow> guard \<Rightarrow> bool" where
  "guarded calls a s g \<longleftrightarrow> (\<forall>t. inside_lock (pcs g t) \<longleftrightarrow> holder g = Some t) \<and> (\<forall>t. pc_ok (guard_state g) (calls t) (pcs g t))
   \<and> (\<exists>ts. linearized calls a s g ts)"

lemma fst_claims [simp]: "map fst (fst (claims_in_order calls a ts s)) = ts"
  by (induction ts arbitrary: s) (auto simp: Let_def split: prod.split, metis fst_conv)

text \<open>A step that decides nothing keeps the order; one that decides appends its goroutine.\<close>

lemma linearized_keep:
  assumes "linearized calls a s g ts" and "claim_result p = claim_result (pcs g t)" and "guard_state g' = guard_state g"
    and "pcs g' = (pcs g)(t := p)"
  shows "linearized calls a s g' ts"
  using assms by (force simp: linearized_def)

lemma linearized_decide:
  fixes s :: "('s, 'e, 'r) store"
  assumes lin: "linearized calls a s g ts" and undecided: "claim_result (pcs g t) = None" and p: "claim_result p = Some res"
    and call: "\<And>s' :: ('s, 'e, 'r) store. ustates s' a = guard_state g \<Longrightarrow> \<exists>s''. claim_call (calls t) a s' = (res, s'') \<and> ustates s'' a = guard_state g'"
    and pcs: "pcs g' = (pcs g)(t := p)"
  shows "linearized calls a s g' (ts @ [t])"
proof -
  obtain results s' where run: "claims_in_order calls a ts s = (results, s')" by force
  have ts: "distinct ts" "\<And>u. u \<in> set ts \<longleftrightarrow> claim_result (pcs g u) \<noteq> None"
      "\<forall>(u, r) \<in> set results. claim_result (pcs g u) = Some r" "ustates s' a = guard_state g"
    using lin by (auto simp: linearized_def run)
  obtain s'' where s'': "claim_call (calls t) a s' = (res, s'')" "ustates s'' a = guard_state g'" using call [OF ts(4)] by blast
  have "t \<notin> set ts" using ts(2) undecided by simp
  moreover have "map fst results = ts" using fst_claims [of calls a ts s] by (simp add: run)
  ultimately have "\<And>r. (t, r) \<notin> set results" by force
  then show ?thesis
    unfolding linearized_def claims_in_order_snoc run using ts s'' \<open>t \<notin> set ts\<close> p pcs by (auto simp: Let_def)
qed

lemma guarded_start: "guarded calls a s (claim_start calls (ustates s a))"
proof -
  have "linearized calls a s (claim_start calls (ustates s a)) []" by (simp add: linearized_def claim_start_def)
  then show ?thesis by (auto simp: guarded_def claim_start_def pc_ok_def)
qed

text \<open>A goroutine inside the lock excludes the others, so that a change of the guard's state is seen by none.\<close>

lemma guarded_pc: "guarded calls a s g \<Longrightarrow> pc_ok (guard_state g) (calls t) (pcs g t)"
  by (simp add: guarded_def)

lemma guarded_lock: "guarded calls a s g \<Longrightarrow> inside_lock (pcs g t) \<longleftrightarrow> holder g = Some t"
  by (simp add: guarded_def)

lemma guarded_others:
  assumes "guarded calls a s g" and "inside_lock (pcs g t)" and "u \<noteq> t"
  shows "\<not> inside_lock (pcs g u)"
  using assms by (auto simp: guarded_def)

lemma pc_ok_outside: "\<not> inside_lock p \<Longrightarrow> pc_ok u c p \<Longrightarrow> pc_ok u' c p"
  by (cases p) (auto simp: pc_ok_def)

lemma guarded_move:
  assumes inv: "guarded calls a s g" and pcs: "pcs g' = (pcs g)(t := p)"
    and ok: "pc_ok (guard_state g') (calls t) p"
    and lock: "inside_lock p \<longleftrightarrow> holder g' = Some t" "\<And>u. u \<noteq> t \<Longrightarrow> holder g' = Some u \<longleftrightarrow> holder g = Some u"
    and state: "guard_state g' = guard_state g \<or> inside_lock (pcs g t)"
    and lin: "\<And>ts. linearized calls a s g ts \<Longrightarrow> \<exists>ts'. linearized calls a s g' ts'"
  shows "guarded calls a s g'"
proof -
  have "pc_ok (guard_state g') (calls u) (pcs g' u)" for u
  proof (cases "u = t")
    case False
    have "pc_ok (guard_state g) (calls u) (pcs g u)" using inv by (simp add: guarded_def)
    then show ?thesis using state False guarded_others [OF inv _ False] pc_ok_outside by (auto simp: pcs)
  qed (simp add: pcs ok)
  moreover have "inside_lock (pcs g' u) \<longleftrightarrow> holder g' = Some u" for u
    using inv lock by (cases "u = t") (auto simp: guarded_def pcs)
  ultimately show ?thesis using inv lin by (auto simp: guarded_def)
qed

lemma guarded_step:
  fixes s :: "('s, 'e, 'r) store"
  assumes inv: "guarded calls a s g" and step: "claim_step g g'"
  shows "guarded calls a s g'"
  using step
proof cases
  case (lock t c)
  moreover have "linearized calls a s g ts \<Longrightarrow> linearized calls a s g' ts" for ts
    using lock by (elim linearized_keep [where p = "Testing_Used c" and t = t]) auto
  ultimately show ?thesis using guarded_pc [OF inv, of t]
    by (intro guarded_move [OF inv, of g' t "Testing_Used c"]) (auto simp: pc_ok_def)
next
  case (used t c)
  have c: "c = calls t" using guarded_pc [OF inv, of t] used by (simp add: pc_ok_def)
  have "linearized calls a s g ts \<Longrightarrow> linearized calls a s g' (ts @ [t])" for ts
    using used by (elim linearized_decide [where p = "Unlocking (claim_lost c)"]) (simp_all add: c claim_call_spent)
  then show ?thesis using used guarded_lock [OF inv, of t]
    by (intro guarded_move [OF inv, of g' t "Unlocking (claim_lost c)"]) (auto simp: pc_ok_def)
next
  case (unused t c)
  moreover have "linearized calls a s g ts \<Longrightarrow> linearized calls a s g' ts" for ts
    using unused by (elim linearized_keep [where p = "Testing_Core c" and t = t]) auto
  ultimately show ?thesis using guarded_pc [OF inv, of t] guarded_lock [OF inv, of t]
    by (intro guarded_move [OF inv, of g' t "Testing_Core c"]) (auto simp: pc_ok_def)
next
  case (no_core t c)
  let ?p = "Unlocking (Err (uninitializedError (guard_state g)))"
  have c: "c = calls t" "\<not> su_used (guard_state g)" using guarded_pc [OF inv, of t] no_core by (simp_all add: pc_ok_def)
  have "linearized calls a s g ts \<Longrightarrow> linearized calls a s g' (ts @ [t])" for ts
    using no_core c by (elim linearized_decide [where p = ?p]) (simp_all add: claim_call_no_core)
  then show ?thesis using no_core guarded_lock [OF inv, of t]
    by (intro guarded_move [OF inv, of g' t ?p]) (auto simp: pc_ok_def)
next
  case (core t c)
  moreover have "linearized calls a s g ts \<Longrightarrow> linearized calls a s g' ts" for ts
    using core by (elim linearized_keep [where p = "Setting_Used c" and t = t]) auto
  ultimately show ?thesis using guarded_pc [OF inv, of t] guarded_lock [OF inv, of t]
    by (intro guarded_move [OF inv, of g' t "Setting_Used c"]) (auto simp: pc_ok_def)
next
  case (set_used t c)
  let ?p = "Unlocking (Ok (su_core (guard_state g)))"
  have c: "c = calls t" "\<not> su_used (guard_state g)" "su_core (guard_state g) \<noteq> None"
    using guarded_pc [OF inv, of t] set_used by (simp_all add: pc_ok_def)
  have "linearized calls a s g ts \<Longrightarrow> linearized calls a s g' (ts @ [t])" for ts
    using set_used c by (elim linearized_decide [where p = ?p]) (simp_all add: claim_call_won del: not_None_eq)
  then show ?thesis using set_used guarded_lock [OF inv, of t]
    by (intro guarded_move [OF inv, of g' t ?p]) (auto simp: pc_ok_def)
next
  case (unlock t res)
  moreover have "linearized calls a s g ts \<Longrightarrow> linearized calls a s g' ts" for ts
    using unlock by (elim linearized_keep [where p = "Returned res" and t = t]) auto
  ultimately show ?thesis using guarded_lock [OF inv, of t] guarded_others [OF inv, of t]
    by (intro guarded_move [OF inv, of g' t "Returned res"]) (auto simp: pc_ok_def)
qed

lemma guarded_reachable: "claim_step\<^sup>*\<^sup>* (claim_start calls (ustates s a)) g \<Longrightarrow> guarded calls a s g"
  by (induction rule: rtranclp_induct) (auto intro: guarded_start guarded_step)

text \<open>In any order, at most one claim wins: the first, and only on a guard that has a core and is not spent.\<close>

lemma claim_call_result:
  "claim_call c a s = (res, s') \<Longrightarrow> res = Ok (Some x) \<Longrightarrow> \<not> spent a s \<and> spent a s' \<and> su_core (ustates s a) = Some x"
  by (cases c) (auto simp: claim_call_def claimFinish_def claimClose_def spent_def Let_def split: if_splits)

lemma claims_spent:
  "spent a s \<Longrightarrow> (t, res) \<in> set (fst (claims_in_order calls a ts s)) \<Longrightarrow> res = claim_lost (calls t)"
  by (induction ts arbitrary: s) (auto simp: claim_call_spent spent_def Let_def split: prod.splits)

lemma claim_lost_not_won [simp]: "claim_lost c \<noteq> Ok (Some x)"
  by (cases c) (simp_all add: claim_lost_def)

lemma claims_winner:
  assumes "(t, Ok (Some x)) \<in> set (fst (claims_in_order calls a ts s))"
    and "(u, Ok (Some y)) \<in> set (fst (claims_in_order calls a ts s))" and "distinct ts"
  shows "t = u"
  using assms
proof (induction ts arbitrary: s)
  case (Cons v ts)
  obtain res s' results s'' where run: "claim_call (calls v) a s = (res, s')" "claims_in_order calls a ts s' = (results, s'')"
    by (metis surj_pair)
  show ?case
  proof (cases "\<exists>z. res = Ok (Some z)")
    case True
    then have "spent a s'" using claim_call_result [OF run(1)] by blast
    then have "(w, Ok (Some z)) \<notin> set results" for w z
      using claims_spent [of a s' w "Ok (Some z)" calls ts] run(2) claim_lost_not_won [of "calls w" z] by auto
    then show ?thesis using Cons.prems run by (auto simp: Let_def)
  next
    case False
    then show ?thesis using Cons run by (auto simp: Let_def) (metis fst_conv)+
  qed
qed simp

lemma guarded_progress:
  assumes inv: "guarded calls a s g" and waits: "\<forall>res. pcs g t \<noteq> Returned res"
  shows "\<exists>g'. claim_step g g'"
proof (cases "holder g")
  case None
  then have "\<not> inside_lock (pcs g t)" using guarded_lock [OF inv] by simp
  then obtain c where "pcs g t = Locking c" using waits by (cases "pcs g t") auto
  then show ?thesis using None claim_step.lock by blast
next
  case (Some u)
  then have "inside_lock (pcs g u)" using guarded_lock [OF inv] by simp
  then show ?thesis by (cases "pcs g u") (simp_all, (blast intro: claim_step.intros)+)
qed

section \<open>Properties\<close>

text \<open>C40. Concurrent claims on one guard: in every interleaving of the statements of \<open>claimFinish\<close> and \<open>claimClose\<close> by
  any goroutines, the results so far and the state of the guard are those of the claims done one after the other in
  some order; at most one claim gets the core, so that the secrets of a core are used and cleared by one
  goroutine only; and as long as a goroutine has not returned, some step is possible.\<close>

theorem concurrent_claims:
  assumes "claim_step\<^sup>*\<^sup>* (claim_start calls (ustates s a)) g"
  shows "(\<exists>ts. distinct ts \<and> set ts = {t. claim_result (pcs g t) \<noteq> None}
        \<and> (\<forall>(t, res) \<in> set (fst (claims_in_order calls a ts s)). claim_result (pcs g t) = Some res)
        \<and> ustates (snd (claims_in_order calls a ts s)) a = guard_state g)
    \<and> (\<forall>t u x y. claim_result (pcs g t) = Some (Ok (Some x)) \<and> claim_result (pcs g u) = Some (Ok (Some y)) \<longrightarrow> t = u)
    \<and> (\<forall>t. (\<exists>g'. claim_step g g') \<or> (\<exists>res. pcs g t = Returned res))"
proof (intro conjI allI impI)
  have inv: "guarded calls a s g" using guarded_reachable [OF assms] .
  then obtain ts where ts: "distinct ts" "set ts = {t. claim_result (pcs g t) \<noteq> None}"
      "\<forall>(t, res) \<in> set (fst (claims_in_order calls a ts s)). claim_result (pcs g t) = Some res"
      "ustates (snd (claims_in_order calls a ts s)) a = guard_state g"
    unfolding guarded_def linearized_def by (elim conjE exE) (rule that; blast)
  then show "\<exists>ts. distinct ts \<and> set ts = {t. claim_result (pcs g t) \<noteq> None}
      \<and> (\<forall>(t, res) \<in> set (fst (claims_in_order calls a ts s)). claim_result (pcs g t) = Some res)
      \<and> ustates (snd (claims_in_order calls a ts s)) a = guard_state g"
    by blast
  have in_order: "(t, res) \<in> set (fst (claims_in_order calls a ts s))" if "claim_result (pcs g t) = Some res" for t res
  proof -
    have "t \<in> set (map fst (fst (claims_in_order calls a ts s)))" using that ts(2) by (simp only: fst_claims) simp
    then obtain r where r: "(t, r) \<in> set (fst (claims_in_order calls a ts s))" by (auto simp del: fst_claims)
    then have "claim_result (pcs g t) = Some r" using ts(3) by (auto dest!: bspec)
    then show ?thesis using that r by simp
  qed
  show "t = u" if "claim_result (pcs g t) = Some (Ok (Some x)) \<and> claim_result (pcs g u) = Some (Ok (Some y))" for t u x y
    using that in_order claims_winner [OF _ _ ts(1)] by blast
  show "(\<exists>g'. claim_step g g') \<or> (\<exists>res. pcs g t = Returned res)" for t
    using guarded_progress [OF inv] by blast
qed

text \<open>A run of a Finish and a Close: the Finish gets the core, the Close finds the guard spent.\<close>

definition sample_guard_store :: "(7, 7, unit) store" where
  "sample_guard_store = snd (newSingleUseState (Some 3) ''initiator is not initialized'' (empty_store ()))"

definition sample_calls :: "nat \<Rightarrow> claim" where
  "sample_calls t = (if t = 0 then Claim_Finish else Claim_Close)"

lemma sample_run:
  "\<exists>g. claim_step\<^sup>*\<^sup>* (claim_start sample_calls (ustates sample_guard_store 0)) g
     \<and> pcs g 0 = Returned (Ok (Some 3)) \<and> pcs g 1 = Returned (Ok None)"
proof -
  let ?u = "\<lparr>su_used = False, su_core = Some 3, su_uninitialized = ''initiator is not initialized''\<rparr>"
  let ?g0 = "claim_start sample_calls ?u"
  let ?g1 = "goto 0 (Testing_Used Claim_Finish) (?g0\<lparr>holder := Some 0\<rparr>)"
  let ?g2 = "goto 0 (Testing_Core Claim_Finish) ?g1"
  let ?g3 = "goto 0 (Setting_Used Claim_Finish) ?g2"
  let ?g4 = "goto 0 (Unlocking (Ok (Some 3))) (?g3\<lparr>guard_state := ?u\<lparr>su_used := True\<rparr>\<rparr>)"
  let ?g5 = "goto 0 (Returned (Ok (Some 3))) (?g4\<lparr>holder := None\<rparr>)"
  let ?g6 = "goto 1 (Testing_Used Claim_Close) (?g5\<lparr>holder := Some 1\<rparr>)"
  let ?g7 = "goto 1 (Unlocking (Ok None)) ?g6"
  let ?g8 = "goto 1 (Returned (Ok None)) (?g7\<lparr>holder := None\<rparr>)"
  have "ustates sample_guard_store 0 = ?u" by (simp add: sample_guard_store_def newSingleUseState_def)
  moreover have "claim_step ?g0 ?g1" "claim_step ?g1 ?g2" "claim_step ?g2 ?g3" "claim_step ?g4 ?g5" "claim_step ?g5 ?g6" "claim_step ?g7 ?g8"
    by (rule claim_step.intros; simp add: claim_start_def sample_calls_def)+
  moreover have "claim_step ?g3 ?g4" using claim_step.set_used [of ?g3 0 Claim_Finish] by (simp add: claim_start_def)
  moreover have "claim_step ?g6 ?g7" using claim_step.used [of ?g6 1 Claim_Close] by (simp add: claim_lost_def)
  ultimately have "claim_step\<^sup>*\<^sup>* (claim_start sample_calls (ustates sample_guard_store 0)) ?g8"
    by (auto intro: rtranclp.rtrancl_into_rtrancl)
  then show ?thesis by (intro exI [of _ ?g8]) simp
qed

lemma concurrent_claims_witness:
  "\<exists>g. claim_step\<^sup>*\<^sup>* (claim_start sample_calls (ustates sample_guard_store 0)) g
     \<and> pcs g 0 = Returned (Ok (Some 3)) \<and> pcs g 1 = Returned (Ok None)
     \<and> (\<exists>ts. distinct ts \<and> set ts = {t. claim_result (pcs g t) \<noteq> None}
          \<and> (\<forall>(t, res) \<in> set (fst (claims_in_order sample_calls 0 ts sample_guard_store)). claim_result (pcs g t) = Some res)
          \<and> ustates (snd (claims_in_order sample_calls 0 ts sample_guard_store)) 0 = guard_state g)
     \<and> (\<forall>u y. claim_result (pcs g u) = Some (Ok (Some y)) \<longrightarrow> u = 0)
     \<and> (\<forall>t. (\<exists>g'. claim_step g g') \<or> (\<exists>res. pcs g t = Returned res))"
proof -
  obtain g where g: "claim_step\<^sup>*\<^sup>* (claim_start sample_calls (ustates sample_guard_store 0)) g"
      "pcs g 0 = Returned (Ok (Some 3))" "pcs g 1 = Returned (Ok None)"
    using sample_run by blast
  note claims = concurrent_claims [OF g(1)]
  have "claim_result (pcs g 0) = Some (Ok (Some 3))" by (simp add: g(2))
  then have "\<forall>u y. claim_result (pcs g u) = Some (Ok (Some y)) \<longrightarrow> u = 0"
    using claims by blast
  then show ?thesis
    using g by (intro exI [of _ g] conjI claims [THEN conjunct1] claims [THEN conjunct2, THEN conjunct2])
qed

end
