(* ===== verification/Go_Strings.thy ===== *)
theory Go_Strings
  imports Prelude "HOL-Library.Char_ord" "HOL-Library.List_Lexorder" "HOL-Library.Sublist" "HOL-Library.Multiset"
begin

text \<open>
  The part of Go's \<open>strings\<close>, \<open>fmt\<close>, \<open>sort\<close> and \<open>bufio\<close> packages that the two release tools use, on
  strings as lists of bytes (characters), ordered byte by byte as Go orders them. White space and
  letter case are those of ASCII: the model is about files in ASCII, as the repository's are.
\<close>

section \<open>Package strings\<close>

abbreviation HasPrefix :: "string \<Rightarrow> string \<Rightarrow> bool" where
  "HasPrefix s p \<equiv> prefix p s"

abbreviation HasSuffix :: "string \<Rightarrow> string \<Rightarrow> bool" where
  "HasSuffix s p \<equiv> suffix p s"

fun Contains :: "string \<Rightarrow> string \<Rightarrow> bool" where
  "Contains [] p = (p = [])"
| "Contains (x # s) p = (if HasPrefix (x # s) p then True else Contains s p)"

definition TrimPrefix :: "string \<Rightarrow> string \<Rightarrow> string" where
  "TrimPrefix s p = (if HasPrefix s p then drop (length p) s else s)"

definition TrimSuffix :: "string \<Rightarrow> string \<Rightarrow> string" where
  "TrimSuffix s p = (if HasSuffix s p then take (length s - length p) s else s)"

definition is_space :: "char \<Rightarrow> bool" where
  "is_space c \<longleftrightarrow> c \<in> {CHR '' '', CHR 0x09, CHR 0x0A, CHR 0x0B, CHR 0x0C, CHR 0x0D}"

definition trim_right :: "(char \<Rightarrow> bool) \<Rightarrow> string \<Rightarrow> string" where
  "trim_right P s = rev (dropWhile P (rev s))"

definition TrimSpace :: "string \<Rightarrow> string" where
  "TrimSpace s = trim_right is_space (dropWhile is_space s)"

text \<open>\<open>strings.Split(s, sep)\<close> for a separator of one byte.\<close>

fun Split :: "string \<Rightarrow> char \<Rightarrow> string list" where
  "Split [] c = [[]]"
| "Split (x # s) c =
     (if x = c then [] # Split s c
      else (case Split s c of [] \<Rightarrow> [[x]] | p # ps \<Rightarrow> (x # p) # ps))"

fun Join :: "string list \<Rightarrow> string \<Rightarrow> string" where
  "Join [] sep = []"
| "Join [s] sep = s"
| "Join (s # t # ss) sep = s @ sep @ Join (t # ss) sep"

text \<open>\<open>strings.Cut(s, sep)\<close> for a separator of one byte: before, after, found.\<close>

definition Cut :: "string \<Rightarrow> char \<Rightarrow> string \<times> string \<times> bool" where
  "Cut s c =
     (let front = takeWhile (\<lambda>x. x \<noteq> c) s
      in if length front < length s then (front, drop (Suc (length front)) s, True) else (s, [], False))"

text \<open>\<open>strings.Fields\<close>: the maximal runs of other bytes between runs of white space.\<close>

definition Fields :: "string \<Rightarrow> string list" where
  "Fields s = filter (\<lambda>f. f \<noteq> []) (Split (map (\<lambda>c. if is_space c then CHR '' '' else c) s) CHR '' '')"

definition ContainsAny :: "string \<Rightarrow> string \<Rightarrow> bool" where
  "ContainsAny s cs = list_ex (\<lambda>c. c \<in> set cs) s"

text \<open>\<open>strings.ReplaceAll(s, "\<dots>", "\<dots>")\<close> of CR LF by LF.\<close>

fun unix_lines :: "string \<Rightarrow> string" where
  "unix_lines (a # b # s) =
     (if a = CHR 0x0D \<and> b = CHR 0x0A then CHR 0x0A # unix_lines s else a # unix_lines (b # s))"
| "unix_lines s = s"

definition lower :: "char \<Rightarrow> char" where
  "lower c = (let n = (of_char c :: nat) in if 65 \<le> n \<and> n \<le> 90 then char_of (n + 32) else c)"

definition EqualFold :: "string \<Rightarrow> string \<Rightarrow> bool" where
  "EqualFold s t \<longleftrightarrow> map lower s = map lower t"

section \<open>Package fmt\<close>

fun itoa :: "nat \<Rightarrow> string" where
  "itoa n = (if n < 10 then [char_of (48 + n)] else itoa (n div 10) @ [char_of (48 + n mod 10)])"

declare itoa.simps [simp del]

definition hex_digit :: "nat \<Rightarrow> char" where
  "hex_digit n = (if n < 10 then char_of (48 + n) else char_of (87 + n))"

text \<open>The verb \<open>%q\<close> of a string and of a slice of strings.\<close>

definition quote_char :: "char \<Rightarrow> string" where
  "quote_char c =
     (let n = (of_char c :: nat)
      in if c = CHR 0x22 \<or> c = CHR 0x5C then [CHR 0x5C, c]
         else if 32 \<le> n \<and> n < 127 then [c]
         else if n = 7 then [CHR 0x5C, CHR ''a'']
         else if n = 8 then [CHR 0x5C, CHR ''b'']
         else if n = 9 then [CHR 0x5C, CHR ''t'']
         else if n = 10 then [CHR 0x5C, CHR ''n'']
         else if n = 11 then [CHR 0x5C, CHR ''v'']
         else if n = 12 then [CHR 0x5C, CHR ''f'']
         else if n = 13 then [CHR 0x5C, CHR ''r'']
         else [CHR 0x5C, CHR ''x'', hex_digit (n div 16), hex_digit (n mod 16)])"

definition quote :: "string \<Rightarrow> string" where
  "quote s = CHR 0x22 # concat (map quote_char s) @ [CHR 0x22]"

definition quotes :: "string list \<Rightarrow> string" where
  "quotes ss = ''['' @ Join (map quote ss) '' '' @ '']''"

section \<open>Package bufio: lines\<close>

text \<open>
  \<open>bufio.Scanner\<close> with the default split function: the lines without their line ends, and an error
  at the first line that does not fit the buffer of 64 KiB together with its end.
\<close>

definition maxScanTokenSize :: nat where "maxScanTokenSize = 65536"

definition drop_cr :: "string \<Rightarrow> string" where
  "drop_cr s = TrimSuffix s [CHR 0x0D]"

definition raw_lines :: "string \<Rightarrow> string list" where
  "raw_lines s = (let ls = Split s CHR 0x0A in if last ls = [] then butlast ls else ls)"

definition scan_lines :: "string \<Rightarrow> string list \<times> string option" where
  "scan_lines s =
     (let ls = takeWhile (\<lambda>l. length l < maxScanTokenSize) (raw_lines s)
      in (map drop_cr ls, if ls = raw_lines s then None else Some ''bufio.Scanner: token too long''))"

section \<open>Laws\<close>

lemma Contains_sublist: "Contains s p \<longleftrightarrow> sublist p s"
  by (induction s) (simp_all add: sublist_Cons_right)

lemma Split_nonempty [simp]: "Split s c \<noteq> []"
  by (cases s) (auto split: list.split)

lemma Join_Cons: "ss \<noteq> [] \<Longrightarrow> Join (s # ss) sep = s @ sep @ Join ss sep"
  by (cases ss) simp_all

lemma Join_Split: "Join (Split s c) [c] = s"
proof (induction s)
  case (Cons x s)
  then show ?case by (cases "Split s c") (auto simp: Join_Cons, cases "tl (Split s c)", auto)
qed simp

lemma Split_free: "p \<in> set (Split s c) \<Longrightarrow> c \<notin> set p"
proof (induction s arbitrary: p)
  case (Cons x s)
  then show ?case by (cases "Split s c") (auto split: if_splits)
qed simp

lemma Split_single: "c \<notin> set s \<Longrightarrow> Split s c = [s]"
  by (induction s) auto

lemma Split_append: "c \<notin> set s \<Longrightarrow> Split (s @ c # t) c = s # Split t c"
  by (induction s) auto

lemma Split_Join: "ss \<noteq> [] \<Longrightarrow> \<forall>s \<in> set ss. c \<notin> set s \<Longrightarrow> Split (Join ss [c]) c = ss"
proof (induction ss rule: induct_list012)
  case (2 s)
  then show ?case by (simp add: Split_single)
next
  case (3 s t ss)
  then show ?case by (simp add: Split_append)
qed simp

lemma Cut_found: "Cut s c = (a, b, True) \<longleftrightarrow> s = a @ c # b \<and> c \<notin> set a"
proof
  let ?b = "takeWhile (\<lambda>x. x \<noteq> c) s"
  assume "Cut s c = (a, b, True)"
  then have ab: "a = ?b" "b = drop (Suc (length ?b)) s" and len: "length ?b < length s"
    by (auto simp: Cut_def Let_def split: if_splits)
  have "s ! length ?b = c" using nth_length_takeWhile [of "\<lambda>x. x \<noteq> c" s] len by simp
  then have "drop (length ?b) s = c # b" using len by (simp add: ab Cons_nth_drop_Suc [symmetric])
  moreover have "s = ?b @ drop (length ?b) s" by (simp add: dropWhile_eq_drop [symmetric])
  ultimately show "s = a @ c # b \<and> c \<notin> set a" by (auto simp: ab dest: set_takeWhileD)
next
  assume s: "s = a @ c # b \<and> c \<notin> set a"
  have "c \<notin> set a \<Longrightarrow> takeWhile (\<lambda>x. x \<noteq> c) (a @ c # b) = a" by (induction a) auto
  then have "takeWhile (\<lambda>x. x \<noteq> c) s = a" using s by simp
  then show "Cut s c = (a, b, True)" using s by (simp add: Cut_def)
qed

lemma Split_lines:
  "\<forall>l \<in> set ls. c \<notin> set l \<Longrightarrow> Split (concat (map (\<lambda>l. l @ [c]) ls)) c = ls @ [[]]"
  by (induction ls) (simp_all add: Split_append)

lemma raw_lines_lines:
  "\<forall>l \<in> set ls. CHR 0x0A \<notin> set l \<Longrightarrow> raw_lines (concat (map (\<lambda>l. l @ [CHR 0x0A]) ls)) = ls"
  by (simp add: raw_lines_def Split_lines)

lemma raw_lines_free: "l \<in> set (raw_lines s) \<Longrightarrow> CHR 0x0A \<notin> set l"
  by (auto simp: raw_lines_def Let_def split: if_splits dest!: in_set_butlastD dest: Split_free)

text \<open>A line that the scanner gives back as it was written.\<close>

definition text_line :: "string \<Rightarrow> bool" where
  "text_line l \<longleftrightarrow> CHR 0x0A \<notin> set l \<and> \<not> suffix [CHR 0x0D] l \<and> length l < maxScanTokenSize"

lemma suffix_singleton: "suffix [c] s \<longleftrightarrow> s \<noteq> [] \<and> last s = c"
  by (cases s rule: rev_cases) (auto simp: suffix_def)

lemma scan_lines_lines:
  assumes "list_all text_line ls"
  shows "scan_lines (concat (map (\<lambda>l. l @ [CHR 0x0A]) ls)) = (ls, None)"
proof -
  have "raw_lines (concat (map (\<lambda>l. l @ [CHR 0x0A]) ls)) = ls"
    using assms by (intro raw_lines_lines) (auto simp: text_line_def list_all_iff)
  moreover have "takeWhile (\<lambda>l. length l < maxScanTokenSize) ls = ls"
    using assms by (auto simp: takeWhile_eq_all_conv text_line_def list_all_iff)
  moreover have "map drop_cr ls = ls"
    using assms by (intro map_idI) (simp add: drop_cr_def TrimSuffix_def text_line_def list_all_iff)
  ultimately show ?thesis by (simp only: scan_lines_def Let_def) simp
qed

text \<open>Cutting gives parts of the string.\<close>

lemma sublist_TrimSpace: "sublist (TrimSpace s) s"
proof -
  have "sublist (trim_right P t) t" for P and t :: string
    unfolding trim_right_def by (metis dropWhile_eq_drop rev_drop rev_rev_ident sublist_take length_rev)
  moreover have "sublist (dropWhile P s) s" for P by (simp add: dropWhile_eq_drop)
  ultimately show ?thesis unfolding TrimSpace_def by (metis sublist_order.order_trans)
qed

lemma sublist_TrimPrefix: "sublist (TrimPrefix s p) s"
  by (simp add: TrimPrefix_def)

lemma sublist_TrimSuffix: "sublist (TrimSuffix s p) s"
  by (simp add: TrimSuffix_def)

lemma sublist_Split: "p \<in> set (Split s c) \<Longrightarrow> sublist p s"
proof (induction s arbitrary: p rule: list.induct)
  case (Cons x s)
  obtain q qs where q: "Split s c = q # qs" by (cases "Split s c") auto
  have "prefix q s"
    using Join_Split [of s c] q by (cases qs) (auto simp: Join_Cons prefix_def)
  then show ?case using Cons q by (auto simp: sublist_Cons_right split: if_splits)
qed simp

lemma sublist_set: "sublist xs ys \<Longrightarrow> set xs \<subseteq> set ys"
  by (rule set_mono_sublist)

text \<open>What \<open>TrimSpace\<close> leaves alone.\<close>

lemma TrimSpace_id:
  assumes "s \<noteq> []" and "\<not> is_space (hd s)" and "\<not> is_space (last s)"
  shows "TrimSpace s = s"
proof -
  have "dropWhile is_space s = s" using assms by (cases s) auto
  moreover have "dropWhile is_space (rev s) = rev s" using assms by (cases "rev s") (auto simp: hd_rev dest: arg_cong [where f = rev])
  ultimately show ?thesis by (simp add: TrimSpace_def trim_right_def)
qed

lemma TrimSpace_ends:
  assumes "TrimSpace s \<noteq> []"
  shows "\<not> is_space (hd (TrimSpace s))" and "\<not> is_space (last (TrimSpace s))"
proof -
  let ?t = "dropWhile is_space s"
  have right: "trim_right is_space t \<noteq> [] \<Longrightarrow> \<not> is_space (last (trim_right is_space t))" for t
    unfolding trim_right_def by (simp add: last_rev hd_dropWhile)
  then show "\<not> is_space (last (TrimSpace s))" using assms by (simp add: TrimSpace_def)
  have "prefix (trim_right is_space ?t) ?t"
    unfolding trim_right_def by (metis dropWhile_eq_drop rev_drop rev_rev_ident take_is_prefix length_rev)
  then obtain zs where "?t = TrimSpace s @ zs" by (auto simp: TrimSpace_def prefix_def)
  then have "hd (TrimSpace s) = hd ?t" using assms by (cases "TrimSpace s") simp_all
  moreover have "?t \<noteq> []" using assms by (cases "?t = []") (simp_all add: TrimSpace_def trim_right_def del: dropWhile_eq_Nil_conv)
  ultimately show "\<not> is_space (hd (TrimSpace s))" using hd_dropWhile [of is_space s] by simp
qed

lemma TrimSpace_idem [simp]: "TrimSpace (TrimSpace s) = TrimSpace s"
proof (cases "TrimSpace s = []")
  case True
  then show ?thesis by (simp only: True) (simp add: TrimSpace_def trim_right_def)
qed (use TrimSpace_ends [of s] TrimSpace_id [of "TrimSpace s"] in simp)

end
