(* ===== verification/Findings.thy ===== *)
theory Findings
  imports Go_Strings
begin

text \<open>
  The findings that both release tools collect, \<open>finding\<close> and \<open>sortFindings\<close> of their main.go files.
  \<open>sort.Slice\<close> with the closure \<open>sortFindings_less\<close> is an insertion sort by that closure; the closure
  is the strict part of a linear order, so that the result is the library's sort, the only sorted
  arrangement of the findings, whichever algorithm \<open>sort.Slice\<close> runs.
\<close>

datatype finding = Finding (f_path: string) (f_msg: string)

definition sortFindings_less :: "finding \<Rightarrow> finding \<Rightarrow> bool" where
  "sortFindings_less x y \<longleftrightarrow> (if f_path x = f_path y then f_msg x < f_msg y else f_path x < f_path y)"

primrec sortSlice_insert :: "('a \<Rightarrow> 'a \<Rightarrow> bool) \<Rightarrow> 'a \<Rightarrow> 'a list \<Rightarrow> 'a list" where
  "sortSlice_insert lt x [] = [x]"
| "sortSlice_insert lt x (y # ys) = (if lt y x then y # sortSlice_insert lt x ys else x # y # ys)"

definition sortSlice :: "('a \<Rightarrow> 'a \<Rightarrow> bool) \<Rightarrow> 'a list \<Rightarrow> 'a list" where
  "sortSlice lt xs = foldr (sortSlice_insert lt) xs []"

definition sortFindings :: "finding list \<Rightarrow> finding list" where
  "sortFindings fs = sortSlice sortFindings_less fs"

instantiation finding :: linorder
begin

definition less_finding :: "finding \<Rightarrow> finding \<Rightarrow> bool" where
  "less_finding x y \<longleftrightarrow> sortFindings_less x y"

definition less_eq_finding :: "finding \<Rightarrow> finding \<Rightarrow> bool" where
  "less_eq_finding x y \<longleftrightarrow> x = y \<or> x < y"

instance
proof
  fix x y z :: finding
  note defs = less_finding_def less_eq_finding_def sortFindings_less_def
  show "x < y \<longleftrightarrow> x \<le> y \<and> \<not> y \<le> x"
    by (cases x; cases y) (auto simp: defs split: if_splits)
  show "x \<le> x" by (simp add: defs)
  show "x \<le> y \<Longrightarrow> y \<le> z \<Longrightarrow> x \<le> z"
    by (cases x; cases y; cases z) (auto simp: defs split: if_splits)
  show "x \<le> y \<Longrightarrow> y \<le> x \<Longrightarrow> x = y"
    by (cases x; cases y) (auto simp: defs split: if_splits)
  show "x \<le> y \<or> y \<le> x"
    by (cases x; cases y) (auto simp: defs split: if_splits)
qed

end

lemma sortSlice_insert_insort: "sortSlice_insert (<) x ys = insort x ys"
  by (induction ys) auto

lemma sortSlice_sort: "sortSlice (<) xs = sort xs"
  by (induction xs) (simp_all add: sortSlice_def sortSlice_insert_insort)

lemma sortFindings_sort: "sortFindings fs = sort fs"
proof -
  have "sortFindings_less = (<)" by (intro ext) (simp add: less_finding_def)
  then show ?thesis by (simp add: sortFindings_def sortSlice_sort)
qed

lemma mset_sortFindings [simp]: "mset (sortFindings fs) = mset fs"
  by (simp add: sortFindings_sort)

text \<open>The order of the collection does not show: the tools may range over Go maps.\<close>

lemma sortFindings_cong: "mset fs = mset gs \<Longrightarrow> sortFindings fs = sortFindings gs"
  unfolding sortFindings_sort by (rule properties_for_sort) simp_all

lemma sortFindings_unique: "mset out = mset fs \<Longrightarrow> sorted out \<Longrightarrow> out = sortFindings fs"
  unfolding sortFindings_sort by (rule properties_for_sort [symmetric]) simp_all

lemma sortFindings_Nil [simp]: "sortFindings fs = [] \<longleftrightarrow> fs = []"
  using mset_sortFindings [of fs] by (metis mset_zero_iff)

section \<open>Runs of a tool\<close>

text \<open>What a run of a tool shows: its exit status and what it prints.\<close>

record outcome =
  exit_status :: int
  stdout :: string
  stderr :: string

definition newline :: string where "newline = [CHR 0x0A]"

definition finding_line :: "finding \<Rightarrow> string" where
  "finding_line f = f_path f @ '': '' @ f_msg f @ newline"

lemma finding_line_not_Nil [simp]: "finding_line f \<noteq> []"
  by (simp add: finding_line_def)

end
