(* ===== verification/Yaml.thy ===== *)
theory Yaml
  imports Findings
begin

text \<open>
  The nodes of gopkg.in/yaml.v3 as the release policy tool reads them, and the accessors at the end of
  tools/releasepolicy/main.go. The parser is third-party code and a parameter elsewhere; here is
  only the exported tree type. A \<open>*yaml.Node\<close> is an option of it.
\<close>

datatype node_kind = DocumentNode | SequenceNode | MappingNode | ScalarNode | AliasNode

datatype node = Node (n_kind: node_kind) (n_tag: string) (n_value: string) (n_content: "node list")

text \<open>The loop \<open>for i := 0; i+1 < len(n.Content); i += 2\<close> over the content of a mapping.\<close>

fun entries :: "'a list \<Rightarrow> ('a \<times> 'a) list" where
  "entries (k # v # c) = (k, v) # entries c"
| "entries c = []"

definition mapping :: "node option \<Rightarrow> string \<Rightarrow> node option" where
  "mapping n key =
     (case n of
        None \<Rightarrow> None
      | Some n \<Rightarrow>
          if n_kind n \<noteq> MappingNode then None
          else map_option snd (List.find (\<lambda>(k, v). n_value k = key) (entries (n_content n))))"

definition scalarValue :: "node option \<Rightarrow> string \<times> bool" where
  "scalarValue n =
     (case n of
        None \<Rightarrow> ([], False)
      | Some n \<Rightarrow> if n_kind n \<noteq> ScalarNode then ([], False) else (n_value n, True))"

definition scalar :: "node option \<Rightarrow> string" where
  "scalar n = fst (scalarValue n)"

definition seqStrings :: "node option \<Rightarrow> string list" where
  "seqStrings n =
     (case n of
        None \<Rightarrow> []
      | Some n \<Rightarrow> if n_kind n \<noteq> SequenceNode then [] else map (\<lambda>item. scalar (Some item)) (n_content n))"

definition mapKeys :: "node option \<Rightarrow> string list" where
  "mapKeys n =
     (case n of
        None \<Rightarrow> []
      | Some n \<Rightarrow> if n_kind n \<noteq> MappingNode then [] else sort (map (\<lambda>(k, v). n_value k) (entries (n_content n))))"

definition steps :: "node option \<Rightarrow> node list" where
  "steps job =
     (case mapping job ''steps'' of
        None \<Rightarrow> []
      | Some n \<Rightarrow> if n_kind n \<noteq> SequenceNode then [] else n_content n)"

definition needs :: "node option \<Rightarrow> string list" where
  "needs job =
     (case mapping job ''needs'' of
        None \<Rightarrow> []
      | Some n \<Rightarrow>
          if n_kind n = ScalarNode then [n_value n]
          else if n_kind n = SequenceNode then seqStrings (Some n)
          else [])"

definition yamlPath :: "string \<Rightarrow> string \<Rightarrow> string" where
  "yamlPath parent child = (if parent = [] \<or> parent = ''$'' then child else parent @ ''.'' @ child)"

definition contains :: "string list \<Rightarrow> string \<Rightarrow> bool" where
  "contains items want \<longleftrightarrow> want \<in> set items"

definition sameStringSet :: "string list \<Rightarrow> string list \<Rightarrow> bool" where
  "sameStringSet got want \<longleftrightarrow>
     (if length got \<noteq> length want then False
      else if list_ex (\<lambda>item. \<not> contains want item) got then False
      else list_all (\<lambda>item. contains got item) want)"

section \<open>Laws\<close>

lemma sameStringSet_iff: "sameStringSet got want \<longleftrightarrow> length got = length want \<and> set got = set want"
  by (auto simp: sameStringSet_def contains_def list_ex_iff list_all_iff)

lemma sameStringSet_distinct:
  assumes "sameStringSet got want" and "distinct want"
  shows "mset got = mset want"
proof -
  have "card (set got) = length got" using assms distinct_card [OF assms(2)] by (simp add: sameStringSet_iff)
  then have "distinct got" by (rule card_distinct)
  then show ?thesis using assms by (simp add: sameStringSet_iff set_eq_iff_mset_eq_distinct)
qed

lemma mapping_None [simp]: "mapping None key = None"
  by (simp add: mapping_def)

lemma mapKeys_iff:
  "key \<in> set (mapKeys (Some n)) \<longleftrightarrow> n_kind n = MappingNode \<and> (\<exists>(k, v) \<in> set (entries (n_content n)). n_value k = key)"
  by (force simp: mapKeys_def)

lemma mapping_in_keys: "mapping n key \<noteq> None \<longleftrightarrow> key \<in> set (mapKeys n)"
proof (cases n)
  case None
  then show ?thesis by (simp add: mapKeys_def)
next
  case (Some m)
  have "List.find (\<lambda>(k, v). n_value k = key) es \<noteq> None \<longleftrightarrow> (\<exists>(k, v) \<in> set es. n_value k = key)" for es :: "(node \<times> node) list"
    by (induction es) auto
  moreover have "mapping n key \<noteq> None \<longleftrightarrow> n_kind m = MappingNode
      \<and> List.find (\<lambda>(k, v). n_value k = key) (entries (n_content m)) \<noteq> None"
    by (auto simp: Some mapping_def)
  ultimately show ?thesis by (simp only: Some mapKeys_iff)
qed

lemma scalarValue_iff: "scalarValue n = (v, True) \<longleftrightarrow> (\<exists>m. n = Some m \<and> n_kind m = ScalarNode \<and> n_value m = v)"
  by (auto simp: scalarValue_def split: option.splits if_splits)

end
