(* ===== verification/Release_Policy.thy ===== *)
theory Release_Policy
  imports Yaml
begin

text \<open>
  policy.go and the command constants of gosec_policy.go, in tools/releasepolicy: the policy types, the
  accepted release workflow as data, and the lookups on it. A field that Go leaves out is the zero value;
  a slice or map that the checker compares with \<open>nil\<close> is an option. A \<open>map[string]string\<close> is the list of
  its entries; the checker only looks keys up and ranges over them.
\<close>

section \<open>Types\<close>

type_synonym smap = "(string \<times> string) list"

record releaseStepPolicy =
  sp_name :: string
  sp_usesPrefix :: string
  sp_runLines :: "string list option"
  sp_with :: "smap option"
  sp_env :: "smap option"
  sp_id :: string
  sp_ifCond :: string
  sp_shell :: string
  sp_continueOnError :: string

record releaseJobPolicy =
  jp_concept :: string
  jp_name :: string
  jp_displayName :: string
  jp_runsOn :: string
  jp_timeoutMinutes :: string
  jp_ifCond :: string
  jp_needs :: "string list option"
  jp_permissions :: "smap option"
  jp_outputs :: "smap option"
  jp_steps :: "releaseStepPolicy list"

record releaseConfigPolicy =
  cp_path :: string
  cp_sourceName :: string
  cp_excludes :: "string list"

record releasePolicy =
  rp_workflowName :: string
  rp_rootKeys :: "string list"
  rp_env :: smap
  rp_concurrency :: smap
  rp_triggerKeys :: "string list"
  rp_pushKeys :: "string list"
  rp_pushTags :: "string list"
  rp_topPermission :: smap
  rp_jobs :: "releaseJobPolicy list"
  rp_requiredScripts :: "string list"
  rp_requiredFiles :: "string list"
  rp_requiredConfigs :: "releaseConfigPolicy list"
  rp_expectedSigners :: string

definition emptyStep :: releaseStepPolicy where
  "emptyStep = \<lparr>sp_name = [], sp_usesPrefix = [], sp_runLines = None, sp_with = None, sp_env = None, sp_id = [],
     sp_ifCond = [], sp_shell = [], sp_continueOnError = []\<rparr>"

section \<open>Constants\<close>

definition shaRef_match :: "string \<Rightarrow> bool" where
  "shaRef_match s \<longleftrightarrow> length s = 40 \<and> list_all (\<lambda>c. c \<in> set ''0123456789abcdef'') s"

definition tagGuard :: string where
  \<open>tagGuard = ''github.ref_type == 'tag' && startsWith(github.ref, 'refs/tags/v')''\<close>

definition unsupportedRefGuard :: string where
  \<open>unsupportedRefGuard = ''github.event_name == 'workflow_dispatch' && !('' @ tagGuard @ '')''\<close>

definition publishGuard :: string where
  \<open>publishGuard = ''github.event_name == 'push' && startsWith(github.ref, 'refs/tags/v')''\<close>

definition conceptUnsupportedDispatchRef :: string where "conceptUnsupportedDispatchRef = ''unsupported dispatch ref''"
definition conceptSignedTagGate :: string where "conceptSignedTagGate = ''signed tag gate''"
definition conceptGoTestGate :: string where "conceptGoTestGate = ''go test gate''"
definition conceptRaceTestGate :: string where "conceptRaceTestGate = ''race test gate''"
definition conceptVulnerabilityGate :: string where "conceptVulnerabilityGate = ''vulnerability gate''"
definition conceptSASTGate :: string where "conceptSASTGate = ''sast gate''"
definition conceptSBOMArtifact :: string where "conceptSBOMArtifact = ''sbom artifact''"
definition conceptSBOMAttestation :: string where "conceptSBOMAttestation = ''sbom attestation''"
definition conceptReleasePublication :: string where "conceptReleasePublication = ''release publication''"

lemmas concept_defs = conceptUnsupportedDispatchRef_def conceptSignedTagGate_def conceptGoTestGate_def
  conceptRaceTestGate_def conceptVulnerabilityGate_def conceptSASTGate_def conceptSBOMArtifact_def
  conceptSBOMAttestation_def conceptReleasePublication_def

definition acceptedGosecWorkflowCommand :: string where
  \<open>acceptedGosecWorkflowCommand = ''task gosec GOSEC='gosec -fmt sarif -out gosec.sarif'' @ [CHR 0x27]\<close>

definition acceptedSASTWorkflowCommand :: string where
  \<open>acceptedSASTWorkflowCommand = ''task lint:golangci GOLANGCI_LINT=golangci-lint '' @
     ''GOLANGCI_ARGS='--output.text.path stdout --output.sarif.path golangci.sarif'' @ [CHR 0x27]\<close>

definition acceptedTaskInstallCommand :: string where
  \<open>acceptedTaskInstallCommand = ''scripts/go-tool.sh install task''\<close>

section \<open>The accepted release workflow\<close>

definition checkoutStep :: "smap option \<Rightarrow> releaseStepPolicy" where
  \<open>checkoutStep with = emptyStep\<lparr>sp_usesPrefix := ''actions/checkout@'',
     sp_with := Some (case with of None \<Rightarrow> [(''persist-credentials'', ''false'')] | Some w \<Rightarrow> w)\<rparr>\<close>

definition setupGoStep :: releaseStepPolicy where
  \<open>setupGoStep = emptyStep\<lparr>sp_name := ''Set up Go'', sp_usesPrefix := ''actions/setup-go@'',
     sp_with := Some [(''go-version-file'', ''go.mod''), (''cache'', ''true'')]\<rparr>\<close>

definition reportGoEnvironmentStep :: releaseStepPolicy where
  \<open>reportGoEnvironmentStep = emptyStep\<lparr>sp_name := ''Report Go environment'',
     sp_runLines := Some [''go version'', ''go env GOTOOLCHAIN GOPROXY GOSUMDB'']\<rparr>\<close>

definition unsupported_ref_job :: releaseJobPolicy where
  \<open>unsupported_ref_job = \<lparr>jp_concept = conceptUnsupportedDispatchRef, jp_name = ''unsupported-ref'', jp_displayName = ''Unsupported Dispatch Ref'',
     jp_runsOn = ''ubuntu-latest'', jp_timeoutMinutes = ''2'', jp_ifCond = unsupportedRefGuard,
     jp_needs = None, jp_permissions = None,
     jp_outputs = None,
     jp_steps =
      [emptyStep\<lparr>sp_name := ''Explain unsupported ref'',
        sp_runLines := Some [''echo "Release Validation workflow_dispatch runs must target a signed v* tag ref."'',
         ''echo "Use the regular CI workflows for branch validation."'',
         ''exit 1'']\<rparr>]\<rparr>\<close>

definition verify_tag_job :: releaseJobPolicy where
  \<open>verify_tag_job = \<lparr>jp_concept = conceptSignedTagGate, jp_name = ''verify-tag'', jp_displayName = ''Verify Signed Tag'',
     jp_runsOn = ''ubuntu-latest'', jp_timeoutMinutes = ''5'', jp_ifCond = tagGuard,
     jp_needs = None, jp_permissions = None,
     jp_outputs = (Some [(''release-tag'', ''${{ steps.release-tag.outputs.release-tag }}''),
         (''sbom-file'', ''${{ steps.release-tag.outputs.sbom-file }}''),
         (''prerelease'', ''${{ steps.release-tag.outputs.prerelease }}''),
         (''latest'', ''${{ steps.release-tag.outputs.latest }}'')]),
     jp_steps =
      [checkoutStep (Some [(''fetch-depth'', ''0''),
         (''persist-credentials'', ''false'')]),
      emptyStep\<lparr>sp_name := ''Verify tag object and signature'',
        sp_runLines := Some [''git fetch --force origin "refs/tags/$GITHUB_REF_NAME:refs/tags/$GITHUB_REF_NAME"'',
         ''tag_type="$(git cat-file -t "$GITHUB_REF_NAME")"'',
         (''printf '%s'' @ [CHR 0x5C] @ ''n' "$tag_type"''),
         ''test "$tag_type" = tag'',
         ''git config gpg.ssh.allowedSignersFile .github/allowed_signers'',
         ''git verify-tag "$GITHUB_REF_NAME"'']\<rparr>,
      emptyStep\<lparr>sp_name := ''Validate release tag metadata'',
        sp_runLines := Some [''scripts/release-tag-metadata.sh "$GITHUB_REF_NAME" >> "$GITHUB_OUTPUT"''],
        sp_id := ''release-tag''\<rparr>]\<rparr>\<close>

definition check_job :: releaseJobPolicy where
  \<open>check_job = \<lparr>jp_concept = conceptGoTestGate, jp_name = ''check'', jp_displayName = ''Check'',
     jp_runsOn = ''ubuntu-latest'', jp_timeoutMinutes = ''5'', jp_ifCond = tagGuard,
     jp_needs = (Some [''verify-tag'']), jp_permissions = None,
     jp_outputs = None,
     jp_steps =
      [checkoutStep None,
      setupGoStep,
      reportGoEnvironmentStep,
      emptyStep\<lparr>sp_name := ''Run tests'',
        sp_runLines := Some [''go test ./...'']\<rparr>]\<rparr>\<close>

definition race_job :: releaseJobPolicy where
  \<open>race_job = \<lparr>jp_concept = conceptRaceTestGate, jp_name = ''race'', jp_displayName = ''Race'',
     jp_runsOn = ''ubuntu-latest'', jp_timeoutMinutes = ''10'', jp_ifCond = tagGuard,
     jp_needs = (Some [''verify-tag'']), jp_permissions = None,
     jp_outputs = None,
     jp_steps =
      [checkoutStep None,
      setupGoStep,
      reportGoEnvironmentStep,
      emptyStep\<lparr>sp_name := ''Run race tests'',
        sp_runLines := Some [''go test -race ./...'']\<rparr>]\<rparr>\<close>

definition vuln_job :: releaseJobPolicy where
  \<open>vuln_job = \<lparr>jp_concept = conceptVulnerabilityGate, jp_name = ''vuln'', jp_displayName = ''Govulncheck'',
     jp_runsOn = ''ubuntu-latest'', jp_timeoutMinutes = ''10'', jp_ifCond = tagGuard,
     jp_needs = (Some [''verify-tag'']), jp_permissions = None,
     jp_outputs = None,
     jp_steps =
      [checkoutStep None,
      setupGoStep,
      reportGoEnvironmentStep,
      emptyStep\<lparr>sp_name := ''Install task'',
        sp_runLines := Some [''scripts/go-tool.sh install task'']\<rparr>,
      emptyStep\<lparr>sp_name := ''Install govulncheck'',
        sp_runLines := Some [''scripts/go-tool.sh install govulncheck'']\<rparr>,
      emptyStep\<lparr>sp_name := ''Run vulnerability scan'',
        sp_runLines := Some [''task vuln'']\<rparr>]\<rparr>\<close>

definition gosec_job :: releaseJobPolicy where
  \<open>gosec_job = \<lparr>jp_concept = conceptSASTGate, jp_name = ''gosec'', jp_displayName = ''Gosec'',
     jp_runsOn = ''ubuntu-latest'', jp_timeoutMinutes = ''10'', jp_ifCond = tagGuard,
     jp_needs = (Some [''verify-tag'']), jp_permissions = (Some [(''contents'', ''read''),
         (''security-events'', ''write'')]),
     jp_outputs = None,
     jp_steps =
      [checkoutStep None,
      setupGoStep,
      reportGoEnvironmentStep,
      emptyStep\<lparr>sp_name := ''Install task'',
        sp_runLines := Some [''scripts/go-tool.sh install task'']\<rparr>,
      emptyStep\<lparr>sp_name := ''Install gosec'',
        sp_runLines := Some [''scripts/go-tool.sh install gosec'']\<rparr>,
      emptyStep\<lparr>sp_name := ''Run gosec scan'',
        sp_runLines := Some [acceptedGosecWorkflowCommand],
        sp_id := ''gosec'',
        sp_continueOnError := ''true''\<rparr>,
      emptyStep\<lparr>sp_name := ''Upload gosec SARIF to code scanning'',
        sp_usesPrefix := ''github/codeql-action/upload-sarif@'',
        sp_with := Some [(''sarif_file'', ''gosec.sarif''),
         (''category'', ''gosec-release'')],
        sp_ifCond := (''always() && hashFiles('gosec.sarif') != '' @ [CHR 0x27] @ [CHR 0x27])\<rparr>,
      emptyStep\<lparr>sp_name := ''Report gosec result'',
        sp_runLines := Some [''exit 1''],
        sp_ifCond := (''steps.gosec.outcome == 'failure'' @ [CHR 0x27])\<rparr>]\<rparr>\<close>

definition sbom_job :: releaseJobPolicy where
  \<open>sbom_job = \<lparr>jp_concept = conceptSBOMArtifact, jp_name = ''sbom'', jp_displayName = ''SBOM'',
     jp_runsOn = ''ubuntu-latest'', jp_timeoutMinutes = ''10'', jp_ifCond = tagGuard,
     jp_needs = (Some [''verify-tag'',
         ''check'',
         ''race'',
         ''vuln'',
         ''gosec'']), jp_permissions = None,
     jp_outputs = (Some [(''sbom-file'', ''${{ steps.sbom-metadata.outputs.sbom-file }}''),
         (''sbom-sha256'', ''${{ steps.sbom-metadata.outputs.sbom-sha256 }}'')]),
     jp_steps =
      [checkoutStep None,
      emptyStep\<lparr>sp_name := ''Generate CycloneDX SBOM'',
        sp_usesPrefix := ''anchore/sbom-action@'',
        sp_with := Some [(''format'', ''cyclonedx-json@1.5''),
         (''output-file'', ''${{ needs.verify-tag.outputs.sbom-file }}''),
         (''syft-version'', ''v1.45.1''),
         (''config'', ''.github/syft-release.yaml''),
         (''upload-artifact'', ''false''),
         (''upload-release-assets'', ''false'')]\<rparr>,
      emptyStep\<lparr>sp_name := ''Validate SBOM and compute checksum'',
        sp_runLines := Some [''sbom_file="$SBOM_FILE"'',
         ''scripts/validate-cyclonedx-sbom.sh "$sbom_file"'',
         ''sbom_sha256="$(sha256sum "$sbom_file" | awk '{ print $1 }')"'',
         ''{'',
         ''echo "sbom-file=$sbom_file"'',
         ''echo "sbom-sha256=$sbom_sha256"'',
         ''} >> "$GITHUB_OUTPUT"''],
        sp_env := Some [(''SBOM_FILE'', ''${{ needs.verify-tag.outputs.sbom-file }}'')],
        sp_id := ''sbom-metadata''\<rparr>,
      emptyStep\<lparr>sp_name := ''Upload SBOM artifact'',
        sp_usesPrefix := ''actions/upload-artifact@'',
        sp_with := Some [(''name'', ''release-sbom''),
         (''path'', ''${{ needs.verify-tag.outputs.sbom-file }}''),
         (''if-no-files-found'', ''error'')]\<rparr>]\<rparr>\<close>

definition sbom_attestation_job :: releaseJobPolicy where
  \<open>sbom_attestation_job = \<lparr>jp_concept = conceptSBOMAttestation, jp_name = ''sbom-attestation'', jp_displayName = ''SBOM Attestation'',
     jp_runsOn = ''ubuntu-latest'', jp_timeoutMinutes = ''10'', jp_ifCond = tagGuard,
     jp_needs = (Some [''sbom'']), jp_permissions = (Some [(''contents'', ''read''),
         (''id-token'', ''write''),
         (''attestations'', ''write'')]),
     jp_outputs = None,
     jp_steps =
      [checkoutStep None,
      emptyStep\<lparr>sp_name := ''Download SBOM artifact'',
        sp_usesPrefix := ''actions/download-artifact@'',
        sp_with := Some [(''name'', ''release-sbom''),
         (''path'', ''dist'')]\<rparr>,
      emptyStep\<lparr>sp_name := ''Validate downloaded SBOM'',
        sp_runLines := Some [''scripts/validate-cyclonedx-sbom.sh "dist/$SBOM_FILE"''],
        sp_env := Some [(''SBOM_FILE'', ''${{ needs.sbom.outputs.sbom-file }}'')]\<rparr>,
      emptyStep\<lparr>sp_name := ''Attest SBOM'',
        sp_usesPrefix := ''actions/attest@'',
        sp_with := Some [(''subject-path'', ''dist/${{ needs.sbom.outputs.sbom-file }}''),
         (''sbom-path'', ''dist/${{ needs.sbom.outputs.sbom-file }}'')],
        sp_id := ''attest-sbom''\<rparr>,
      emptyStep\<lparr>sp_name := ''Prepare Sigstore bundle asset'',
        sp_runLines := Some [''bundle_dst="dist/${SBOM_FILE}.sigstore.json"'',
         ''cp "$ATTESTATION_BUNDLE_PATH" "$bundle_dst"'',
         ''test -s "$bundle_dst"''],
        sp_env := Some [(''ATTESTATION_BUNDLE_PATH'', ''${{ steps.attest-sbom.outputs.bundle-path }}''),
         (''SBOM_FILE'', ''${{ needs.sbom.outputs.sbom-file }}'')]\<rparr>,
      emptyStep\<lparr>sp_name := ''Upload release assets artifact'',
        sp_usesPrefix := ''actions/upload-artifact@'',
        sp_with := Some [(''name'', ''release-assets''),
         (''path'', (''dist/${{ needs.sbom.outputs.sbom-file }}'' @ [CHR 0x0A] @ ''dist/${{ needs.sbom.outputs.sbom-file }}.sigstore.json'' @ [CHR 0x0A])),
         (''if-no-files-found'', ''error'')]\<rparr>]\<rparr>\<close>

definition release_job :: releaseJobPolicy where
  \<open>release_job = \<lparr>jp_concept = conceptReleasePublication, jp_name = ''release'', jp_displayName = ''Release'',
     jp_runsOn = ''ubuntu-latest'', jp_timeoutMinutes = ''10'', jp_ifCond = tagGuard,
     jp_needs = (Some [''verify-tag'',
         ''sbom'',
         ''sbom-attestation'']), jp_permissions = (Some [(''contents'', ''write'')]),
     jp_outputs = None,
     jp_steps =
      [checkoutStep None,
      emptyStep\<lparr>sp_name := ''Download prepared release assets'',
        sp_usesPrefix := ''actions/download-artifact@'',
        sp_with := Some [(''name'', ''release-assets''),
         (''path'', ''dist'')]\<rparr>,
      emptyStep\<lparr>sp_name := ''Prepare release notes and assets'',
        sp_runLines := Some [''sbom_path="dist/$SBOM_FILE"'',
         ''bundle_path="${sbom_path}.sigstore.json"'',
         ''test -s "$sbom_path"'',
         ''test -s "$bundle_path"'',
         ''scripts/validate-cyclonedx-sbom.sh "$sbom_path"'',
         ''computed_sha256="$(sha256sum "$sbom_path" | awk '{ print $1 }')"'',
         ''test "$computed_sha256" = "$SBOM_SHA256"'',
         ''scripts/extract-release-notes.sh CHANGELOG.md "$RELEASE_TAG" > release-notes.md'',
         ''run_url="${GITHUB_SERVER_URL}/${GITHUB_REPOSITORY}/actions/runs/${GITHUB_RUN_ID}"'',
         ''{'',
         ''cat release-notes.md'',
         (''printf "'' @ [CHR 0x5C] @ ''n## Supply-chain artifacts'' @ [CHR 0x5C] @ ''n'' @ [CHR 0x5C] @ ''n"''),
         (''printf -- "- Release validation: %s'' @ [CHR 0x5C] @ ''n" "$run_url"''),
         (''printf -- "- SBOM: '' @ [CHR 0x5C] @ ''`%s'' @ [CHR 0x5C] @ ''`'' @ [CHR 0x5C] @ ''n" "$SBOM_FILE"''),
         (''printf -- "- SBOM SHA-256 (corruption detection only): '' @ [CHR 0x5C] @ ''`%s'' @ [CHR 0x5C] @ ''`'' @ [CHR 0x5C] @ ''n" "$computed_sha256"''),
         (''printf -- "- SBOM attestation bundle: '' @ [CHR 0x5C] @ ''`%s.sigstore.json'' @ [CHR 0x5C] @ ''`'' @ [CHR 0x5C] @ ''n" "$SBOM_FILE"''),
         (''printf -- "- Verification instructions: '' @ [CHR 0x5C] @ ''`docs/release-verification.md'' @ [CHR 0x5C] @ ''`'' @ [CHR 0x5C] @ ''n"''),
         ''} > release-body.md'',
         ''echo "Prepared release body and assets for $RELEASE_TAG."''],
        sp_env := Some [(''RELEASE_TAG'', ''${{ needs.verify-tag.outputs.release-tag }}''),
         (''SBOM_FILE'', ''${{ needs.sbom.outputs.sbom-file }}''),
         (''SBOM_SHA256'', ''${{ needs.sbom.outputs.sbom-sha256 }}'')]\<rparr>,
      emptyStep\<lparr>sp_name := ''Publish GitHub Release'',
        sp_runLines := Some [''set -euo pipefail'',
         ''tag="$RELEASE_TAG"'',
         ''sbom_path="dist/$SBOM_FILE"'',
         ''bundle_path="${sbom_path}.sigstore.json"'',
         ''release_args=()'',
         ''if [ "$RELEASE_PRERELEASE" = "true" ]; then'',
         ''release_args+=(--prerelease)'',
         ''fi'',
         ''if [ "$RELEASE_LATEST" = "false" ]; then'',
         ''release_args+=(--latest=false)'',
         ''fi'',
         ''if gh release view "$tag" --repo "$GITHUB_REPOSITORY" >/dev/null 2>&1; then'',
         ''echo "GitHub Release already exists for $tag; refusing automated in-place asset replacement." >&2'',
         ''echo "Delete the draft/release or repair it manually before rerunning Release Validation." >&2'',
         ''exit 1'',
         ''fi'',
         (''gh release create "$tag" "$sbom_path" "$bundle_path" '' @ [CHR 0x5C]),
         (''--repo "$GITHUB_REPOSITORY" '' @ [CHR 0x5C]),
         (''--title "$tag" '' @ [CHR 0x5C]),
         (''--notes-file release-body.md '' @ [CHR 0x5C]),
         (''--verify-tag '' @ [CHR 0x5C]),
         ''"${release_args[@]}"''],
        sp_env := Some [(''GH_TOKEN'', ''${{ github.token }}''),
         (''RELEASE_TAG'', ''${{ needs.verify-tag.outputs.release-tag }}''),
         (''RELEASE_PRERELEASE'', ''${{ needs.verify-tag.outputs.prerelease }}''),
         (''RELEASE_LATEST'', ''${{ needs.verify-tag.outputs.latest }}''),
         (''SBOM_FILE'', ''${{ needs.sbom.outputs.sbom-file }}'')],
        sp_ifCond := publishGuard,
        sp_shell := ''bash''\<rparr>]\<rparr>\<close>

definition accepted_requiredScripts :: "string list" where
  \<open>accepted_requiredScripts =
     [''scripts/go-tool.sh'',
         ''scripts/release-tag-policy.sh'',
         ''scripts/release-metadata.sh'',
         ''scripts/release-tag-metadata.sh'',
         ''scripts/validate-cyclonedx-sbom.sh'',
         ''scripts/extract-release-notes.sh'']\<close>

definition accepted_requiredFiles :: "string list" where
  \<open>accepted_requiredFiles =
     [''scripts/go-tool-versions.sh'']\<close>

definition accepted_requiredConfigs :: "releaseConfigPolicy list" where
  \<open>accepted_requiredConfigs =
     [\<lparr>cp_path = ''.github/syft-release.yaml'', cp_sourceName = ''github.com/the-sarge/cpace'', cp_excludes = [''./.git/**'',
         ''./.ras/**'']\<rparr>]\<close>

definition accepted_expectedSigners :: string where
  \<open>accepted_expectedSigners = concat (map (\<lambda>l. l @ [CHR 0x0A])
     [''the-sarge@the-sarge.com ssh-ed25519 AAAAC3NzaC1lZDI1NTE5AAAAIFDxEpP8Q6LERBcA5//zwD5dBisHL7uHQsFa+TTibRXC'',
      ''the-sarge@the-sarge.com ssh-ed25519 AAAAC3NzaC1lZDI1NTE5AAAAIFF32/OwUJwQ/8OX5i2VNBO8oZf6B8l07U/R5n1rj0z6'',
      ''the-sarge@the-sarge.com ssh-ed25519 AAAAC3NzaC1lZDI1NTE5AAAAILlg3QNI+Zsnt6pR2Aip97Ak7VOajBeo+AlhIGfDYlPk'',
      ''the-sarge@the-sarge.com ssh-ed25519 AAAAC3NzaC1lZDI1NTE5AAAAILvdes5QNqI3PpKK6ksX6FtlL4LQgkq61AGflWVqoV0L'',
      ''the-sarge@the-sarge.com ssh-ed25519 AAAAC3NzaC1lZDI1NTE5AAAAIJaEbAxjr0LjcZKsqfUvrHDZJVmvL/AEIg+WSQGt+75v'',
      ''the-sarge@the-sarge.com ssh-ed25519 AAAAC3NzaC1lZDI1NTE5AAAAIBc0CLdNLHpbdkrEf/WLR3YH8oHyxsvSeaCwQ6MvlW4q'',
      ''the-sarge@the-sarge.com ssh-ed25519 AAAAC3NzaC1lZDI1NTE5AAAAIEd3JYo6vayWkANtsMbPx81ilaiq7a4oPpW6A0uD6TkF''])\<close>

definition newAcceptedReleasePolicy :: releasePolicy where
  \<open>newAcceptedReleasePolicy = \<lparr>rp_workflowName = ''Release Validation'',
     rp_rootKeys = [''name'', ''on'', ''permissions'', ''env'', ''concurrency'', ''jobs''],
     rp_env = [(''GOTOOLCHAIN'', ''local'')],
     rp_concurrency = [(''group'', ''release-${{ github.ref }}''),
         (''cancel-in-progress'', ''false'')],
     rp_triggerKeys = [''push'', ''workflow_dispatch''], rp_pushKeys = [''tags''], rp_pushTags = [''v*''],
     rp_topPermission = [(''contents'', ''read'')],
     rp_jobs = [unsupported_ref_job, verify_tag_job, check_job, race_job, vuln_job, gosec_job, sbom_job, sbom_attestation_job, release_job],
     rp_requiredScripts = accepted_requiredScripts, rp_requiredFiles = accepted_requiredFiles,
     rp_requiredConfigs = accepted_requiredConfigs, rp_expectedSigners = accepted_expectedSigners\<rparr>\<close>

section \<open>Lookups\<close>

definition jobNames :: "releasePolicy \<Rightarrow> string list" where
  "jobNames p = map jp_name (rp_jobs p)"

definition policy_job :: "releasePolicy \<Rightarrow> string \<Rightarrow> releaseJobPolicy option" where
  "policy_job p name = List.find (\<lambda>j. jp_name j = name) (rp_jobs p)"

definition stepIdentityFromFields :: "string \<Rightarrow> string \<Rightarrow> string" where
  "stepIdentityFromFields name uses =
     (if name \<noteq> [] then name
      else if uses \<noteq> [] then ''uses:'' @ fst (Cut uses CHR ''@'')
      else ''unnamed'')"

definition stepIdentities :: "releaseJobPolicy \<Rightarrow> string list" where
  "stepIdentities j = map (\<lambda>s. stepIdentityFromFields (sp_name s) (sp_usesPrefix s)) (jp_steps j)"

end
