(* ===== verification/Release_Checker.thy ===== *)
theory Release_Checker
  imports Release_Policy
begin

text \<open>
  tools/releasepolicy/main.go: the checks of the release workflow against the accepted policy. A method of
  \<open>checker\<close> appends findings; here it is a function from the checker's path (and policy) to the list that it
  appends, and a sequence of calls is their concatenation, in order.
\<close>

section \<open>Expectations\<close>

definition fail :: "string \<Rightarrow> string \<Rightarrow> string \<Rightarrow> finding list" where
  "fail c nodePath msg = [Finding (c @ '':'' @ nodePath) msg]"

definition index_path :: "string \<Rightarrow> nat \<Rightarrow> string" where
  "index_path nodePath idx = nodePath @ ''['' @ itoa idx @ '']''"

definition expectExactScalar :: "string \<Rightarrow> string \<Rightarrow> node option \<Rightarrow> string \<Rightarrow> finding list" where
  "expectExactScalar c nodePath n want =
     (let (got, ok) = scalarValue n
      in if n \<noteq> None \<and> \<not> ok then fail c nodePath ''must be a scalar''
         else if got \<noteq> want then fail c nodePath (''got '' @ quote got @ '', want '' @ quote want)
         else [])"

definition expectOptionalExactScalar :: "string \<Rightarrow> string \<Rightarrow> node option \<Rightarrow> string \<Rightarrow> finding list" where
  "expectOptionalExactScalar c nodePath n want =
     (if want = [] then (if n \<noteq> None then fail c nodePath ''unexpected value'' else [])
      else
        (let (got, ok) = scalarValue n
         in if n \<noteq> None \<and> \<not> ok then fail c nodePath ''must be a scalar''
            else if got \<noteq> want then fail c nodePath (''got '' @ quote got @ '', want '' @ quote want)
            else []))"

definition expectScalars :: "string \<Rightarrow> string \<Rightarrow> node option \<Rightarrow> smap \<Rightarrow> finding list \<times> bool" where
  "expectScalars c nodePath n want =
     (case n of
        None \<Rightarrow> (fail c nodePath ''missing mapping'', False)
      | Some m \<Rightarrow>
          if n_kind m \<noteq> MappingNode then (fail c nodePath ''must be a mapping'', False)
          else (concat (map (\<lambda>(key, expected). expectExactScalar c (nodePath @ ''.'' @ key) (mapping n key) expected) want), True))"

definition expectExactScalars :: "string \<Rightarrow> string \<Rightarrow> node option \<Rightarrow> smap \<Rightarrow> finding list" where
  "expectExactScalars c nodePath n want =
     (let (fs, ok) = expectScalars c nodePath n want
      in if \<not> ok then fs
         else fs @ concat (map (\<lambda>key. if map_of want key = None then fail c (nodePath @ ''.'' @ key) ''unexpected key'' else [])
                            (mapKeys n)))"

definition expectOptionalExactScalars :: "string \<Rightarrow> string \<Rightarrow> node option \<Rightarrow> smap option \<Rightarrow> finding list" where
  "expectOptionalExactScalars c nodePath n want =
     (case want of
        None \<Rightarrow> if n \<noteq> None then fail c nodePath ''unexpected mapping'' else []
      | Some want \<Rightarrow> expectExactScalars c nodePath n want)"

definition expectOnlyKeys :: "string \<Rightarrow> string \<Rightarrow> node option \<Rightarrow> string list \<Rightarrow> finding list" where
  "expectOnlyKeys c nodePath n want =
     (if (case n of None \<Rightarrow> True | Some m \<Rightarrow> n_kind m \<noteq> MappingNode) then fail c nodePath ''missing mapping''
      else concat (map (\<lambda>key. if \<not> contains want key then fail c (nodePath @ ''.'' @ key) ''unexpected key'' else [])
                    (mapKeys n)))"

definition expectExactStringSequence :: "string \<Rightarrow> string \<Rightarrow> node option \<Rightarrow> string list \<Rightarrow> finding list" where
  "expectExactStringSequence c nodePath n want =
     (case n of
        None \<Rightarrow> fail c nodePath ''missing sequence''
      | Some n \<Rightarrow>
          if n_kind n \<noteq> SequenceNode then fail c nodePath ''must be a sequence''
          else
            (let items = map (\<lambda>item. scalarValue (Some item)) (n_content n);
                 got = map fst (filter snd items)
             in concat (map (\<lambda>(idx, value, ok). if \<not> ok then fail c (index_path nodePath idx) ''must be a scalar'' else [])
                         (enumerate 0 items))
                @ (if got \<noteq> want
                   then fail c nodePath (''sequence must exactly match accepted release policy: got '' @ quotes got
                          @ '', want '' @ quotes want)
                   else [])))"

definition scriptLines :: "string \<Rightarrow> string list" where
  "scriptLines run = filter (\<lambda>line. \<not> (line = [] \<or> HasPrefix line ''#'')) (map TrimSpace (Split run CHR 0x0A))"

definition requireExactScriptLines :: "string \<Rightarrow> string \<Rightarrow> string \<Rightarrow> string list \<Rightarrow> finding list" where
  "requireExactScriptLines c nodePath run want =
     (if scriptLines run = want then []
      else fail c nodePath (''script lines must exactly match accepted release policy: got '' @ quotes (scriptLines run)
             @ '', want '' @ quotes want))"

section \<open>The policy catalogue and duplicate keys\<close>

fun catalogue_jobs :: "smap \<Rightarrow> releaseJobPolicy list \<Rightarrow> finding list" where
  "catalogue_jobs seen [] = []"
| "catalogue_jobs seen (job # jobs) =
     (let nodePath = ''tools/releasepolicy/policy.go:accepted-release-policy.jobs.'' @ jp_name job
      in if jp_concept job = []
         then Finding nodePath ''accepted release policy job must declare a policy concept'' # catalogue_jobs seen jobs
         else (case map_of seen (jp_concept job) of
                 Some prev \<Rightarrow> Finding nodePath (''policy concept duplicates job '' @ prev) # catalogue_jobs seen jobs
               | None \<Rightarrow> catalogue_jobs ((jp_concept job, jp_name job) # seen) jobs))"

fun catalogue_configs :: "string set \<Rightarrow> releaseConfigPolicy list \<Rightarrow> finding list" where
  "catalogue_configs seen [] = []"
| "catalogue_configs seen (config # configs) =
     (let nodePath = ''tools/releasepolicy/policy.go:accepted-release-policy.required-configs.'' @ cp_path config
      in if cp_path config = []
         then Finding nodePath ''accepted release policy required config path is empty'' # catalogue_configs seen configs
         else if cp_path config \<in> seen
         then Finding nodePath ''accepted release policy required config path is duplicated'' # catalogue_configs seen configs
         else (if cp_sourceName config = []
               then [Finding nodePath ''accepted release policy required config source name is empty''] else [])
              @ catalogue_configs (insert (cp_path config) seen) configs)"

definition checkAcceptedReleasePolicyCatalogue :: "releasePolicy \<Rightarrow> finding list" where
  "checkAcceptedReleasePolicyCatalogue policy =
     catalogue_jobs [] (rp_jobs policy) @ catalogue_configs {} (rp_requiredConfigs policy)"

text \<open>
  \<open>checkDuplicateKeys\<close>: the loops over the content of a mapping, two nodes at a time with the set of keys
  seen so far, and of a sequence, with the index.
\<close>

fun checkDuplicateKeys :: "string \<Rightarrow> string \<Rightarrow> node \<Rightarrow> finding list"
  and duplicate_entries :: "string \<Rightarrow> string \<Rightarrow> string set \<Rightarrow> node list \<Rightarrow> finding list"
  and duplicate_items :: "string \<Rightarrow> string \<Rightarrow> nat \<Rightarrow> node list \<Rightarrow> finding list" where
  "checkDuplicateKeys c nodePath (Node kind tag v content) =
     (if kind = MappingNode then duplicate_entries c nodePath {} content
      else if kind = SequenceNode then duplicate_items c nodePath 0 content
      else [])"
| "duplicate_entries c nodePath seen (key # v # content) =
     (let valuePath = yamlPath nodePath (n_value key); is_scalar = (n_kind key = ScalarNode)
      in (if is_scalar \<and> n_value key \<in> seen then fail c valuePath ''duplicate YAML key'' else [])
         @ checkDuplicateKeys c valuePath v
         @ duplicate_entries c nodePath (if is_scalar then insert (n_value key) seen else seen) content)"
| "duplicate_entries c nodePath seen content = []"
| "duplicate_items c nodePath idx (item # content) =
     checkDuplicateKeys c (index_path nodePath idx) item @ duplicate_items c nodePath (Suc idx) content"
| "duplicate_items c nodePath idx [] = []"

section \<open>The release workflow\<close>

definition checkRoot :: "string \<Rightarrow> releasePolicy \<Rightarrow> node \<Rightarrow> finding list" where
  "checkRoot c policy root =
     (if n_kind root \<noteq> MappingNode then fail c ''$'' ''workflow must be a mapping'' else [])
     @ (if \<not> sameStringSet (mapKeys (Some root)) (rp_rootKeys policy)
        then fail c ''$'' ''workflow root keys must exactly match the accepted release workflow'' else [])
     @ expectExactScalar c ''name'' (mapping (Some root) ''name'') (rp_workflowName policy)
     @ expectExactScalars c ''env'' (mapping (Some root) ''env'') (rp_env policy)
     @ expectExactScalars c ''concurrency'' (mapping (Some root) ''concurrency'') (rp_concurrency policy)"

definition checkTriggers :: "string \<Rightarrow> releasePolicy \<Rightarrow> node \<Rightarrow> finding list" where
  "checkTriggers c policy root =
     (let on = mapping (Some root) ''on''; push = mapping on ''push''
      in if on = None then fail c ''on'' ''missing trigger block''
         else
           (if \<not> sameStringSet (mapKeys on) (rp_triggerKeys policy)
            then fail c ''on'' ''trigger block must contain only push.tags v* and workflow_dispatch'' else [])
           @ (if push = None then fail c ''on.push'' ''missing push trigger''
              else (if \<not> sameStringSet (mapKeys push) (rp_pushKeys policy)
                    then fail c ''on.push'' ''push trigger must contain only tags'' else [])
                 @ (if \<not> sameStringSet (seqStrings (mapping push ''tags'')) (rp_pushTags policy)
                    then fail c ''on.push.tags'' ''push trigger must contain only v* tags'' else []))
           @ (if mapping on ''workflow_dispatch'' = None
              then fail c ''on.workflow_dispatch'' ''missing workflow_dispatch trigger'' else []))"

definition map_value :: "smap \<Rightarrow> string \<Rightarrow> string" where
  "map_value m key = (case map_of m key of None \<Rightarrow> [] | Some v \<Rightarrow> v)"

definition checkTopPermissions :: "string \<Rightarrow> releasePolicy \<Rightarrow> node \<Rightarrow> finding list" where
  "checkTopPermissions c policy root =
     (let permissions = mapping (Some root) ''permissions''
      in if permissions = None then fail c ''permissions'' ''missing top-level permissions''
         else
           expectExactScalar c ''permissions.contents'' (mapping permissions ''contents'')
             (map_value (rp_topPermission policy) ''contents'')
           @ concat (map (\<lambda>key. if map_of (rp_topPermission policy) key = None
                                then fail c (''permissions.'' @ key) ''unexpected top-level permission'' else [])
                       (mapKeys permissions)))"

definition checkJobSet :: "string \<Rightarrow> releasePolicy \<Rightarrow> node \<Rightarrow> finding list" where
  "checkJobSet c policy jobs =
     concat (map (\<lambda>name. if mapping (Some jobs) name = None then fail c (''jobs.'' @ name) ''missing required job'' else [])
               (jobNames policy))
     @ concat (map (\<lambda>name. if \<not> contains (jobNames policy) name
                           then fail c (''jobs.'' @ name) ''unexpected job in release workflow'' else [])
                 (mapKeys (Some jobs)))"

definition checkAcceptedJobEnvelope :: "string \<Rightarrow> string \<Rightarrow> node option \<Rightarrow> releaseJobPolicy \<Rightarrow> finding list" where
  "checkAcceptedJobEnvelope c jobPath job policy =
     expectOnlyKeys c jobPath job
       [''name'', ''if'', ''needs'', ''runs-on'', ''timeout-minutes'', ''permissions'', ''outputs'', ''steps'']
     @ expectExactScalar c (jobPath @ ''.name'') (mapping job ''name'') (jp_displayName policy)
     @ expectExactScalar c (jobPath @ ''.runs-on'') (mapping job ''runs-on'') (jp_runsOn policy)
     @ expectExactScalar c (jobPath @ ''.timeout-minutes'') (mapping job ''timeout-minutes'') (jp_timeoutMinutes policy)
     @ expectExactScalar c (jobPath @ ''.if'') (mapping job ''if'') (jp_ifCond policy)"

definition checkAcceptedJobNeeds :: "string \<Rightarrow> string \<Rightarrow> node option \<Rightarrow> releaseJobPolicy \<Rightarrow> finding list" where
  "checkAcceptedJobNeeds c jobPath job policy =
     (let want = (case jp_needs policy of None \<Rightarrow> [] | Some ns \<Rightarrow> ns)
      in if jp_needs policy = None \<and> mapping job ''needs'' \<noteq> None
         then fail c (jobPath @ ''.needs'') ''job must not declare needs''
         else if \<not> sameStringSet (needs job) want
         then fail c (jobPath @ ''.needs'') (''needs must exactly match: '' @ Join want '', '')
         else [])"

definition checkAcceptedJobPermissions :: "string \<Rightarrow> string \<Rightarrow> node option \<Rightarrow> releaseJobPolicy \<Rightarrow> finding list" where
  "checkAcceptedJobPermissions c jobPath job policy =
     (let permissions = mapping job ''permissions''
      in case jp_permissions policy of
           None \<Rightarrow>
             if permissions \<noteq> None
             then fail c (jobPath @ ''.permissions'')
                    ''job must inherit top-level contents: read and must not declare permissions''
             else []
         | Some want \<Rightarrow> expectExactScalars c (jobPath @ ''.permissions'') permissions want)"

definition checkAcceptedJobOutputs :: "string \<Rightarrow> string \<Rightarrow> node option \<Rightarrow> releaseJobPolicy \<Rightarrow> finding list" where
  "checkAcceptedJobOutputs c jobPath job policy =
     (let outputs = mapping job ''outputs''
      in case jp_outputs policy of
           None \<Rightarrow> if outputs \<noteq> None then fail c (jobPath @ ''.outputs'') ''job must not declare outputs'' else []
         | Some want \<Rightarrow> expectExactScalars c (jobPath @ ''.outputs'') outputs want)"

definition check_uses :: "string \<Rightarrow> string \<Rightarrow> node option \<Rightarrow> string \<Rightarrow> finding list" where
  "check_uses c stepPath usesNode usesPrefix =
     (if usesPrefix = [] then (if usesNode \<noteq> None then fail c (stepPath @ ''.uses'') ''unexpected uses'' else [])
      else
        (let (uses, ok) = scalarValue usesNode
         in if usesNode = None then fail c (stepPath @ ''.uses'') (''uses must start with '' @ usesPrefix)
            else if \<not> ok then fail c (stepPath @ ''.uses'') ''uses must be a scalar''
            else if \<not> HasPrefix uses usesPrefix
            then fail c (stepPath @ ''.uses'') (''uses must start with '' @ usesPrefix)
            else []))"

definition check_run :: "string \<Rightarrow> string \<Rightarrow> node option \<Rightarrow> string list option \<Rightarrow> finding list" where
  "check_run c stepPath runNode runLines =
     (case runLines of
        None \<Rightarrow> if runNode \<noteq> None then fail c (stepPath @ ''.run'') ''unexpected run'' else []
      | Some want \<Rightarrow>
          (let (run, ok) = scalarValue runNode
           in if runNode = None then fail c (stepPath @ ''.run'') ''missing run''
              else if \<not> ok then fail c (stepPath @ ''.run'') ''run must be a scalar''
              else requireExactScriptLines c (stepPath @ ''.run'') run want))"

definition checkAcceptedStep :: "string \<Rightarrow> string \<Rightarrow> node option \<Rightarrow> releaseStepPolicy \<Rightarrow> finding list" where
  "checkAcceptedStep c stepPath step policy =
     expectOnlyKeys c stepPath step
       [''name'', ''id'', ''if'', ''uses'', ''run'', ''with'', ''env'', ''shell'', ''continue-on-error'']
     @ expectOptionalExactScalar c (stepPath @ ''.name'') (mapping step ''name'') (sp_name policy)
     @ expectOptionalExactScalar c (stepPath @ ''.id'') (mapping step ''id'') (sp_id policy)
     @ expectOptionalExactScalar c (stepPath @ ''.if'') (mapping step ''if'') (sp_ifCond policy)
     @ expectOptionalExactScalar c (stepPath @ ''.shell'') (mapping step ''shell'') (sp_shell policy)
     @ expectOptionalExactScalar c (stepPath @ ''.continue-on-error'') (mapping step ''continue-on-error'')
         (sp_continueOnError policy)
     @ check_uses c stepPath (mapping step ''uses'') (sp_usesPrefix policy)
     @ check_run c stepPath (mapping step ''run'') (sp_runLines policy)
     @ expectOptionalExactScalars c (stepPath @ ''.with'') (mapping step ''with'') (sp_with policy)
     @ expectOptionalExactScalars c (stepPath @ ''.env'') (mapping step ''env'') (sp_env policy)"

definition stepIdentity :: "node \<Rightarrow> string" where
  "stepIdentity step =
     stepIdentityFromFields (scalar (mapping (Some step) ''name'')) (scalar (mapping (Some step) ''uses''))"

definition checkAcceptedJobSteps :: "string \<Rightarrow> string \<Rightarrow> node option \<Rightarrow> releaseJobPolicy \<Rightarrow> finding list" where
  "checkAcceptedJobSteps c jobPath job policy =
     (let got = map stepIdentity (steps job); want = stepIdentities policy
      in if got \<noteq> want
         then fail c (jobPath @ ''.steps'') (''steps must exactly match accepted release policy: got '' @ quotes got
                @ '', want '' @ quotes want)
         else concat (map (\<lambda>(idx, step, stepPolicy). checkAcceptedStep c (index_path (jobPath @ ''.steps'') idx) (Some step) stepPolicy)
                       (enumerate 0 (zip (steps job) (jp_steps policy)))))"

definition checkAcceptedJob :: "string \<Rightarrow> string \<Rightarrow> node option \<Rightarrow> releaseJobPolicy \<Rightarrow> finding list" where
  "checkAcceptedJob c jobPath job policy =
     checkAcceptedJobEnvelope c jobPath job policy @ checkAcceptedJobNeeds c jobPath job policy
     @ checkAcceptedJobPermissions c jobPath job policy @ checkAcceptedJobOutputs c jobPath job policy
     @ checkAcceptedJobSteps c jobPath job policy"

definition checkAcceptedJobs :: "string \<Rightarrow> releasePolicy \<Rightarrow> node \<Rightarrow> finding list" where
  "checkAcceptedJobs c policy jobs =
     concat (map (\<lambda>p. let job = mapping (Some jobs) (jp_name p)
                      in if job = None then [] else checkAcceptedJob c (''jobs.'' @ jp_name p) job p)
               (rp_jobs policy))"

text \<open>The references to actions and the scripts of all steps, sorted by their paths.\<close>

definition step_refs :: "string \<Rightarrow> node \<Rightarrow> (string \<times> string) list" where
  "step_refs key jobs =
     sort_key fst (concat (map (\<lambda>jobName.
        concat (map (\<lambda>(idx, step). let v = scalar (mapping (Some step) key)
                                   in if v \<noteq> [] then [(index_path (''jobs.'' @ jobName @ ''.steps'') idx, v)] else [])
                  (enumerate 0 (steps (mapping (Some jobs) jobName)))))
        (mapKeys (Some jobs))))"

definition actionUses :: "node \<Rightarrow> (string \<times> string) list" where
  "actionUses jobs = step_refs ''uses'' jobs"

definition runSteps :: "node \<Rightarrow> (string \<times> string) list" where
  "runSteps jobs = step_refs ''run'' jobs"

definition checkActionPins :: "string \<Rightarrow> node \<Rightarrow> finding list" where
  "checkActionPins c jobs =
     concat (map (\<lambda>(path, uses).
        let (action, version, ok) = Cut uses CHR ''@''
        in if \<not> ok \<or> action = [] \<or> \<not> shaRef_match version
           then fail c (path @ ''.uses'') ''action must be pinned by 40-character SHA'' else [])
       (actionUses jobs))"

definition checkCheckoutCredentials :: "string \<Rightarrow> releasePolicy \<Rightarrow> node \<Rightarrow> finding list" where
  "checkCheckoutCredentials c policy jobs =
     concat (map (\<lambda>jobName.
        if policy_job policy jobName \<noteq> None then []
        else concat (map (\<lambda>(idx, step).
               if \<not> HasPrefix (scalar (mapping (Some step) ''uses'')) ''actions/checkout@'' then []
               else expectExactScalars c (index_path (''jobs.'' @ jobName @ ''.steps'') idx @ ''.with'')
                      (mapping (Some step) ''with'') [(''persist-credentials'', ''false'')])
              (enumerate 0 (steps (mapping (Some jobs) jobName)))))
       (mapKeys (Some jobs)))"

definition checkNoRunExpressions :: "string \<Rightarrow> node \<Rightarrow> finding list" where
  "checkNoRunExpressions c jobs =
     concat (map (\<lambda>(path, run).
        if Contains run ''${{''
        then fail c (path @ ''.run'') ''run steps must not interpolate GitHub expression contexts; pass values through env''
        else [])
       (runSteps jobs))"

definition checkWorkflowAgainstPolicy :: "string \<Rightarrow> node \<Rightarrow> releasePolicy \<Rightarrow> finding list" where
  "checkWorkflowAgainstPolicy path root policy =
     (let catalogue = checkAcceptedReleasePolicyCatalogue policy; duplicates = checkDuplicateKeys path ''$'' root
      in if catalogue \<noteq> [] then catalogue
         else if duplicates \<noteq> [] then duplicates
         else checkRoot path policy root @ checkTriggers path policy root @ checkTopPermissions path policy root
           @ (case mapping (Some root) ''jobs'' of
                None \<Rightarrow> fail path ''jobs'' ''missing jobs''
              | Some jobs \<Rightarrow>
                  checkJobSet path policy jobs @ checkAcceptedJobs path policy jobs @ checkActionPins path jobs
                  @ checkCheckoutCredentials path policy jobs @ checkNoRunExpressions path jobs))"

end
