(* ===== verification/Release_Correct.thy ===== *)
theory Release_Correct
  imports Release_Checker
begin

text \<open>
  What the release policy checker accepts, as a declarative description of the workflow's YAML tree, and
  what follows for the accepted policy.
\<close>

section \<open>Conformance\<close>

definition exact_scalar :: "node option \<Rightarrow> string \<Rightarrow> bool" where
  "exact_scalar n want \<longleftrightarrow> (case n of None \<Rightarrow> want = [] | Some m \<Rightarrow> n_kind m = ScalarNode \<and> n_value m = want)"

definition optional_scalar :: "node option \<Rightarrow> string \<Rightarrow> bool" where
  "optional_scalar n want \<longleftrightarrow> (case n of None \<Rightarrow> want = [] | Some m \<Rightarrow> want \<noteq> [] \<and> n_kind m = ScalarNode \<and> n_value m = want)"

definition exact_map :: "node option \<Rightarrow> smap \<Rightarrow> bool" where
  "exact_map n want \<longleftrightarrow> (\<exists>m. n = Some m \<and> n_kind m = MappingNode) \<and> set (mapKeys n) \<subseteq> fst ` set want
     \<and> (\<forall>(key, v) \<in> set want. exact_scalar (mapping n key) v)"

definition optional_map :: "node option \<Rightarrow> smap option \<Rightarrow> bool" where
  "optional_map n want \<longleftrightarrow> (case want of None \<Rightarrow> n = None | Some w \<Rightarrow> exact_map n w)"

definition keys_within :: "node option \<Rightarrow> string list \<Rightarrow> bool" where
  "keys_within n ks \<longleftrightarrow> (\<exists>m. n = Some m \<and> n_kind m = MappingNode) \<and> set (mapKeys n) \<subseteq> set ks"

definition step_conforms :: "node \<Rightarrow> releaseStepPolicy \<Rightarrow> bool" where
  "step_conforms step policy \<longleftrightarrow>
     keys_within (Some step) [''name'', ''id'', ''if'', ''uses'', ''run'', ''with'', ''env'', ''shell'', ''continue-on-error'']
   \<and> optional_scalar (mapping (Some step) ''name'') (sp_name policy)
   \<and> optional_scalar (mapping (Some step) ''id'') (sp_id policy)
   \<and> optional_scalar (mapping (Some step) ''if'') (sp_ifCond policy)
   \<and> optional_scalar (mapping (Some step) ''shell'') (sp_shell policy)
   \<and> optional_scalar (mapping (Some step) ''continue-on-error'') (sp_continueOnError policy)
   \<and> (if sp_usesPrefix policy = [] then mapping (Some step) ''uses'' = None
      else \<exists>m. mapping (Some step) ''uses'' = Some m \<and> n_kind m = ScalarNode \<and> HasPrefix (n_value m) (sp_usesPrefix policy))
   \<and> (case sp_runLines policy of
        None \<Rightarrow> mapping (Some step) ''run'' = None
      | Some ls \<Rightarrow> \<exists>m. mapping (Some step) ''run'' = Some m \<and> n_kind m = ScalarNode \<and> scriptLines (n_value m) = ls)
   \<and> optional_map (mapping (Some step) ''with'') (sp_with policy)
   \<and> optional_map (mapping (Some step) ''env'') (sp_env policy)"

definition needs_conform :: "node option \<Rightarrow> string list option \<Rightarrow> bool" where
  "needs_conform job want \<longleftrightarrow>
     (case want of
        None \<Rightarrow> mapping job ''needs'' = None
      | Some ns \<Rightarrow> length (needs job) = length ns \<and> set (needs job) = set ns)"

definition job_conforms :: "node option \<Rightarrow> releaseJobPolicy \<Rightarrow> bool" where
  "job_conforms job policy \<longleftrightarrow>
     keys_within job [''name'', ''if'', ''needs'', ''runs-on'', ''timeout-minutes'', ''permissions'', ''outputs'', ''steps'']
   \<and> exact_scalar (mapping job ''name'') (jp_displayName policy)
   \<and> exact_scalar (mapping job ''runs-on'') (jp_runsOn policy)
   \<and> exact_scalar (mapping job ''timeout-minutes'') (jp_timeoutMinutes policy)
   \<and> exact_scalar (mapping job ''if'') (jp_ifCond policy)
   \<and> needs_conform job (jp_needs policy)
   \<and> optional_map (mapping job ''permissions'') (jp_permissions policy)
   \<and> optional_map (mapping job ''outputs'') (jp_outputs policy)
   \<and> map stepIdentity (steps job) = stepIdentities policy
   \<and> list_all2 step_conforms (steps job) (jp_steps policy)"

text \<open>A reference to an action: a name, an at sign, and a full commit hash.\<close>

definition pinned :: "string \<Rightarrow> bool" where
  "pinned uses \<longleftrightarrow> (\<exists>action version. uses = action @ CHR ''@'' # version \<and> action \<noteq> [] \<and> CHR ''@'' \<notin> set action
     \<and> shaRef_match version)"

definition job_steps :: "node \<Rightarrow> node set" where
  "job_steps jobs = (\<Union>name \<in> set (mapKeys (Some jobs)). set (steps (mapping (Some jobs) name)))"

definition jobs_conform :: "node \<Rightarrow> releasePolicy \<Rightarrow> bool" where
  "jobs_conform jobs policy \<longleftrightarrow>
     set (mapKeys (Some jobs)) = set (jobNames policy)
   \<and> (\<forall>p \<in> set (rp_jobs policy). job_conforms (mapping (Some jobs) (jp_name p)) p)
   \<and> (\<forall>step \<in> job_steps jobs.
        (scalar (mapping (Some step) ''uses'') = [] \<or> pinned (scalar (mapping (Some step) ''uses'')))
      \<and> \<not> Contains (scalar (mapping (Some step) ''run'')) ''${{'')"

definition triggers_conform :: "node option \<Rightarrow> releasePolicy \<Rightarrow> bool" where
  "triggers_conform on policy \<longleftrightarrow>
     sameStringSet (mapKeys on) (rp_triggerKeys policy) \<and> mapping on ''push'' \<noteq> None \<and> mapping on ''workflow_dispatch'' \<noteq> None
   \<and> sameStringSet (mapKeys (mapping on ''push'')) (rp_pushKeys policy)
   \<and> sameStringSet (seqStrings (mapping (mapping on ''push'') ''tags'')) (rp_pushTags policy)"

definition permissions_conform :: "node option \<Rightarrow> releasePolicy \<Rightarrow> bool" where
  "permissions_conform n policy \<longleftrightarrow> n \<noteq> None
   \<and> exact_scalar (mapping n ''contents'') (map_value (rp_topPermission policy) ''contents'')
   \<and> set (mapKeys n) \<subseteq> fst ` set (rp_topPermission policy)"

text \<open>No mapping of the tree has two scalar keys with the same value.\<close>

inductive unique_keys :: "node \<Rightarrow> bool" where
  leaf: "kind \<notin> {MappingNode, SequenceNode} \<Longrightarrow> unique_keys (Node kind tag v content)"
| items: "list_all unique_keys content \<Longrightarrow> unique_keys (Node SequenceNode tag v content)"
| entries: "distinct (map (\<lambda>(k, v). n_value k) (filter (\<lambda>(k, v). n_kind k = ScalarNode) (entries content))) \<Longrightarrow>
    list_all (\<lambda>(k, v). unique_keys v) (entries content) \<Longrightarrow> unique_keys (Node MappingNode tag v content)"
monos list.pred_mono

inductive_simps unique_keys_simps: "unique_keys (Node kind tag v content)"

definition conforms :: "node \<Rightarrow> releasePolicy \<Rightarrow> bool" where
  "conforms root policy \<longleftrightarrow> unique_keys root \<and> n_kind root = MappingNode
   \<and> sameStringSet (mapKeys (Some root)) (rp_rootKeys policy)
   \<and> exact_scalar (mapping (Some root) ''name'') (rp_workflowName policy)
   \<and> exact_map (mapping (Some root) ''env'') (rp_env policy)
   \<and> exact_map (mapping (Some root) ''concurrency'') (rp_concurrency policy)
   \<and> triggers_conform (mapping (Some root) ''on'') policy
   \<and> permissions_conform (mapping (Some root) ''permissions'') policy
   \<and> (case mapping (Some root) ''jobs'' of None \<Rightarrow> False | Some jobs \<Rightarrow> jobs_conform jobs policy)"

section \<open>The expectations decide their conditions\<close>

lemma fail_not_Nil [simp]: "fail c p m \<noteq> []" "[] \<noteq> fail c p m"
  by (simp_all add: fail_def)

declare concat_eq_Nil_conv [simp del]

lemma concat_map_Nil [simp]: "concat (map f xs) = [] \<longleftrightarrow> (\<forall>x \<in> set xs. f x = [])"
  by (induction xs) auto

lemma expectExactScalar_iff: "expectExactScalar c p n want = [] \<longleftrightarrow> exact_scalar n want"
  by (cases n) (auto simp: expectExactScalar_def exact_scalar_def scalarValue_def)

lemma expectOptionalExactScalar_iff: "expectOptionalExactScalar c p n want = [] \<longleftrightarrow> optional_scalar n want"
  by (cases n) (auto simp: expectOptionalExactScalar_def optional_scalar_def scalarValue_def)

lemma expectExactScalars_iff: "expectExactScalars c p n want = [] \<longleftrightarrow> exact_map n want"
proof (cases n)
  case None
  then show ?thesis by (simp add: expectExactScalars_def expectScalars_def exact_map_def)
next
  case (Some m)
  have "map_of want key = None \<longleftrightarrow> key \<notin> fst ` set want" for key by (simp add: map_of_eq_None_iff)
  then show ?thesis
    by (auto simp: Some expectExactScalars_def expectScalars_def exact_map_def concat_map_Nil expectExactScalar_iff split: if_splits)
qed

lemma expectOptionalExactScalars_iff: "expectOptionalExactScalars c p n want = [] \<longleftrightarrow> optional_map n want"
  by (auto simp: expectOptionalExactScalars_def optional_map_def expectExactScalars_iff split: option.split)

lemma expectOnlyKeys_iff: "expectOnlyKeys c p n want = [] \<longleftrightarrow> keys_within n want"
  by (cases n) (auto simp: expectOnlyKeys_def keys_within_def concat_map_Nil contains_def)

lemma expectExactStringSequence_iff:
  "expectExactStringSequence c p n want = [] \<longleftrightarrow>
    (\<exists>m. n = Some m \<and> n_kind m = SequenceNode \<and> list_all (\<lambda>i. n_kind i = ScalarNode) (n_content m)
       \<and> map n_value (n_content m) = want)"
proof (cases n)
  case None
  then show ?thesis by (simp add: expectExactStringSequence_def)
next
  case (Some m)
  have all: "(\<forall>(idx, value, ok) \<in> set (enumerate k (map (\<lambda>i. scalarValue (Some i)) is)). ok)
      \<longleftrightarrow> list_all (\<lambda>i. n_kind i = ScalarNode) is" for k "is"
    by (induction "is" arbitrary: k) (auto simp: scalarValue_def)
  have vals: "map fst (filter snd (map (\<lambda>i. scalarValue (Some i)) is)) = map n_value is"
    if "list_all (\<lambda>i. n_kind i = ScalarNode) is" for "is"
    using that by (induction "is") (auto simp: scalarValue_def)
  show ?thesis
    using all [of 0 "n_content m"] vals [of "n_content m"]
    by (auto simp: Some expectExactStringSequence_def Let_def concat_map_Nil split_beta split: if_splits)
qed

lemma check_uses_iff:
  "check_uses c p n want = [] \<longleftrightarrow>
    (if want = [] then n = None else \<exists>m. n = Some m \<and> n_kind m = ScalarNode \<and> HasPrefix (n_value m) want)"
  by (cases n) (auto simp: check_uses_def scalarValue_def)

lemma check_run_iff:
  "check_run c p n want = [] \<longleftrightarrow>
    (case want of None \<Rightarrow> n = None
     | Some ls \<Rightarrow> \<exists>m. n = Some m \<and> n_kind m = ScalarNode \<and> scriptLines (n_value m) = ls)"
  by (cases n) (auto simp: check_run_def scalarValue_def requireExactScriptLines_def split: option.split)

lemma checkAcceptedStep_iff: "checkAcceptedStep c p (Some step) policy = [] \<longleftrightarrow> step_conforms step policy"
  by (simp only: checkAcceptedStep_def step_conforms_def append_is_Nil_conv expectOnlyKeys_iff expectOptionalExactScalar_iff
      check_uses_iff check_run_iff expectOptionalExactScalars_iff)

section \<open>The checks decide conformance\<close>

definition scalar_keys :: "node list \<Rightarrow> string list" where
  "scalar_keys content = map (\<lambda>(k, v). n_value k) (filter (\<lambda>(k, v). n_kind k = ScalarNode) (entries content))"

lemma duplicates_iff:
  "checkDuplicateKeys c p n = [] \<longleftrightarrow> unique_keys n"
  "duplicate_entries c p seen content = [] \<longleftrightarrow>
     distinct (scalar_keys content) \<and> set (scalar_keys content) \<inter> seen = {} \<and> list_all (\<lambda>(k, v). unique_keys v) (entries content)"
  "duplicate_items c p idx content = [] \<longleftrightarrow> list_all unique_keys content"
proof (induction c p n and c p seen content and c p idx content rule: checkDuplicateKeys_duplicate_entries_duplicate_items.induct)
  case (1 c nodePath kind tag v content)
  then show ?case by (auto simp: unique_keys_simps scalar_keys_def)
next
  case (2 c nodePath seen key v content)
  then show ?case by (auto simp: scalar_keys_def Let_def)
qed (auto simp: scalar_keys_def)

lemma all_enumerate: "(\<forall>(i, x) \<in> set (enumerate k xs). P x) \<longleftrightarrow> (\<forall>x \<in> set xs. P x)"
  by (induction xs arbitrary: k) auto

lemma checkAcceptedJobSteps_iff:
  "checkAcceptedJobSteps c p job policy = [] \<longleftrightarrow>
    map stepIdentity (steps job) = stepIdentities policy \<and> list_all2 step_conforms (steps job) (jp_steps policy)"
proof (cases "map stepIdentity (steps job) = stepIdentities policy")
  case True
  then have "length (steps job) = length (jp_steps policy)"
    unfolding stepIdentities_def by (metis length_map)
  then show ?thesis
    using True all_enumerate [of 0 "zip (steps job) (jp_steps policy)" "\<lambda>(s, q). step_conforms s q"]
    by (simp add: checkAcceptedJobSteps_def checkAcceptedStep_iff list_all2_iff split_beta)
qed (simp add: checkAcceptedJobSteps_def)

lemma checkAcceptedJob_iff: "checkAcceptedJob c p job policy = [] \<longleftrightarrow> job_conforms job policy"
proof -
  have needs: "checkAcceptedJobNeeds c p job policy = [] \<longleftrightarrow> needs_conform job (jp_needs policy)"
    by (auto simp: checkAcceptedJobNeeds_def needs_conform_def sameStringSet_iff needs_def split: option.splits)
  have "checkAcceptedJobPermissions c p job policy = [] \<longleftrightarrow> optional_map (mapping job ''permissions'') (jp_permissions policy)"
    "checkAcceptedJobOutputs c p job policy = [] \<longleftrightarrow> optional_map (mapping job ''outputs'') (jp_outputs policy)"
    by (auto simp: checkAcceptedJobPermissions_def checkAcceptedJobOutputs_def optional_map_def expectExactScalars_iff
        split: option.split)
  then show ?thesis
    by (simp only: checkAcceptedJob_def checkAcceptedJobEnvelope_def append_is_Nil_conv expectOnlyKeys_iff expectExactScalar_iff
        checkAcceptedJobSteps_iff needs job_conforms_def conj_assoc)
qed

lemma list_all_concat_map: "list_all P (concat (map f xs)) \<longleftrightarrow> (\<forall>x \<in> set xs. list_all P (f x))"
  by (induction xs) auto

lemma list_all_sort_key [simp]: "list_all P (sort_key f xs) \<longleftrightarrow> list_all P xs"
  by (simp add: list_all_iff)

lemma step_refs_iff:
  "list_all (\<lambda>(path, v). P v) (step_refs key jobs) \<longleftrightarrow>
    (\<forall>step \<in> job_steps jobs. scalar (mapping (Some step) key) = [] \<or> P (scalar (mapping (Some step) key)))"
proof -
  have "list_all (\<lambda>(path, v). P v) (concat (map (\<lambda>(idx, step). let v = scalar (mapping (Some step) key)
          in if v \<noteq> [] then [(index_path q idx, v)] else []) (enumerate k xs)))
      \<longleftrightarrow> (\<forall>step \<in> set xs. scalar (mapping (Some step) key) = [] \<or> P (scalar (mapping (Some step) key)))" for q k xs
  proof (induction xs arbitrary: k)
    case (Cons a xs)
    then show ?case
      by (simp only: enumerate_simps list.map concat.simps list_all_append prod.case Let_def) simp
  qed simp
  then show ?thesis by (simp add: step_refs_def job_steps_def list_all_concat_map)
qed

lemma pinned_iff:
  "(case Cut uses CHR ''@'' of (action, version, ok) \<Rightarrow> ok \<and> action \<noteq> [] \<and> shaRef_match version) \<longleftrightarrow> pinned uses"
proof -
  have "pinned uses \<longleftrightarrow> (\<exists>a v. Cut uses CHR ''@'' = (a, v, True) \<and> a \<noteq> [] \<and> shaRef_match v)"
    unfolding Cut_found pinned_def by blast
  then show ?thesis by (cases "Cut uses CHR ''@''") auto
qed

lemma refs_checks_iff:
  "checkActionPins c jobs = [] \<longleftrightarrow>
    (\<forall>step \<in> job_steps jobs. scalar (mapping (Some step) ''uses'') = [] \<or> pinned (scalar (mapping (Some step) ''uses'')))"
  "checkNoRunExpressions c jobs = [] \<longleftrightarrow>
    (\<forall>step \<in> job_steps jobs. \<not> Contains (scalar (mapping (Some step) ''run'')) ''${{'')"
proof -
  have "checkActionPins c jobs = [] \<longleftrightarrow> list_all (\<lambda>(path, v). pinned v) (actionUses jobs)"
    by (simp add: checkActionPins_def list_all_iff pinned_iff [symmetric] split_beta)
  then show "checkActionPins c jobs = [] \<longleftrightarrow>
    (\<forall>step \<in> job_steps jobs. scalar (mapping (Some step) ''uses'') = [] \<or> pinned (scalar (mapping (Some step) ''uses'')))"
    by (simp only: actionUses_def step_refs_iff)
  have "checkNoRunExpressions c jobs = [] \<longleftrightarrow> list_all (\<lambda>(path, v). \<not> Contains v ''${{'') (runSteps jobs)"
    by (simp add: checkNoRunExpressions_def list_all_iff split_beta)
  then show "checkNoRunExpressions c jobs = [] \<longleftrightarrow>
    (\<forall>step \<in> job_steps jobs. \<not> Contains (scalar (mapping (Some step) ''run'')) ''${{'')"
    by (simp only: runSteps_def step_refs_iff) auto
qed

lemma mapping_None_iff: "mapping n key = None \<longleftrightarrow> key \<notin> set (mapKeys n)"
  using mapping_in_keys [of n key] by blast

lemma policy_job_iff: "policy_job policy name = None \<longleftrightarrow> name \<notin> set (jobNames policy)"
  by (auto simp: policy_job_def jobNames_def find_None_iff)

lemma checkWorkflow_iff:
  "checkWorkflowAgainstPolicy path root policy = [] \<longleftrightarrow>
     checkAcceptedReleasePolicyCatalogue policy = [] \<and> conforms root policy"
proof -
  have jobs: "checkJobSet path policy jobs @ checkAcceptedJobs path policy jobs @ checkActionPins path jobs
        @ checkCheckoutCredentials path policy jobs @ checkNoRunExpressions path jobs = [] \<longleftrightarrow> jobs_conform jobs policy" for jobs
  proof -
    have set: "checkJobSet path policy jobs = [] \<longleftrightarrow> set (mapKeys (Some jobs)) = set (jobNames policy)"
      by (auto simp: checkJobSet_def mapping_None_iff contains_def split: if_splits)
    have all: "checkAcceptedJobs path policy jobs = [] \<longleftrightarrow> (\<forall>p \<in> set (rp_jobs policy). job_conforms (mapping (Some jobs) (jp_name p)) p)"
      if "set (mapKeys (Some jobs)) = set (jobNames policy)"
    proof -
      have "mapping (Some jobs) (jp_name p) \<noteq> None" if "p \<in> set (rp_jobs policy)" for p
        using that \<open>set (mapKeys (Some jobs)) = set (jobNames policy)\<close> by (simp add: mapping_None_iff jobNames_def del: not_None_eq)
      then show ?thesis by (simp add: checkAcceptedJobs_def Let_def checkAcceptedJob_iff)
    qed
    have "checkCheckoutCredentials path policy jobs = []" if "set (mapKeys (Some jobs)) = set (jobNames policy)"
      using that by (simp add: checkCheckoutCredentials_def policy_job_iff)
    then show ?thesis
      using set all by (auto simp: jobs_conform_def refs_checks_iff)
  qed
  have "checkTriggers path policy root = [] \<longleftrightarrow> triggers_conform (mapping (Some root) ''on'') policy"
    by (auto simp: checkTriggers_def triggers_conform_def Let_def)
  moreover have "checkTopPermissions path policy root = [] \<longleftrightarrow> permissions_conform (mapping (Some root) ''permissions'') policy"
    by (auto simp: checkTopPermissions_def permissions_conform_def Let_def expectExactScalar_iff map_of_eq_None_iff split: if_splits)
  moreover have "checkRoot path policy root = [] \<longleftrightarrow> n_kind root = MappingNode
      \<and> sameStringSet (mapKeys (Some root)) (rp_rootKeys policy)
      \<and> exact_scalar (mapping (Some root) ''name'') (rp_workflowName policy)
      \<and> exact_map (mapping (Some root) ''env'') (rp_env policy)
      \<and> exact_map (mapping (Some root) ''concurrency'') (rp_concurrency policy)"
    by (auto simp: checkRoot_def expectExactScalar_iff expectExactScalars_iff)
  ultimately show ?thesis
    by (cases "mapping (Some root) ''jobs''")
      (auto simp: checkWorkflowAgainstPolicy_def conforms_def Let_def duplicates_iff jobs simp del: append_is_Nil_conv
        simp: append_is_Nil_conv [of "checkRoot path policy root"] append_is_Nil_conv [of "checkTriggers path policy root"]
          append_is_Nil_conv [of "checkTopPermissions path policy root"])
qed

section \<open>The accepted policy\<close>

lemmas job_defs = unsupported_ref_job_def verify_tag_job_def check_job_def race_job_def vuln_job_def gosec_job_def
  sbom_job_def sbom_attestation_job_def release_job_def

lemma accepted_jobs: "rp_jobs newAcceptedReleasePolicy = [unsupported_ref_job, verify_tag_job, check_job, race_job, vuln_job,
    gosec_job, sbom_job, sbom_attestation_job, release_job]"
  by (simp add: newAcceptedReleasePolicy_def)

text \<open>The fields of the jobs, read without unfolding their steps.\<close>

lemma job_names:
  "jp_name unsupported_ref_job = ''unsupported-ref''" "jp_name verify_tag_job = ''verify-tag''" "jp_name check_job = ''check''"
  "jp_name race_job = ''race''" "jp_name vuln_job = ''vuln''" "jp_name gosec_job = ''gosec''" "jp_name sbom_job = ''sbom''"
  "jp_name sbom_attestation_job = ''sbom-attestation''" "jp_name release_job = ''release''"
  unfolding job_defs by (rule releaseJobPolicy.select_convs)+

lemma job_conditions:
  "jp_ifCond verify_tag_job = tagGuard" "jp_ifCond check_job = tagGuard" "jp_ifCond race_job = tagGuard"
  "jp_ifCond vuln_job = tagGuard" "jp_ifCond gosec_job = tagGuard" "jp_ifCond sbom_job = tagGuard"
  "jp_ifCond sbom_attestation_job = tagGuard" "jp_ifCond release_job = tagGuard"
  unfolding job_defs by (rule releaseJobPolicy.select_convs)+

lemma job_permissions:
  "jp_permissions unsupported_ref_job = None" "jp_permissions verify_tag_job = None" "jp_permissions check_job = None"
  "jp_permissions race_job = None" "jp_permissions vuln_job = None" "jp_permissions sbom_job = None"
  "jp_permissions gosec_job = Some [(''contents'', ''read''), (''security-events'', ''write'')]"
  "jp_permissions sbom_attestation_job = Some [(''contents'', ''read''), (''id-token'', ''write''), (''attestations'', ''write'')]"
  unfolding job_defs by (rule releaseJobPolicy.select_convs)+

lemma job_needs:
  "jp_needs release_job = Some [''verify-tag'', ''sbom'', ''sbom-attestation'']"
  "jp_needs sbom_job = Some [''verify-tag'', ''check'', ''race'', ''vuln'', ''gosec'']"
  unfolding job_defs by (rule releaseJobPolicy.select_convs)+

lemmas job_fields = job_names job_conditions job_permissions job_needs

lemma accepted_jobNames: "jobNames newAcceptedReleasePolicy = [''unsupported-ref'', ''verify-tag'', ''check'', ''race'', ''vuln'',
    ''gosec'', ''sbom'', ''sbom-attestation'', ''release'']"
  by (simp add: jobNames_def accepted_jobs job_names)

lemma accepted_catalogue: "checkAcceptedReleasePolicyCatalogue newAcceptedReleasePolicy = []"
  by (simp add: checkAcceptedReleasePolicyCatalogue_def accepted_jobs job_defs concept_defs newAcceptedReleasePolicy_def
      accepted_requiredConfigs_def)

text \<open>What the jobs of the accepted policy have in common.\<close>

lemma accepted_conditions:
  "\<forall>p \<in> set (rp_jobs newAcceptedReleasePolicy). jp_name p \<noteq> ''unsupported-ref'' \<longrightarrow> jp_ifCond p = tagGuard"
  by (simp add: accepted_jobs job_fields)

lemma accepted_permissions:
  "\<forall>p \<in> set (rp_jobs newAcceptedReleasePolicy). jp_name p \<noteq> ''release'' \<longrightarrow>
    (case jp_permissions p of None \<Rightarrow> True | Some w \<Rightarrow> (''contents'', ''read'') \<in> set w)"
  by (simp add: accepted_jobs job_fields)

text \<open>\<open>depends jobs a b\<close>: job \<open>a\<close> of the workflow declares that it needs job \<open>b\<close>.\<close>

definition depends :: "node \<Rightarrow> string \<Rightarrow> string \<Rightarrow> bool" where
  "depends jobs a b \<longleftrightarrow> b \<in> set (needs (mapping (Some jobs) a))"

lemma conforming_needs:
  assumes "jobs_conform jobs newAcceptedReleasePolicy"
  shows "depends jobs ''release'' b \<longleftrightarrow> b \<in> {''verify-tag'', ''sbom'', ''sbom-attestation''}"
    and "depends jobs ''sbom'' b \<longleftrightarrow> b \<in> {''verify-tag'', ''check'', ''race'', ''vuln'', ''gosec''}"
proof -
  have "needs_conform (mapping (Some jobs) (jp_name p)) (jp_needs p)" if "p \<in> set (rp_jobs newAcceptedReleasePolicy)" for p
    using assms that by (simp add: jobs_conform_def job_conforms_def)
  from this [of release_job] this [of sbom_job]
  show "depends jobs ''release'' b \<longleftrightarrow> b \<in> {''verify-tag'', ''sbom'', ''sbom-attestation''}"
    and "depends jobs ''sbom'' b \<longleftrightarrow> b \<in> {''verify-tag'', ''check'', ''race'', ''vuln'', ''gosec''}"
    by (simp_all add: accepted_jobs depends_def needs_conform_def job_fields)
qed

lemma exact_scalar_value: "exact_scalar n v \<Longrightarrow> scalar n = v"
  by (auto simp: exact_scalar_def scalar_def scalarValue_def split: option.splits)

lemma conforming_job:
  assumes "jobs_conform jobs policy" and "name \<in> set (mapKeys (Some jobs))"
  obtains p where "p \<in> set (rp_jobs policy)" "jp_name p = name" "job_conforms (mapping (Some jobs) name) p"
  using assms by (force simp: jobs_conform_def jobNames_def)

lemma conforming_gate:
  assumes "jobs_conform jobs newAcceptedReleasePolicy"
    and "g \<in> {''verify-tag'', ''check'', ''race'', ''vuln'', ''gosec'', ''sbom'', ''sbom-attestation''}"
  shows "(depends jobs)\<^sup>+\<^sup>+ ''release'' g"
proof (cases "depends jobs ''release'' g")
  note needs = conforming_needs [OF assms(1)]
  case False
  then have "depends jobs ''sbom'' g" using assms(2) by (auto simp: needs)
  moreover have "depends jobs ''release'' ''sbom''" by (simp add: needs)
  ultimately show ?thesis by (auto intro: tranclp_into_tranclp2)
qed auto

lemma conforming_condition:
  assumes "jobs_conform jobs newAcceptedReleasePolicy" and "name \<in> set (mapKeys (Some jobs)) - {''unsupported-ref''}"
  shows "scalar (mapping (mapping (Some jobs) name) ''if'') = tagGuard"
proof -
  obtain p where "p \<in> set (rp_jobs newAcceptedReleasePolicy)" "jp_name p = name" "job_conforms (mapping (Some jobs) name) p"
    using assms by (blast elim: conforming_job)
  then show ?thesis using accepted_conditions assms(2) by (auto simp: job_conforms_def dest!: exact_scalar_value)
qed

text \<open>The permission that a job has for the repository's contents: its own, or the top-level one where it declares none.\<close>

definition contents_permission :: "node \<Rightarrow> node option \<Rightarrow> string" where
  "contents_permission root job =
     (case mapping job ''permissions'' of
        None \<Rightarrow> scalar (mapping (mapping (Some root) ''permissions'') ''contents'')
      | Some own \<Rightarrow> scalar (mapping (Some own) ''contents''))"

lemma accepted_topPermission: "map_value (rp_topPermission newAcceptedReleasePolicy) ''contents'' = ''read''"
  by (simp add: newAcceptedReleasePolicy_def map_value_def)

lemma conforming_permission:
  assumes "jobs_conform jobs newAcceptedReleasePolicy" and "name \<in> set (mapKeys (Some jobs)) - {''release''}"
    and "permissions_conform (mapping (Some root) ''permissions'') newAcceptedReleasePolicy"
  shows "contents_permission root (mapping (Some jobs) name) = ''read''"
proof -
  obtain p where p: "p \<in> set (rp_jobs newAcceptedReleasePolicy)" "jp_name p = name" "job_conforms (mapping (Some jobs) name) p"
    using assms by (blast elim: conforming_job)
  show ?thesis
  proof (cases "jp_permissions p")
    case None
    then have "mapping (mapping (Some jobs) name) ''permissions'' = None" using p(3) by (simp add: job_conforms_def optional_map_def)
    then show ?thesis
      using assms(3) by (auto simp: contents_permission_def permissions_conform_def accepted_topPermission dest!: exact_scalar_value)
  next
    case (Some w)
    have "jp_name p \<noteq> ''release''" using p(2) assms(2) by blast
    then have "(''contents'', ''read'') \<in> set w" using accepted_permissions p(1) Some by auto
    then have "scalar (mapping (mapping (mapping (Some jobs) name) ''permissions'') ''contents'') = ''read''"
      using p(3) Some by (auto simp: job_conforms_def optional_map_def exact_map_def dest!: bspec exact_scalar_value)
    then show ?thesis by (cases "mapping (mapping (Some jobs) name) ''permissions''") (simp_all add: contents_permission_def scalar_def scalarValue_def)
  qed
qed

section \<open>Properties\<close>

text \<open>C33. The release policy checker is exact: it reports nothing for a workflow if and only if the workflow's
  tree conforms to the accepted policy, which is itself consistent: no duplicate keys, the exact root keys,
  triggers and permissions, exactly the accepted jobs, each with its condition, needs, permissions, outputs and
  its steps in order, every action pinned to a commit hash and no script with an expression in it.\<close>

theorem release_checker_exact:
  "checkWorkflowAgainstPolicy path root newAcceptedReleasePolicy = [] \<longleftrightarrow> conforms root newAcceptedReleasePolicy"
  by (simp add: checkWorkflow_iff accepted_catalogue)

text \<open>C34. What a workflow that passes the check guarantees: the release job waits, directly or through
  others, for the signed tag check, the tests, the race tests, the vulnerability and SAST scans and the SBOM
  with its attestation; every job but the one that explains an unsupported ref runs for version tags only;
  only the release job may write to the repository's contents, the others have the permission to read them, which
  they declare or inherit from the top level; and every action is pinned by a commit hash.\<close>

theorem accepted_release_gated:
  assumes "checkWorkflowAgainstPolicy path root newAcceptedReleasePolicy = []"
  shows "\<exists>jobs. mapping (Some root) ''jobs'' = Some jobs
    \<and> (\<forall>g \<in> {''verify-tag'', ''check'', ''race'', ''vuln'', ''gosec'', ''sbom'', ''sbom-attestation''}.
         (depends jobs)\<^sup>+\<^sup>+ ''release'' g)
    \<and> (\<forall>name \<in> set (mapKeys (Some jobs)) - {''unsupported-ref''}. scalar (mapping (mapping (Some jobs) name) ''if'') = tagGuard)
    \<and> (\<forall>name \<in> set (mapKeys (Some jobs)) - {''release''}.
         contents_permission root (mapping (Some jobs) name) = ''read'')
    \<and> (\<forall>step \<in> job_steps jobs. scalar (mapping (Some step) ''uses'') = [] \<or> pinned (scalar (mapping (Some step) ''uses'')))"
proof -
  have "conforms root newAcceptedReleasePolicy" using assms by (simp add: checkWorkflow_iff)
  then obtain jobs where jobs: "mapping (Some root) ''jobs'' = Some jobs" "jobs_conform jobs newAcceptedReleasePolicy"
      "permissions_conform (mapping (Some root) ''permissions'') newAcceptedReleasePolicy"
    by (auto simp: conforms_def split: option.splits)
  then show ?thesis
    using conforming_gate [OF jobs(2)] conforming_condition [OF jobs(2)] conforming_permission [OF jobs(2) _ jobs(3)]
    by (intro exI [of _ jobs]) (simp add: jobs_conform_def)
qed

end
