(* ===== verification/Release_Sample.thy ===== *)
theory Release_Sample
  imports Release_Correct
begin

text \<open>
  The workflow that a policy describes, as a YAML tree, and that the checker accepts it: a policy whose
  maps, lines and references to actions are well formed can be met. The accepted policy is one.
\<close>

section \<open>The tree of a policy\<close>

definition snode :: "string \<Rightarrow> node" where
  "snode v = Node ScalarNode [] v []"

definition mnode :: "(string \<times> node) list \<Rightarrow> node" where
  "mnode kvs = Node MappingNode [] [] (concat (map (\<lambda>(k, v). [snode k, v]) kvs))"

definition qnode :: "node list \<Rightarrow> node" where
  "qnode xs = Node SequenceNode [] [] xs"

definition map_node :: "smap \<Rightarrow> node" where
  "map_node m = mnode (map (\<lambda>(k, v). (k, snode v)) m)"

fun if_given :: "('a \<Rightarrow> bool) \<Rightarrow> 'a option \<Rightarrow> bool" where
  "if_given P None = True"
| "if_given P (Some x) = P x"

lemma if_given_simps [simp]: "if_given P (map_option f x) \<longleftrightarrow> if_given (\<lambda>y. P (f y)) x" "if_given (\<lambda>y. True) x"
  by (cases x; simp)+

text \<open>A mapping of the keys that have a value.\<close>

definition given :: "(string \<times> node option) list \<Rightarrow> node" where
  "given kvs = mnode (List.map_filter (\<lambda>(k, v). map_option (Pair k) v) kvs)"

definition nonempty :: "string \<Rightarrow> node option" where
  "nonempty v = (if v = [] then None else Some (snode v))"

definition step_node :: "releaseStepPolicy \<Rightarrow> node" where
  "step_node p = given [(''name'', nonempty (sp_name p)), (''id'', nonempty (sp_id p)), (''if'', nonempty (sp_ifCond p)),
     (''shell'', nonempty (sp_shell p)), (''continue-on-error'', nonempty (sp_continueOnError p)),
     (''uses'', if sp_usesPrefix p = [] then None else Some (snode (sp_usesPrefix p @ replicate 40 CHR ''0''))),
     (''run'', map_option (\<lambda>ls. snode (Join ls [CHR 0x0A])) (sp_runLines p)),
     (''with'', map_option map_node (sp_with p)), (''env'', map_option map_node (sp_env p))]"

definition job_node :: "releaseJobPolicy \<Rightarrow> node" where
  "job_node p = given [(''name'', Some (snode (jp_displayName p))), (''runs-on'', Some (snode (jp_runsOn p))),
     (''timeout-minutes'', Some (snode (jp_timeoutMinutes p))), (''if'', Some (snode (jp_ifCond p))),
     (''needs'', map_option (\<lambda>ns. qnode (map snode ns)) (jp_needs p)),
     (''permissions'', map_option map_node (jp_permissions p)), (''outputs'', map_option map_node (jp_outputs p)),
     (''steps'', Some (qnode (map step_node (jp_steps p))))]"

definition jobs_node :: "releasePolicy \<Rightarrow> node" where
  "jobs_node p = mnode (map (\<lambda>j. (jp_name j, job_node j)) (rp_jobs p))"

definition workflow_node :: "releasePolicy \<Rightarrow> node" where
  "workflow_node p = mnode [(''name'', snode (rp_workflowName p)),
     (''on'', mnode [(''push'', mnode [(''tags'', qnode (map snode (rp_pushTags p)))]), (''workflow_dispatch'', snode [])]),
     (''permissions'', map_node (rp_topPermission p)), (''env'', map_node (rp_env p)),
     (''concurrency'', map_node (rp_concurrency p)), (''jobs'', jobs_node p)]"

section \<open>Well-formed policies\<close>

definition plain_line :: "string \<Rightarrow> bool" where
  "plain_line l \<longleftrightarrow> l \<noteq> [] \<and> hd l \<noteq> CHR ''#'' \<and> \<not> is_space (hd l) \<and> \<not> is_space (last l) \<and> CHR 0x0A \<notin> set l
     \<and> \<not> Contains l ''${{''"

definition plain_map :: "smap \<Rightarrow> bool" where
  "plain_map m \<longleftrightarrow> distinct (map fst m)"

text \<open>The prefix of a reference to an action: its name and an at sign.\<close>

definition action_prefix :: "string \<Rightarrow> bool" where
  "action_prefix u \<longleftrightarrow> 1 < length u \<and> last u = CHR ''@'' \<and> CHR ''@'' \<notin> set (butlast u)"

definition plain_step :: "releaseStepPolicy \<Rightarrow> bool" where
  "plain_step p \<longleftrightarrow> (sp_usesPrefix p = [] \<or> action_prefix (sp_usesPrefix p))
     \<and> if_given (\<lambda>ls. ls \<noteq> [] \<and> list_all plain_line ls) (sp_runLines p)
     \<and> if_given plain_map (sp_with p) \<and> if_given plain_map (sp_env p)"

definition plain_job :: "releaseJobPolicy \<Rightarrow> bool" where
  "plain_job p \<longleftrightarrow> if_given plain_map (jp_permissions p) \<and> if_given plain_map (jp_outputs p)
     \<and> list_all plain_step (jp_steps p)"

definition plain_policy :: "releasePolicy \<Rightarrow> bool" where
  "plain_policy p \<longleftrightarrow> plain_map (rp_env p) \<and> plain_map (rp_concurrency p) \<and> plain_map (rp_topPermission p)
     \<and> ''contents'' \<in> fst ` set (rp_topPermission p)
     \<and> sameStringSet (rp_rootKeys p) [''name'', ''on'', ''permissions'', ''env'', ''concurrency'', ''jobs'']
     \<and> sameStringSet (rp_triggerKeys p) [''push'', ''workflow_dispatch''] \<and> sameStringSet (rp_pushKeys p) [''tags'']
     \<and> distinct (jobNames p) \<and> list_all plain_job (rp_jobs p)"

section \<open>Lookups in the tree\<close>

lemma entries_mnode [simp]: "entries (n_content (mnode kvs)) = map (\<lambda>(k, v). (snode k, v)) kvs"
  by (induction kvs) (auto simp: mnode_def)

lemma node_simps [simp]:
  "n_kind (mnode kvs) = MappingNode" "n_kind (snode v) = ScalarNode" "n_value (snode v) = v"
  "n_kind (qnode xs) = SequenceNode" "n_content (qnode xs) = xs"
  by (auto simp: mnode_def snode_def qnode_def)

lemma scalar_snode [simp]: "scalar (Some (snode v)) = v" "scalar None = []"
  by (simp_all add: scalar_def scalarValue_def)

lemma mapping_mnode: "mapping (Some (mnode kvs)) key = map_of kvs key"
proof -
  have "map_option snd (List.find (\<lambda>(k, v). n_value k = key) (map (\<lambda>(k, v). (snode k, v)) kvs)) = map_of kvs key"
    by (induction kvs) auto
  then show ?thesis by (simp add: mapping_def)
qed

lemma keys_mnode: "mapKeys (Some (mnode kvs)) = sort (map fst kvs)"
  by (simp add: mapKeys_def split_beta comp_def)

lemma keys_given: "set (mapKeys (Some (given kvs))) \<subseteq> fst ` set kvs"
  unfolding given_def keys_mnode by (force simp: List.map_filter_def)

lemma keys_within_given: "fst ` set kvs \<subseteq> set ks \<Longrightarrow> keys_within (Some (given kvs)) ks"
  using keys_given [of kvs] by (auto simp: keys_within_def) (simp add: given_def)

lemma map_of_given:
  assumes "distinct (map fst kvs)"
  shows "map_of (List.map_filter (\<lambda>(k, v). map_option (Pair k) v) kvs) key = Option.bind (map_of kvs key) (\<lambda>v. v)"
  using assms
proof (induction kvs)
  case (Cons x kvs)
  have "map_of (List.map_filter (\<lambda>(k, v). map_option (Pair k) v) kvs) k = None" if "k \<notin> fst ` set kvs" for k
    using that by (induction kvs) (auto simp: map_filter_simps split: option.split)
  then show ?case using Cons by (cases x) (auto simp: map_filter_simps split: option.split)
qed (simp add: map_filter_simps)

lemma mapping_given: "distinct (map fst kvs) \<Longrightarrow> mapping (Some (given kvs)) key = Option.bind (map_of kvs key) (\<lambda>v. v)"
  by (simp add: given_def mapping_mnode map_of_given)

lemma unique_mnode: "unique_keys (mnode kvs) \<longleftrightarrow> distinct (map fst kvs) \<and> (\<forall>(k, v) \<in> set kvs. unique_keys v)"
proof -
  have "entries (concat (map (\<lambda>(k, v). [snode k, v]) kvs)) = map (\<lambda>(k, v). (snode k, v)) kvs"
    using entries_mnode [of kvs] by (simp add: mnode_def)
  moreover have "map (\<lambda>(k, v). n_value k) (filter (\<lambda>(k, v). n_kind k = ScalarNode) (map (\<lambda>(k, v). (snode k, v)) kvs)) = map fst kvs"
    by (induction kvs) auto
  ultimately show ?thesis by (simp add: mnode_def unique_keys_simps list_all_iff split_beta comp_def)
qed

lemma unique_leaves [simp]: "unique_keys (snode v)" "unique_keys (map_node m) \<longleftrightarrow> plain_map m"
    "unique_keys (qnode xs) \<longleftrightarrow> list_all unique_keys xs"
  by (auto simp: snode_def qnode_def unique_keys_simps map_node_def unique_mnode plain_map_def split_beta comp_def)

lemma unique_given:
  assumes "distinct (map fst kvs)" and "\<forall>(k, v) \<in> set kvs. if_given unique_keys v"
  shows "unique_keys (given kvs)"
proof -
  have "distinct (map fst (List.map_filter (\<lambda>(k, v). map_option (Pair k) v) kvs))
      \<and> (\<forall>x \<in> set (List.map_filter (\<lambda>(k, v). map_option (Pair k) v) kvs). fst x \<in> fst ` set kvs)"
    using assms(1) by (induction kvs) (force simp: map_filter_simps split: option.split)+
  then show ?thesis using assms(2) by (force simp: given_def unique_mnode List.map_filter_def)
qed

section \<open>The parts conform\<close>

lemma exact_map_node: "plain_map m \<Longrightarrow> exact_map (Some (map_node m)) m"
proof -
  assume m: "plain_map m"
  have "map_of (map (\<lambda>(k, v). (k, snode v)) m) k = map_option snode (map_of m k)" for k
    by (induction m) auto
  moreover have "map_of m k = Some v" if "(k, v) \<in> set m" for k v
    using that m by (simp add: plain_map_def)
  ultimately show ?thesis
    by (auto simp: exact_map_def map_node_def keys_mnode mapping_mnode exact_scalar_def intro: rev_image_eqI)
qed

lemma optional_map_node: "if_given plain_map m \<Longrightarrow> optional_map (map_option map_node m) m"
  by (cases m) (simp_all add: optional_map_def exact_map_node)

lemma optional_nonempty [simp]: "optional_scalar (nonempty v) v"
  by (simp add: nonempty_def optional_scalar_def)

lemma scriptLines_Join:
  assumes "ls \<noteq> []" and "list_all plain_line ls"
  shows "scriptLines (Join ls [CHR 0x0A]) = ls"
proof -
  have plain: "TrimSpace l = l" "CHR 0x0A \<notin> set l" "\<not> (l = [] \<or> HasPrefix l ''#'')" if "l \<in> set ls" for l
    using assms(2) that by (cases l; auto simp: list_all_iff plain_line_def intro!: TrimSpace_id dest!: bspec)+
  have "Split (Join ls [CHR 0x0A]) CHR 0x0A = ls" by (rule Split_Join [OF assms(1)]) (use plain in simp)
  moreover have "map TrimSpace ls = ls" using plain by (simp add: map_idI)
  moreover have "filter (\<lambda>line. \<not> (line = [] \<or> HasPrefix line ''#'')) ls = ls"
    using plain(3) by (intro filter_True) blast
  ultimately show ?thesis by (simp only: scriptLines_def)
qed

lemma Contains_Join:
  assumes "c \<notin> set p" and "p \<noteq> []"
  shows "Contains (Join ls [c]) p \<longleftrightarrow> (\<exists>l \<in> set ls. Contains l p)"
proof (induction ls rule: induct_list012)
  case 1
  then show ?case using assms by simp
next
  case (3 l m ls)
  have "sublist p (l @ c # s) \<longleftrightarrow> sublist p l \<or> sublist p s" for s
  proof
    assume "sublist p (l @ c # s)"
    then consider "sublist p l" | "sublist p (c # s)" | q' q where "p = q' @ q" "suffix q' l" "prefix q (c # s)"
      by (auto simp: sublist_append)
    then show "sublist p l \<or> sublist p s"
    proof cases
      case 2
      then show ?thesis using assms by (cases p) (auto simp: sublist_Cons_right)
    next
      case 3
      then have "q = []" using assms(1) by (cases q) auto
      then show ?thesis using 3 by (simp add: suffix_imp_sublist)
    qed simp
  qed (auto simp: sublist_append sublist_Cons_right)
  then show ?case using 3 by (auto simp: Contains_sublist)
qed simp

lemma action_prefixE:
  assumes "action_prefix u"
  obtains a where "u = a @ [CHR ''@'']" and "a \<noteq> []" and "CHR ''@'' \<notin> set a"
  using assms by (cases u rule: rev_cases) (auto simp: action_prefix_def)

lemma step_lookups:
  "mapping (Some (step_node p)) ''name'' = nonempty (sp_name p)" "mapping (Some (step_node p)) ''id'' = nonempty (sp_id p)"
  "mapping (Some (step_node p)) ''if'' = nonempty (sp_ifCond p)" "mapping (Some (step_node p)) ''shell'' = nonempty (sp_shell p)"
  "mapping (Some (step_node p)) ''continue-on-error'' = nonempty (sp_continueOnError p)"
  "mapping (Some (step_node p)) ''uses'' = (if sp_usesPrefix p = [] then None else Some (snode (sp_usesPrefix p @ replicate 40 CHR ''0'')))"
  "mapping (Some (step_node p)) ''run'' = map_option (\<lambda>ls. snode (Join ls [CHR 0x0A])) (sp_runLines p)"
  "mapping (Some (step_node p)) ''with'' = map_option map_node (sp_with p)"
  "mapping (Some (step_node p)) ''env'' = map_option map_node (sp_env p)"
  unfolding step_node_def by (subst mapping_given; simp)+

lemma step_node_keys:
  "keys_within (Some (step_node p)) [''name'', ''id'', ''if'', ''uses'', ''run'', ''with'', ''env'', ''shell'', ''continue-on-error'']"
  unfolding step_node_def by (rule keys_within_given) simp

lemma step_node_conforms: "plain_step p \<Longrightarrow> step_conforms (step_node p) p"
  unfolding step_conforms_def step_lookups
  by (auto simp: step_node_keys optional_map_node plain_step_def scriptLines_Join split: option.split)

lemma step_node_identity:
  assumes "plain_step p"
  shows "stepIdentity (step_node p) = stepIdentityFromFields (sp_name p) (sp_usesPrefix p)"
proof (cases "sp_usesPrefix p = []")
  case True
  then show ?thesis by (simp add: stepIdentity_def step_lookups nonempty_def)
next
  case False
  then obtain a where a: "sp_usesPrefix p = a @ [CHR ''@'']" "CHR ''@'' \<notin> set a"
    using assms by (auto simp: plain_step_def elim: action_prefixE)
  have "Cut (a @ CHR ''@'' # v) CHR ''@'' = (a, v, True)" for v using a(2) by (simp add: Cut_found)
  then show ?thesis by (simp add: stepIdentity_def step_lookups nonempty_def stepIdentityFromFields_def a(1))
qed

lemma step_node_refs:
  assumes "plain_step p"
  shows "scalar (mapping (Some (step_node p)) ''uses'') = [] \<or> pinned (scalar (mapping (Some (step_node p)) ''uses''))"
    and "\<not> Contains (scalar (mapping (Some (step_node p)) ''run'')) ''${{''"
proof -
  have sha: "shaRef_match (replicate 40 CHR ''0'')" by code_simp
  show "scalar (mapping (Some (step_node p)) ''uses'') = [] \<or> pinned (scalar (mapping (Some (step_node p)) ''uses''))"
  proof (cases "sp_usesPrefix p = []")
    case False
    then obtain a where a: "sp_usesPrefix p = a @ [CHR ''@'']" "a \<noteq> []" "CHR ''@'' \<notin> set a"
      using assms by (auto simp: plain_step_def elim: action_prefixE)
    have "pinned (a @ CHR ''@'' # replicate 40 CHR ''0'')" unfolding pinned_def using a(2,3) sha by blast
    then show ?thesis by (simp add: step_lookups a(1))
  qed (simp add: step_lookups)
  show "\<not> Contains (scalar (mapping (Some (step_node p)) ''run'')) ''${{''"
    using assms
    by (cases "sp_runLines p") (auto simp: step_lookups plain_step_def Contains_Join list_all_iff plain_line_def)
qed

lemma step_node_unique: "plain_step p \<Longrightarrow> unique_keys (step_node p)"
  unfolding step_node_def
  by (rule unique_given) (auto simp: nonempty_def plain_step_def comp_def)

lemma job_lookups:
  "mapping (Some (job_node p)) ''name'' = Some (snode (jp_displayName p))"
  "mapping (Some (job_node p)) ''runs-on'' = Some (snode (jp_runsOn p))"
  "mapping (Some (job_node p)) ''timeout-minutes'' = Some (snode (jp_timeoutMinutes p))"
  "mapping (Some (job_node p)) ''if'' = Some (snode (jp_ifCond p))"
  "mapping (Some (job_node p)) ''needs'' = map_option (\<lambda>ns. qnode (map snode ns)) (jp_needs p)"
  "mapping (Some (job_node p)) ''permissions'' = map_option map_node (jp_permissions p)"
  "mapping (Some (job_node p)) ''outputs'' = map_option map_node (jp_outputs p)"
  "mapping (Some (job_node p)) ''steps'' = Some (qnode (map step_node (jp_steps p)))"
  unfolding job_node_def by (subst mapping_given; simp)+

lemma steps_job_node: "steps (Some (job_node p)) = map step_node (jp_steps p)"
  by (simp add: steps_def job_lookups)

lemma job_node_conforms:
  assumes "plain_job p"
  shows "job_conforms (Some (job_node p)) p"
proof -
  have plain: "if_given plain_map (jp_permissions p)" "if_given plain_map (jp_outputs p)"
    "\<forall>q \<in> set (jp_steps p). plain_step q" using assms by (simp_all add: plain_job_def list_all_iff)
  have "keys_within (Some (job_node p)) [''name'', ''if'', ''needs'', ''runs-on'', ''timeout-minutes'', ''permissions'', ''outputs'', ''steps'']"
    unfolding job_node_def by (rule keys_within_given) simp
  moreover have "needs_conform (Some (job_node p)) (jp_needs p)"
    by (auto simp: needs_conform_def needs_def job_lookups seqStrings_def comp_def split: option.split)
  moreover have "map stepIdentity (steps (Some (job_node p))) = stepIdentities p"
    using plain(3) by (simp add: steps_job_node stepIdentities_def step_node_identity)
  moreover have "list_all2 step_conforms (steps (Some (job_node p))) (jp_steps p)"
    using plain(3) by (simp add: steps_job_node list.rel_map list.rel_refl_strong step_node_conforms list_all2_same)
  ultimately show ?thesis
    by (simp add: job_conforms_def job_lookups exact_scalar_def optional_map_node plain)
qed

lemma job_node_unique: "plain_job p \<Longrightarrow> unique_keys (job_node p)"
  unfolding job_node_def
  by (rule unique_given) (auto simp: plain_job_def comp_def list_all_iff step_node_unique)

section \<open>The workflow conforms\<close>

lemma jobs_lookup:
  assumes "distinct (jobNames p)" and "j \<in> set (rp_jobs p)"
  shows "mapping (Some (jobs_node p)) (jp_name j) = Some (job_node j)"
  unfolding jobs_node_def mapping_mnode
  by (rule map_of_is_SomeI) (use assms in \<open>auto simp: jobNames_def comp_def\<close>)

lemma job_steps_node: "step \<in> job_steps (jobs_node p) \<Longrightarrow> \<exists>j \<in> set (rp_jobs p). step \<in> step_node ` set (jp_steps j)"
proof -
  assume "step \<in> job_steps (jobs_node p)"
  then obtain name where step: "step \<in> set (steps (map_of (map (\<lambda>j. (jp_name j, job_node j)) (rp_jobs p)) name))"
    by (auto simp: job_steps_def jobs_node_def mapping_mnode)
  then obtain n where n: "map_of (map (\<lambda>j. (jp_name j, job_node j)) (rp_jobs p)) name = Some n"
    by (cases "map_of (map (\<lambda>j. (jp_name j, job_node j)) (rp_jobs p)) name") (auto simp: steps_def)
  from map_of_SomeD [OF this] obtain j where "j \<in> set (rp_jobs p)" "n = job_node j" by auto
  with n step show ?thesis by (intro bexI [of _ j]) (simp_all add: steps_job_node)
qed

lemma jobs_node_conform:
  assumes "plain_policy p"
  shows "jobs_conform (jobs_node p) p"
  unfolding jobs_conform_def
proof (intro conjI ballI)
  have plain: "distinct (jobNames p)" "\<forall>j \<in> set (rp_jobs p). plain_job j"
    using assms by (simp_all add: plain_policy_def list_all_iff)
  show "set (mapKeys (Some (jobs_node p))) = set (jobNames p)"
    by (simp add: jobs_node_def keys_mnode jobNames_def comp_def)
  fix j assume "j \<in> set (rp_jobs p)"
  then show "job_conforms (mapping (Some (jobs_node p)) (jp_name j)) j"
    using plain by (simp add: jobs_lookup job_node_conforms)
next
  fix step assume "step \<in> job_steps (jobs_node p)"
  then obtain q where "plain_step q" "step = step_node q"
    using job_steps_node [of step p] assms by (auto simp: plain_policy_def plain_job_def list_all_iff)
  then show "scalar (mapping (Some step) ''uses'') = [] \<or> pinned (scalar (mapping (Some step) ''uses''))"
    and "\<not> Contains (scalar (mapping (Some step) ''run'')) ''${{''"
    using step_node_refs by auto
qed

lemma sameStringSet_sort: "sameStringSet xs ys \<Longrightarrow> sameStringSet (sort ys) xs"
  by (simp add: sameStringSet_iff)

lemma workflow_jobs: "mapping (Some (workflow_node p)) ''jobs'' = Some (jobs_node p)"
  by (simp add: workflow_node_def mapping_mnode)

lemma permissions_node:
  assumes "plain_map m" and "''contents'' \<in> fst ` set m"
  shows "exact_scalar (mapping (Some (map_node m)) ''contents'') (map_value m ''contents'')"
    and "set (mapKeys (Some (map_node m))) \<subseteq> fst ` set m"
proof -
  obtain v where v: "(''contents'', v) \<in> set m" using assms(2) by auto
  then have "map_of m ''contents'' = Some v" using assms(1) by (simp add: plain_map_def)
  then show "exact_scalar (mapping (Some (map_node m)) ''contents'') (map_value m ''contents'')"
    using exact_map_node [OF assms(1)] v by (auto simp: exact_map_def map_value_def)
  show "set (mapKeys (Some (map_node m))) \<subseteq> fst ` set m"
    using exact_map_node [OF assms(1)] by (simp add: exact_map_def)
qed

lemma workflow_node_conforms:
  assumes "plain_policy p"
  shows "conforms (workflow_node p) p"
proof -
  have maps: "plain_map (rp_env p)" "plain_map (rp_concurrency p)" "plain_map (rp_topPermission p)"
    and keys: "sameStringSet (rp_rootKeys p) [''name'', ''on'', ''permissions'', ''env'', ''concurrency'', ''jobs'']"
      "sameStringSet (rp_triggerKeys p) [''push'', ''workflow_dispatch'']" "sameStringSet (rp_pushKeys p) [''tags'']"
    and jobs: "distinct (jobNames p)" "\<forall>j \<in> set (rp_jobs p). plain_job j"
    using assms by (simp_all add: plain_policy_def list_all_iff)
  have "unique_keys (jobs_node p)"
    using jobs by (auto simp: jobs_node_def unique_mnode jobNames_def comp_def job_node_unique)
  then have "unique_keys (workflow_node p)"
    using maps by (simp add: workflow_node_def unique_mnode list_all_iff)
  moreover have "sameStringSet (mapKeys (Some (workflow_node p))) (rp_rootKeys p)"
    using sameStringSet_sort [OF keys(1)] by (simp add: workflow_node_def keys_mnode)
  moreover have "triggers_conform (mapping (Some (workflow_node p)) ''on'') p"
    using sameStringSet_sort [OF keys(2)] sameStringSet_sort [OF keys(3)]
    by (simp add: triggers_conform_def workflow_node_def mapping_mnode keys_mnode seqStrings_def comp_def sameStringSet_iff)
  moreover have "permissions_conform (mapping (Some (workflow_node p)) ''permissions'') p"
    using permissions_node [OF maps(3)] assms
    by (simp add: permissions_conform_def workflow_node_def mapping_mnode plain_policy_def)
  ultimately show ?thesis
    using jobs_node_conform [OF assms] maps
    by (simp add: conforms_def workflow_jobs)
      (simp add: workflow_node_def mapping_mnode exact_map_node exact_scalar_def)
qed

section \<open>The accepted workflow\<close>

abbreviation accepted_workflow :: node where
  "accepted_workflow \<equiv> workflow_node newAcceptedReleasePolicy"

lemma plain_jobs:
  "plain_job unsupported_ref_job" "plain_job verify_tag_job" "plain_job check_job" "plain_job race_job" "plain_job vuln_job"
  "plain_job gosec_job" "plain_job sbom_job" "plain_job sbom_attestation_job"
  by code_simp+

lemma plain_release_job: "plain_job release_job"
  by code_simp

lemma accepted_plain: "plain_policy newAcceptedReleasePolicy"
proof -
  have "list_all plain_job (rp_jobs newAcceptedReleasePolicy)" by (simp add: accepted_jobs plain_jobs plain_release_job)
  then show ?thesis
    by (simp add: plain_policy_def accepted_jobNames) (simp add: newAcceptedReleasePolicy_def plain_map_def sameStringSet_def contains_def)
qed

lemma accepted_workflow_passes:
  "checkWorkflowAgainstPolicy ''release.yml'' accepted_workflow newAcceptedReleasePolicy = []"
  by (simp add: checkWorkflow_iff accepted_catalogue workflow_node_conforms accepted_plain)

lemma accepted_release_gated_witness: "\<exists>jobs. mapping (Some accepted_workflow) ''jobs'' = Some jobs
    \<and> (depends jobs)\<^sup>+\<^sup>+ ''release'' ''gosec''
    \<and> (\<forall>name \<in> set (mapKeys (Some jobs)) - {''release''}. contents_permission accepted_workflow (mapping (Some jobs) name) = ''read'')"
  using accepted_release_gated [OF accepted_workflow_passes] by auto

end
