(* ===== verification/Go_Os.thy ===== *)
theory Go_Os
  imports Go_Strings
begin

text \<open>
  The part of Go's \<open>os\<close>, \<open>io/fs\<close> and \<open>filepath\<close> packages that the release tools use, on an explicit file tree. The tree below
  the repository root is a value: the tools only read it (one writes one file at its end), and nothing else
  changes it while they run. A path is the list of its components below the repository root; the tools build
  it with \<open>filepath.Join\<close> from components that are neither empty nor dots.
\<close>

section \<open>Errors and file information\<close>

datatype errno = ENOENT | Errno string

text \<open>A \<open>*fs.PathError\<close>.\<close>

datatype os_error = Path_Error (pe_op: string) (pe_path: "string list") (pe_errno: errno)

definition errno_text :: "errno \<Rightarrow> string" where
  "errno_text e = (case e of ENOENT \<Rightarrow> ''no such file or directory'' | Errno s \<Rightarrow> s)"

definition not_exist :: "os_error \<Rightarrow> bool" where
  "not_exist e \<longleftrightarrow> pe_errno e = ENOENT"

text \<open>The type bits of a mode that the tools test, and its permission bits.\<close>

datatype file_type = Regular | Directory | Symlink | Irregular

record file_info =
  fi_type :: file_type
  fi_perm :: nat

definition executable :: "file_info \<Rightarrow> bool" where
  "executable info \<longleftrightarrow> (fi_perm info div 64) mod 2 = 1 \<or> (fi_perm info div 8) mod 2 = 1 \<or> fi_perm info mod 2 = 1"

section \<open>File trees\<close>

text \<open>
  A file has its contents and, where reading does not reach its end, the error; so has a device, a socket or a pipe, whose
  contents are what the process would read from it. A directory may refuse to be listed or to be searched (with an error
  other than that a file is missing). A symbolic link has the name that it points to: what is behind it is
  outside the tree, and the argument \<open>beyond\<close> of the operations, from the link and the remaining path.
\<close>

datatype inode =
    File (f_perm: nat) (f_open: "errno option") (f_content: string) (f_read: "errno option")
  | Dir (d_perm: nat) (d_list: "errno option") (d_search: "string option") (d_entries: "(string \<times> inode) list")
  | Link string
  | Device (v_perm: nat) (v_open: "errno option") (v_content: string) (v_read: "errno option")

type_synonym links = "string \<Rightarrow> string list \<Rightarrow> errno + inode"

text \<open>
  The name of the repository root, the error of a lookup below it where every one fails, what is in that directory
  otherwise, and what its links lead to. The tools only look up paths of at least one component below the root. So a root
  that does not exist has no entries: every lookup fails with the error that the file is missing. A root that is a file
  has the error that it is not a directory, and one that may not be searched its own; the root's own mode and listing are
  never read.
\<close>

record repo =
  repo_root :: string
  repo_search :: "string option"
  repo_entries :: "(string \<times> inode) list"
  repo_links :: links

definition repo_tree :: "repo \<Rightarrow> inode" where
  "repo_tree r = Dir 493 None (repo_search r) (repo_entries r)"

definition file_type :: "inode \<Rightarrow> file_type" where
  "file_type f = (case f of File p e c r \<Rightarrow> Regular | Dir p l s es \<Rightarrow> Directory | Link t \<Rightarrow> Symlink | Device p e c r \<Rightarrow> Irregular)"

definition info_of :: "inode \<Rightarrow> file_info" where
  "info_of f = \<lparr>fi_type = file_type f,
     fi_perm = (case f of File p e c r \<Rightarrow> p | Dir p l s es \<Rightarrow> p | Link t \<Rightarrow> 511 | Device p e c r \<Rightarrow> p)\<rparr>"

text \<open>The lookup of a path without following its last component.\<close>

fun walk :: "links \<Rightarrow> inode \<Rightarrow> string list \<Rightarrow> errno + inode" where
  "walk beyond f [] = Inr f"
| "walk beyond (Dir p l s es) (n # ns) =
     (case s of
        Some e \<Rightarrow> Inl (Errno e)
      | None \<Rightarrow> (case map_of es n of None \<Rightarrow> Inl ENOENT | Some f \<Rightarrow> walk beyond f ns))"
| "walk beyond (Link t) (n # ns) = beyond t (n # ns)"
| "walk beyond f (n # ns) = Inl (Errno ''not a directory'')"

text \<open>And with following it.\<close>

definition resolve :: "links \<Rightarrow> inode \<Rightarrow> string list \<Rightarrow> errno + inode" where
  "resolve beyond f path =
     (case walk beyond f path of
        Inl e \<Rightarrow> Inl e
      | Inr g \<Rightarrow> (case g of Link t \<Rightarrow> beyond t [] | _ \<Rightarrow> Inr g))"

section \<open>The calls\<close>

definition path_error :: "string \<Rightarrow> string list \<Rightarrow> errno + 'a \<Rightarrow> os_error + 'a" where
  "path_error op path r = map_sum (Path_Error op path) id r"

definition Lstat :: "repo \<Rightarrow> string list \<Rightarrow> os_error + file_info" where
  "Lstat r path = path_error ''lstat'' path (map_sum id info_of (walk (repo_links r) (repo_tree r) path))"

text \<open>\<open>os.Open\<close> of a file to be read: its contents as far as they can be read, and the error of the reading.\<close>

definition Open :: "repo \<Rightarrow> string list \<Rightarrow> os_error + string \<times> os_error option" where
  "Open r path =
     (case resolve (repo_links r) (repo_tree r) path of
        Inl e \<Rightarrow> Inl (Path_Error ''open'' path e)
      | Inr f \<Rightarrow>
          (case f of
             File p (Some e) c d \<Rightarrow> Inl (Path_Error ''open'' path e)
           | File p None c d \<Rightarrow> Inr (c, map_option (Path_Error ''read'' path) d)
           | Dir p (Some e) s es \<Rightarrow> Inl (Path_Error ''open'' path e)
           | Dir p None s es \<Rightarrow> Inr ([], Some (Path_Error ''read'' path (Errno ''is a directory'')))
           | Link t \<Rightarrow> Inl (Path_Error ''open'' path (Errno ''too many levels of symbolic links''))
           | Device p (Some e) c d \<Rightarrow> Inl (Path_Error ''open'' path e)
           | Device p None c d \<Rightarrow> Inr (c, map_option (Path_Error ''read'' path) d)))"

definition ReadFile :: "repo \<Rightarrow> string list \<Rightarrow> os_error + string" where
  "ReadFile r path =
     (case Open r path of
        Inl e \<Rightarrow> Inl e
      | Inr (content, None) \<Rightarrow> Inr content
      | Inr (content, Some e) \<Rightarrow> Inl e)"

text \<open>\<open>os.ReadDir\<close>: the entries by name, the order in which a directory keeps them here.\<close>

definition ReadDir :: "repo \<Rightarrow> string list \<Rightarrow> os_error + (string \<times> inode) list" where
  "ReadDir r path =
     (case resolve (repo_links r) (repo_tree r) path of
        Inl e \<Rightarrow> Inl (Path_Error ''open'' path e)
      | Inr f \<Rightarrow>
          (case f of
             Dir p None s es \<Rightarrow> Inr es
           | Dir p (Some e) s es \<Rightarrow> Inl (Path_Error ''open'' path e)
           | _ \<Rightarrow> Inl (Path_Error ''fdopendir'' path (Errno ''not a directory''))))"

text \<open>\<open>err.Error()\<close> of a path error; the message names the full path.\<close>

definition full_path :: "repo \<Rightarrow> string list \<Rightarrow> string" where
  "full_path r path = Join (repo_root r # path) ''/''"

definition Error :: "repo \<Rightarrow> os_error \<Rightarrow> string" where
  "Error r e = pe_op e @ '' '' @ full_path r (pe_path e) @ '': '' @ errno_text (pe_errno e)"

text \<open>A constant slash path, as \<open>filepath.Join(repoRoot, path)\<close> reads it.\<close>

definition slash_path :: "string \<Rightarrow> string list" where
  "slash_path path = Split path CHR ''/''"


end
