(* ===== verification/Release_Files.thy ===== *)
theory Release_Files
  imports Release_Correct Go_Os
begin

text \<open>
  tools/releasepolicy/main.go: reading YAML files and the checks of the other files of the repository: signing
  keys, scripts, support files and the Syft configuration. The parser of gopkg.in/yaml.v3 is a parameter:
  it gives the content of the document node, or the text of its error. An error of the tool is its text.
\<close>

section \<open>Reading\<close>

type_synonym yaml_parser = "string \<Rightarrow> string + node list"

definition loadYAML :: "repo \<Rightarrow> yaml_parser \<Rightarrow> string list \<Rightarrow> string + node" where
  "loadYAML r Unmarshal path =
     (case ReadFile r path of
        Inl e \<Rightarrow> Inl (Error r e)
      | Inr content \<Rightarrow>
          (case Unmarshal content of
             Inl e \<Rightarrow> Inl (full_path r path @ '': '' @ e)
           | Inr doc \<Rightarrow>
               if length doc \<noteq> 1 then Inl (full_path r path @ '': expected one YAML document'')
               else Inr (doc ! 0)))"

section \<open>Signing keys, scripts and support files\<close>

definition checkAllowedSigners :: "repo \<Rightarrow> releasePolicy \<Rightarrow> finding list" where
  "checkAllowedSigners r policy =
     (let path = ''.github/allowed_signers''
      in case ReadFile r (slash_path path) of
           Inl e \<Rightarrow> [Finding path (Error r e)]
         | Inr content \<Rightarrow>
             if unix_lines content \<noteq> rp_expectedSigners policy
             then [Finding path ''allowed_signers must exactly match the accepted maintainer signing keys'']
             else [])"

definition required_script :: "repo \<Rightarrow> string \<Rightarrow> finding list" where
  "required_script r path =
     (case Lstat r (slash_path path) of
        Inl e \<Rightarrow> if not_exist e then [Finding path ''missing required release helper''] else [Finding path (Error r e)]
      | Inr info \<Rightarrow>
          if fi_type info = Symlink then [Finding path ''required release helper must be a regular file'']
          else if fi_type info \<noteq> Regular then [Finding path ''required release helper must be a regular file'']
          else if \<not> executable info then [Finding path ''required release helper must be executable'']
          else [])"

definition checkRequiredScripts :: "repo \<Rightarrow> releasePolicy \<Rightarrow> finding list" where
  "checkRequiredScripts r policy = concat (map (required_script r) (rp_requiredScripts policy))"

definition required_file :: "repo \<Rightarrow> string \<Rightarrow> finding list" where
  "required_file r path =
     (case Lstat r (slash_path path) of
        Inl e \<Rightarrow> if not_exist e then [Finding path ''missing required release support file''] else [Finding path (Error r e)]
      | Inr info \<Rightarrow>
          if fi_type info \<noteq> Regular then [Finding path ''required release support file must be a regular file''] else [])"

definition checkRequiredFiles :: "repo \<Rightarrow> releasePolicy \<Rightarrow> finding list" where
  "checkRequiredFiles r policy = concat (map (required_file r) (rp_requiredFiles policy))"

section \<open>The Syft configuration\<close>

definition checkSyftReleaseConfig :: "string \<Rightarrow> node \<Rightarrow> releaseConfigPolicy \<Rightarrow> finding list" where
  "checkSyftReleaseConfig path root policy =
     (let duplicates = checkDuplicateKeys path ''$'' root
      in if duplicates \<noteq> [] then duplicates
         else if n_kind root \<noteq> MappingNode then fail path ''$'' ''release config must be a mapping''
         else expectOnlyKeys path ''$'' (Some root) [''source'', ''exclude'']
           @ expectExactScalars path ''source'' (mapping (Some root) ''source'') [(''name'', cp_sourceName policy)]
           @ expectExactStringSequence path ''exclude'' (mapping (Some root) ''exclude'') (cp_excludes policy))"

definition required_config :: "repo \<Rightarrow> yaml_parser \<Rightarrow> releaseConfigPolicy \<Rightarrow> finding list" where
  "required_config r Unmarshal config =
     (let path = cp_path config; full = slash_path path
      in case Lstat r full of
           Inl e \<Rightarrow> if not_exist e then [Finding path ''missing required release config''] else [Finding path (Error r e)]
         | Inr info \<Rightarrow>
             if fi_type info = Symlink then [Finding path ''required release config must not be a symlink'']
             else if fi_type info = Directory then [Finding path ''expected file, got directory'']
             else if fi_type info \<noteq> Regular then [Finding path ''required release config must be a regular file'']
             else (case loadYAML r Unmarshal full of
                     Inl e \<Rightarrow> [Finding path e]
                   | Inr root \<Rightarrow> checkSyftReleaseConfig path root config))"

definition checkRequiredConfigs :: "repo \<Rightarrow> yaml_parser \<Rightarrow> releasePolicy \<Rightarrow> finding list" where
  "checkRequiredConfigs r Unmarshal policy = concat (map (required_config r Unmarshal) (rp_requiredConfigs policy))"

section \<open>What they accept\<close>

text \<open>A path that names a regular file, not through a link at its end.\<close>

definition regular :: "repo \<Rightarrow> string \<Rightarrow> bool" where
  "regular r path \<longleftrightarrow> (\<exists>info. Lstat r (slash_path path) = Inr info \<and> fi_type info = Regular)"

definition syft_conforms :: "node \<Rightarrow> releaseConfigPolicy \<Rightarrow> bool" where
  "syft_conforms root policy \<longleftrightarrow> unique_keys root \<and> keys_within (Some root) [''source'', ''exclude'']
   \<and> exact_map (mapping (Some root) ''source'') [(''name'', cp_sourceName policy)]
   \<and> (\<exists>m. mapping (Some root) ''exclude'' = Some m \<and> n_kind m = SequenceNode
        \<and> list_all (\<lambda>i. n_kind i = ScalarNode) (n_content m) \<and> map n_value (n_content m) = cp_excludes policy)"

definition files_conform :: "repo \<Rightarrow> yaml_parser \<Rightarrow> releasePolicy \<Rightarrow> bool" where
  "files_conform r Unmarshal policy \<longleftrightarrow>
     (\<exists>content. ReadFile r (slash_path ''.github/allowed_signers'') = Inr content \<and> unix_lines content = rp_expectedSigners policy)
   \<and> (\<forall>path \<in> set (rp_requiredScripts policy). \<exists>info. Lstat r (slash_path path) = Inr info
        \<and> fi_type info = Regular \<and> executable info)
   \<and> (\<forall>path \<in> set (rp_requiredFiles policy). regular r path)
   \<and> (\<forall>config \<in> set (rp_requiredConfigs policy). regular r (cp_path config)
        \<and> (\<exists>root. loadYAML r Unmarshal (slash_path (cp_path config)) = Inr root \<and> syft_conforms root config))"

lemma checkSyftReleaseConfig_iff: "checkSyftReleaseConfig c root policy = [] \<longleftrightarrow> syft_conforms root policy"
  by (auto simp: checkSyftReleaseConfig_def syft_conforms_def expectOnlyKeys_iff expectExactScalars_iff
      expectExactStringSequence_iff keys_within_def duplicates_iff(1) Let_def)

lemma files_conform_iff:
  "checkAllowedSigners r policy @ checkRequiredScripts r policy @ checkRequiredFiles r policy
     @ checkRequiredConfigs r Unmarshal policy = [] \<longleftrightarrow> files_conform r Unmarshal policy"
proof -
  have "checkAllowedSigners r policy = [] \<longleftrightarrow>
      (\<exists>content. ReadFile r (slash_path ''.github/allowed_signers'') = Inr content \<and> unix_lines content = rp_expectedSigners policy)"
    by (simp add: checkAllowedSigners_def Let_def split: sum.split)
  moreover have "required_script r path = [] \<longleftrightarrow>
      (\<exists>info. Lstat r (slash_path path) = Inr info \<and> fi_type info = Regular \<and> executable info)" for path
    by (simp add: required_script_def split: sum.split)
  moreover have "required_file r path = [] \<longleftrightarrow> regular r path" for path
    by (simp add: required_file_def regular_def split: sum.split)
  moreover have "required_config r Unmarshal config = [] \<longleftrightarrow> regular r (cp_path config)
      \<and> (\<exists>root. loadYAML r Unmarshal (slash_path (cp_path config)) = Inr root \<and> syft_conforms root config)" for config
    by (simp add: required_config_def regular_def checkSyftReleaseConfig_iff Let_def split: sum.split)
  ultimately show ?thesis
    by (simp add: files_conform_def checkRequiredScripts_def checkRequiredFiles_def checkRequiredConfigs_def)
qed

end
