(* ===== verification/Scan_Policy.thy ===== *)
theory Scan_Policy
  imports Release_Files
begin

text \<open>
  tools/releasepolicy/gosec_policy.go: the rules for the gosec and golangci-lint scans in the Taskfile and in the SAST
  workflow. Each function reads its file and returns an error, or its findings.
\<close>

section \<open>The Taskfile\<close>

definition not_false :: "node option \<Rightarrow> bool" where
  "not_false n \<longleftrightarrow> (case n of
     None \<Rightarrow> False
   | Some m \<Rightarrow> n_kind m \<noteq> ScalarNode \<or> n_tag m \<noteq> ''!!bool'' \<or> \<not> EqualFold (n_value m) ''false'')"

definition gosec_command_findings :: "string \<Rightarrow> string \<Rightarrow> finding list" where
  "gosec_command_findings c command =
     (if \<not> HasPrefix command ''{{.GOSEC}} '' \<or> \<not> HasSuffix command '' ./...''
      then fail c ''tasks.gosec.cmds[0]''
             (''gosec task command '' @ quote command @ '' must own scan policy between {{.GOSEC}} and ./...'') else [])
     @ (if ''-no-fail'' \<in> set (Fields command)
        then fail c ''tasks.gosec.cmds[0]'' ''gosec task must not use -no-fail'' else [])"

definition gosec_task_findings :: "string \<Rightarrow> node \<Rightarrow> finding list" where
  "gosec_task_findings c root =
     (let task = mapping (mapping (Some root) ''tasks'') ''gosec''
      in (if not_false (mapping task ''ignore_error'')
          then fail c ''tasks.gosec.ignore_error'' ''gosec task must not ignore errors'' else [])
         @ (case mapping task ''cmds'' of
              None \<Rightarrow> fail c ''tasks.gosec.cmds'' ''gosec task must contain exactly one command''
            | Some commands \<Rightarrow>
                if n_kind commands \<noteq> SequenceNode \<or> length (n_content commands) \<noteq> 1
                then fail c ''tasks.gosec.cmds'' ''gosec task must contain exactly one command''
                else gosec_command_findings c (scalar (Some (n_content commands ! 0)))))"

definition checkGosecTaskPolicy :: "repo \<Rightarrow> yaml_parser \<Rightarrow> string + finding list" where
  "checkGosecTaskPolicy r Unmarshal =
     (case loadYAML r Unmarshal (slash_path ''Taskfile.yml'') of
        Inl e \<Rightarrow> Inl e
      | Inr root \<Rightarrow>
          (let duplicates = checkDuplicateKeys ''Taskfile.yml'' ''$'' root
           in Inr (if duplicates \<noteq> [] then duplicates else gosec_task_findings ''Taskfile.yml'' root)))"

definition golangci_task_findings :: "string \<Rightarrow> node \<Rightarrow> finding list" where
  "golangci_task_findings c root =
     (let task = mapping (mapping (Some root) ''tasks'') ''lint:golangci'';
          message = ''lint:golangci task must contain the config check and exactly one lint command''
      in case mapping task ''cmds'' of
           None \<Rightarrow> fail c ''tasks.lint:golangci.cmds'' message
         | Some commands \<Rightarrow>
             if n_kind commands \<noteq> SequenceNode \<or> length (n_content commands) \<noteq> 2
             then fail c ''tasks.lint:golangci.cmds'' message
             else
               (let command = scalar (Some (n_content commands ! 1))
                in if \<not> Contains command ''{{.GOLANGCI_LINT}} run {{.GOLANGCI_ARGS}}''
                      \<or> \<not> Contains command (CHR 0x22 # ''{{.GO_TOOL}}'' @ CHR 0x22 # '' run golangci-lint run {{.GOLANGCI_ARGS}}'')
                   then fail c ''tasks.lint:golangci.cmds[1]''
                          (''lint:golangci command '' @ quote command @ '' must route both branches through {{.GOLANGCI_ARGS}}'')
                   else []))"

definition checkGolangciTaskPolicy :: "repo \<Rightarrow> yaml_parser \<Rightarrow> string + finding list" where
  "checkGolangciTaskPolicy r Unmarshal =
     (case loadYAML r Unmarshal (slash_path ''Taskfile.yml'') of
        Inl e \<Rightarrow> Inl e
      | Inr root \<Rightarrow>
          (let duplicates = checkDuplicateKeys ''Taskfile.yml'' ''$'' root
           in Inr (if duplicates \<noteq> [] then duplicates else golangci_task_findings ''Taskfile.yml'' root)))"

section \<open>The SAST workflow\<close>

definition scan_routing_findings :: "string \<Rightarrow> node \<Rightarrow> string \<Rightarrow> string \<Rightarrow> string \<Rightarrow> finding list" where
  "scan_routing_findings c root jobName stepID wantCommand =
     (let job = mapping (mapping (Some root) ''jobs'') jobName;
          scanSteps = filter (\<lambda>(idx, step). scalar (mapping (Some step) ''id'') = stepID) (enumerate 0 (steps job));
          taskInstallIndices = map fst (filter (\<lambda>(idx, step). scalar (mapping (Some step) ''run'') = acceptedTaskInstallCommand)
                                          (enumerate 0 (steps job)))
      in if length scanSteps \<noteq> 1
         then fail c (''jobs.'' @ jobName @ ''.steps'')
                (''scan lane must contain exactly one id '' @ stepID @ '' step got '' @ itoa (length scanSteps))
         else
           (let (scanStepIndex, scan) = last scanSteps; got = scalar (mapping (Some scan) ''run'')
            in (if got \<noteq> wantCommand
                then fail c (''jobs.'' @ jobName @ ''.steps.'' @ stepID @ ''.run'')
                       (''scan lane command got '' @ quote got @ '' want '' @ quote wantCommand)
                else [])
               @ (if length taskInstallIndices \<noteq> 1 \<or> taskInstallIndices ! 0 \<ge> scanStepIndex
                  then fail c (''jobs.'' @ jobName @ ''.steps'') ''scan lane must install task before scanning'' else [])))"

definition checkScanWorkflowTaskRouting ::
    "repo \<Rightarrow> yaml_parser \<Rightarrow> string \<Rightarrow> string \<Rightarrow> string \<Rightarrow> string \<Rightarrow> string + finding list" where
  "checkScanWorkflowTaskRouting r Unmarshal filename jobName stepID wantCommand =
     (let path = ''.github/workflows/'' @ filename
      in case loadYAML r Unmarshal (slash_path path) of
           Inl e \<Rightarrow> Inl e
         | Inr root \<Rightarrow>
             (let duplicates = checkDuplicateKeys path ''$'' root
              in Inr (if duplicates \<noteq> [] then duplicates else scan_routing_findings path root jobName stepID wantCommand)))"

text \<open>
  The loop of \<open>checkSASTFailurePolicy\<close>: the position of the last scan step, that of the last report step (\<open>-1\<close> when
  there is none) and the report step; or the finding it returns.
\<close>

fun sast_steps :: "(nat \<times> node) list \<Rightarrow> int \<times> int \<times> node option \<Rightarrow> finding list + int \<times> int \<times> node option" where
  "sast_steps [] (scanIndex, reportIndex, reportStep) = Inr (scanIndex, reportIndex, reportStep)"
| "sast_steps ((idx, step) # rest) (scanIndex, reportIndex, reportStep) =
     (let is_scan = (scalar (mapping (Some step) ''id'') = ''sast'');
          is_report = (scalar (mapping (Some step) ''name'') = ''Report golangci-lint result'')
      in if is_scan \<and> mapping (Some step) ''if'' \<noteq> None
         then Inl [Finding ''.github/workflows/sast-gate.yml:jobs.sast-gate.steps.sast.if''
                     ''SAST scan step must not declare an if condition'']
         else sast_steps rest
           (if is_scan then int idx else scanIndex,
            if is_report then int idx else reportIndex,
            if is_report then Some step else reportStep))"

definition blocking :: "node option \<Rightarrow> bool" where
  "blocking n \<longleftrightarrow> \<not> (mapping n ''continue-on-error'' \<noteq> None \<and> scalar (mapping n ''continue-on-error'') \<noteq> ''false'')"

definition sast_failed :: string where
  "sast_failed = ''steps.sast.outcome == '' @ CHR 0x27 # ''failure'' @ [CHR 0x27]"

definition sast_findings :: "node \<Rightarrow> finding list" where
  "sast_findings root =
     (let path = ''.github/workflows/sast-gate.yml''; job = mapping (mapping (Some root) ''jobs'') ''sast-gate''
      in if mapping job ''if'' \<noteq> None
         then [Finding (path @ '':jobs.sast-gate.if'') ''SAST job must not declare an if condition'']
         else if \<not> blocking job
         then [Finding (path @ '':jobs.sast-gate.continue-on-error'') ''SAST job must remain blocking'']
         else
           (case sast_steps (enumerate 0 (steps job)) (- 1, - 1, None) of
              Inl findings \<Rightarrow> findings
            | Inr (scanIndex, reportIndex, reportStep) \<Rightarrow>
                if reportStep = None \<or> scalar (mapping reportStep ''if'') \<noteq> sast_failed
                   \<or> scalar (mapping reportStep ''run'') \<noteq> ''exit 1''
                then [Finding (path @ '':jobs.sast-gate.steps'') ''SAST report step must fail the job when the scan fails'']
                else if \<not> blocking reportStep
                then [Finding (path @ '':jobs.sast-gate.steps.Report golangci-lint result.continue-on-error'')
                        ''SAST report step must remain blocking'']
                else if scanIndex < 0 \<or> reportIndex \<le> scanIndex
                then [Finding (path @ '':jobs.sast-gate.steps'') ''SAST report step must follow the scan'']
                else []))"

definition checkSASTFailurePolicy :: "repo \<Rightarrow> yaml_parser \<Rightarrow> string + finding list" where
  "checkSASTFailurePolicy r Unmarshal =
     map_sum id sast_findings (loadYAML r Unmarshal (slash_path ''.github/workflows/sast-gate.yml''))"

end
