(* ===== verification/Release_Main.thy ===== *)
theory Release_Main
  imports Scan_Policy
begin

text \<open>
  The release policy tool as a whole: \<open>checkRepo\<close> and \<open>main\<close> of tools/releasepolicy/main.go, and what it accepts. The
  flag that names the repository root is \<open>repo_root\<close>.
\<close>

section \<open>The tool\<close>

definition release_checkRepo :: "repo \<Rightarrow> yaml_parser \<Rightarrow> string + finding list" where
  "release_checkRepo r Unmarshal =
     (let policy = newAcceptedReleasePolicy
      in case loadYAML r Unmarshal [''.github'', ''workflows'', ''release.yml''] of
           Inl e \<Rightarrow> Inl e
         | Inr workflow \<Rightarrow>
             (let findings = checkWorkflowAgainstPolicy ''.github/workflows/release.yml'' workflow policy
              in case checkGosecTaskPolicy r Unmarshal of
                   Inl e \<Rightarrow> Inl e
                 | Inr gosecFindings \<Rightarrow>
                     (case checkGolangciTaskPolicy r Unmarshal of
                        Inl e \<Rightarrow> Inl e
                      | Inr golangciFindings \<Rightarrow>
                          (case checkScanWorkflowTaskRouting r Unmarshal ''sast-gate.yml'' ''sast-gate'' ''sast'' acceptedSASTWorkflowCommand of
                             Inl e \<Rightarrow> Inl e
                           | Inr routingFindings \<Rightarrow>
                               (case checkSASTFailurePolicy r Unmarshal of
                                  Inl e \<Rightarrow> Inl e
                                | Inr sastFindings \<Rightarrow>
                                    Inr (findings @ gosecFindings @ golangciFindings @ routingFindings @ sastFindings
                                      @ checkAllowedSigners r policy @ checkRequiredScripts r policy
                                      @ checkRequiredFiles r policy @ checkRequiredConfigs r Unmarshal policy))))))"

definition release_main :: "repo \<Rightarrow> yaml_parser \<Rightarrow> outcome" where
  "release_main r Unmarshal =
     (case release_checkRepo r Unmarshal of
        Inl e \<Rightarrow> \<lparr>exit_status = 2, stdout = [], stderr = ''release policy checker failed: '' @ e @ newline\<rparr>
      | Inr findings \<Rightarrow>
          if findings \<noteq> []
          then \<lparr>exit_status = 1, stdout = [], stderr = concat (map finding_line (sortFindings findings))\<rparr>
          else \<lparr>exit_status = 0, stdout = ''release policy checker passed'' @ newline, stderr = []\<rparr>)"

section \<open>What the scan rules accept\<close>

definition gosec_conforms :: "node \<Rightarrow> bool" where
  "gosec_conforms root \<longleftrightarrow>
     (let task = mapping (mapping (Some root) ''tasks'') ''gosec''
      in unique_keys root \<and> \<not> not_false (mapping task ''ignore_error'')
       \<and> (\<exists>m command. mapping task ''cmds'' = Some m \<and> n_kind m = SequenceNode \<and> n_content m = [command]
            \<and> prefix ''{{.GOSEC}} '' (scalar (Some command)) \<and> suffix '' ./...'' (scalar (Some command))
            \<and> ''-no-fail'' \<notin> set (Fields (scalar (Some command)))))"

definition golangci_conforms :: "node \<Rightarrow> bool" where
  "golangci_conforms root \<longleftrightarrow>
     (let task = mapping (mapping (Some root) ''tasks'') ''lint:golangci''
      in unique_keys root
       \<and> (\<exists>m check command. mapping task ''cmds'' = Some m \<and> n_kind m = SequenceNode \<and> n_content m = [check, command]
            \<and> sublist ''{{.GOLANGCI_LINT}} run {{.GOLANGCI_ARGS}}'' (scalar (Some command))
            \<and> sublist (CHR 0x22 # ''{{.GO_TOOL}}'' @ CHR 0x22 # '' run golangci-lint run {{.GOLANGCI_ARGS}}'') (scalar (Some command))))"

definition has_id :: "string \<Rightarrow> node \<Rightarrow> bool" where
  "has_id v step \<longleftrightarrow> scalar (mapping (Some step) ''id'') = v"

definition has_run :: "string \<Rightarrow> node \<Rightarrow> bool" where
  "has_run v step \<longleftrightarrow> scalar (mapping (Some step) ''run'') = v"

definition has_name :: "string \<Rightarrow> node \<Rightarrow> bool" where
  "has_name v step \<longleftrightarrow> scalar (mapping (Some step) ''name'') = v"

text \<open>The positions of the steps with a property, and the last of them.\<close>

definition at :: "(node \<Rightarrow> bool) \<Rightarrow> node list \<Rightarrow> (nat \<times> node) list" where
  "at P xs = filter (\<lambda>(i, x). P x) (enumerate 0 xs)"

definition latest :: "'a list \<Rightarrow> 'a option" where
  "latest xs = (if xs = [] then None else Some (last xs))"

definition sast_job :: "node \<Rightarrow> node option" where
  "sast_job root = mapping (mapping (Some root) ''jobs'') ''sast-gate''"

text \<open>Exactly one step scans, with the accepted command, and exactly one earlier step installs task.\<close>

definition routing_conforms :: "node \<Rightarrow> bool" where
  "routing_conforms root \<longleftrightarrow> unique_keys root
   \<and> (\<exists>i scan j install. at (has_id ''sast'') (steps (sast_job root)) = [(i, scan)]
        \<and> at (has_run acceptedTaskInstallCommand) (steps (sast_job root)) = [(j, install)]
        \<and> has_run acceptedSASTWorkflowCommand scan \<and> j < i)"

text \<open>A failed scan fails the job: the job and the scan always run, and the last report step, after the scan,
  exits with an error exactly when the scan failed.\<close>

definition sast_conforms :: "node \<Rightarrow> bool" where
  "sast_conforms root \<longleftrightarrow> mapping (sast_job root) ''if'' = None \<and> blocking (sast_job root)
   \<and> (\<forall>step \<in> set (steps (sast_job root)). has_id ''sast'' step \<longrightarrow> mapping (Some step) ''if'' = None)
   \<and> (\<exists>i scan j report. latest (at (has_id ''sast'') (steps (sast_job root))) = Some (i, scan)
        \<and> latest (at (has_name ''Report golangci-lint result'') (steps (sast_job root))) = Some (j, report)
        \<and> i < j \<and> scalar (mapping (Some report) ''if'') = sast_failed \<and> has_run ''exit 1'' report \<and> blocking (Some report))"

section \<open>The scan rules decide it\<close>

lemma gosec_iff:
  "checkDuplicateKeys c p root = [] \<and> gosec_task_findings c root = [] \<longleftrightarrow> gosec_conforms root"
  by (auto simp: gosec_conforms_def gosec_task_findings_def gosec_command_findings_def duplicates_iff(1) Let_def
      length_Suc_conv split: option.split if_splits)

lemma golangci_iff:
  "checkDuplicateKeys c p root = [] \<and> golangci_task_findings c root = [] \<longleftrightarrow> golangci_conforms root"
  by (auto simp: golangci_conforms_def golangci_task_findings_def duplicates_iff(1) Let_def Contains_sublist
      length_Suc_conv numeral_2_eq_2 split: option.split if_splits)

lemma at_filters:
  "filter (\<lambda>(idx, step). scalar (mapping (Some step) ''id'') = v) (enumerate 0 xs) = at (has_id v) xs"
  "filter (\<lambda>(idx, step). scalar (mapping (Some step) ''run'') = v) (enumerate 0 xs) = at (has_run v) xs"
  by (simp_all add: at_def has_id_def has_run_def)

lemma routing_iff:
  "checkDuplicateKeys c p root = [] \<and> scan_routing_findings c root ''sast-gate'' ''sast'' acceptedSASTWorkflowCommand = []
     \<longleftrightarrow> routing_conforms root"
  unfolding scan_routing_findings_def Let_def at_filters duplicates_iff(1) routing_conforms_def sast_job_def [symmetric]
  by (auto simp: length_Suc_conv has_run_def split: if_splits)

lemma latest_Cons: "latest (x # xs) = Some (case latest xs of None \<Rightarrow> x | Some y \<Rightarrow> y)"
  by (simp add: latest_def)

lemma sast_steps_result:
  "sast_steps xs (scanIndex, reportIndex, reportStep) =
     (if \<exists>(i, x) \<in> set xs. has_id ''sast'' x \<and> mapping (Some x) ''if'' \<noteq> None
      then Inl [Finding ''.github/workflows/sast-gate.yml:jobs.sast-gate.steps.sast.if''
                  ''SAST scan step must not declare an if condition'']
      else Inr (case latest (filter (\<lambda>(i, x). has_id ''sast'' x) xs) of None \<Rightarrow> scanIndex | Some (i, x) \<Rightarrow> int i,
                case latest (filter (\<lambda>(i, x). has_name ''Report golangci-lint result'' x) xs) of None \<Rightarrow> reportIndex | Some (i, x) \<Rightarrow> int i,
                case latest (filter (\<lambda>(i, x). has_name ''Report golangci-lint result'' x) xs) of None \<Rightarrow> reportStep | Some (i, x) \<Rightarrow> Some x))"
proof (induction xs arbitrary: scanIndex reportIndex reportStep)
  case Nil
  then show ?case by (simp add: latest_def)
next
  case (Cons y xs)
  obtain i x where y: "y = (i, x)" by force
  have names: "scalar (mapping (Some x) ''id'') = ''sast'' \<longleftrightarrow> has_id ''sast'' x"
    "scalar (mapping (Some x) ''name'') = ''Report golangci-lint result'' \<longleftrightarrow> has_name ''Report golangci-lint result'' x"
    by (simp_all add: has_id_def has_name_def)
  show ?case unfolding y sast_steps.simps names Let_def Cons.IH
    by (simp add: latest_Cons split: option.split)
qed

lemma all_at: "(\<exists>(i, x) \<in> set (enumerate 0 xs). P x) \<longleftrightarrow> (\<exists>x \<in> set xs. P x)"
  using all_enumerate [of 0 xs "\<lambda>x. \<not> P x"] by auto

lemma sast_iff: "sast_findings root = [] \<longleftrightarrow> sast_conforms root"
  unfolding sast_findings_def sast_conforms_def sast_job_def [symmetric] Let_def sast_steps_result at_def [symmetric] all_at
  by (cases "latest (at (has_id ''sast'') (steps (sast_job root)))";
      cases "latest (at (has_name ''Report golangci-lint result'') (steps (sast_job root)))")
    (auto simp: has_run_def split_beta)

section \<open>The tool decides it\<close>

definition workflow_file :: "string list" where
  "workflow_file = [''.github'', ''workflows'', ''release.yml'']"

definition task_file :: "string list" where
  "task_file = slash_path ''Taskfile.yml''"

definition sast_file :: "string list" where
  "sast_file = slash_path ''.github/workflows/sast-gate.yml''"

text \<open>The contract of the repository: what its files must be.\<close>

definition release_ready :: "repo \<Rightarrow> yaml_parser \<Rightarrow> bool" where
  "release_ready r Unmarshal \<longleftrightarrow>
     (\<exists>workflow tasks sast. loadYAML r Unmarshal workflow_file = Inr workflow
        \<and> loadYAML r Unmarshal task_file = Inr tasks \<and> loadYAML r Unmarshal sast_file = Inr sast
        \<and> conforms workflow newAcceptedReleasePolicy \<and> gosec_conforms tasks \<and> golangci_conforms tasks
        \<and> routing_conforms sast \<and> sast_conforms sast)
   \<and> files_conform r Unmarshal newAcceptedReleasePolicy"

lemma checkGosecTaskPolicy_iff:
  "checkGosecTaskPolicy r Unmarshal = Inr [] \<longleftrightarrow> (\<exists>root. loadYAML r Unmarshal task_file = Inr root \<and> gosec_conforms root)"
  by (auto simp: checkGosecTaskPolicy_def task_file_def Let_def gosec_iff [where c = "''Taskfile.yml''" and p = "''$''", symmetric]
      split: sum.split)

lemma checkGolangciTaskPolicy_iff:
  "checkGolangciTaskPolicy r Unmarshal = Inr [] \<longleftrightarrow>
    (\<exists>root. loadYAML r Unmarshal task_file = Inr root \<and> golangci_conforms root)"
  by (auto simp: checkGolangciTaskPolicy_def task_file_def Let_def
      golangci_iff [where c = "''Taskfile.yml''" and p = "''$''", symmetric] split: sum.split)

lemma checkScanWorkflowTaskRouting_iff:
  "checkScanWorkflowTaskRouting r Unmarshal ''sast-gate.yml'' ''sast-gate'' ''sast'' acceptedSASTWorkflowCommand = Inr []
    \<longleftrightarrow> (\<exists>root. loadYAML r Unmarshal sast_file = Inr root \<and> routing_conforms root)"
  by (auto simp: checkScanWorkflowTaskRouting_def sast_file_def Let_def
      routing_iff [where c = "''.github/workflows/sast-gate.yml''" and p = "''$''", symmetric] split: sum.split)

lemma checkSASTFailurePolicy_iff:
  "checkSASTFailurePolicy r Unmarshal = Inr [] \<longleftrightarrow> (\<exists>root. loadYAML r Unmarshal sast_file = Inr root \<and> sast_conforms root)"
  by (cases "loadYAML r Unmarshal sast_file") (simp_all add: checkSASTFailurePolicy_def sast_file_def [symmetric] sast_iff)

lemmas scan_rules_iff = checkGosecTaskPolicy_iff checkGolangciTaskPolicy_iff checkScanWorkflowTaskRouting_iff
  checkSASTFailurePolicy_iff

lemma release_checkRepo_split:
  "release_checkRepo r Unmarshal = Inr [] \<longleftrightarrow>
     (\<exists>workflow. loadYAML r Unmarshal workflow_file = Inr workflow
        \<and> checkWorkflowAgainstPolicy ''.github/workflows/release.yml'' workflow newAcceptedReleasePolicy = [])
   \<and> checkGosecTaskPolicy r Unmarshal = Inr [] \<and> checkGolangciTaskPolicy r Unmarshal = Inr []
   \<and> checkScanWorkflowTaskRouting r Unmarshal ''sast-gate.yml'' ''sast-gate'' ''sast'' acceptedSASTWorkflowCommand = Inr []
   \<and> checkSASTFailurePolicy r Unmarshal = Inr [] \<and> files_conform r Unmarshal newAcceptedReleasePolicy"
  by (auto simp: release_checkRepo_def workflow_file_def Let_def files_conform_iff [symmetric] split: sum.split)

lemma release_checkRepo_iff: "release_checkRepo r Unmarshal = Inr [] \<longleftrightarrow> release_ready r Unmarshal"
  unfolding release_checkRepo_split scan_rules_iff release_ready_def by (auto simp: checkWorkflow_iff accepted_catalogue)

section \<open>Properties\<close>

text \<open>C35. The release policy tool is exact: it exits with status 0 if and only if the repository is ready for a
  release. That is: the release workflow conforms to the accepted policy, the Taskfile owns the scan options and
  does not ignore failures, the SAST workflow scans once with the accepted command after installing task and fails
  when the scan fails, the signing keys are the accepted ones, the scripts are executable regular files, and the
  support files and the Syft configuration are regular files with the accepted contents.\<close>

theorem release_policy_exact:
  "exit_status (release_main r Unmarshal) = 0 \<longleftrightarrow> release_ready r Unmarshal"
  unfolding release_checkRepo_iff [symmetric] by (auto simp: release_main_def split: sum.split)

end
