(* ===== verification/Evidence_Paths.thy ===== *)
theory Evidence_Paths
  imports Findings Go_Os
begin

text \<open>
  tools/evidencebaseline/main.go: references to files in the cells of the baseline table, safe slash paths, and the
  lookup of a repository path that refuses links on the way.
\<close>

section \<open>Safe slash paths\<close>

definition safe_part :: "string \<Rightarrow> bool" where
  "safe_part part \<longleftrightarrow> \<not> (part = [] \<or> part = ''.'' \<or> part = ''..'')"

definition safeSlashPath :: "string \<Rightarrow> bool \<Rightarrow> bool" where
  "safeSlashPath ref allowTrailingSlash =
     (if ref = [] \<or> Contains ref [CHR 0x5C] \<or> Contains ref [CHR 0x00] \<or> Contains ref '':'' \<or> HasPrefix ref ''/'' then False
      else if HasSuffix ref ''/''
      then (if \<not> allowTrailingSlash then False
            else (let ref' = TrimSuffix ref ''/''
                  in if ref' = [] then False else list_all safe_part (Split ref' CHR ''/'')))
      else list_all safe_part (Split ref CHR ''/''))"

definition safeRepoRelativeRef :: "string \<Rightarrow> bool" where
  "safeRepoRelativeRef ref = safeSlashPath ref True"

definition safeBundleRelativePath :: "string \<Rightarrow> bool" where
  "safeBundleRelativePath ref = safeSlashPath ref False"

section \<open>References in backticks\<close>

function trimLeadingDotSlash :: "string \<Rightarrow> string" where
  "trimLeadingDotSlash ref = (if HasPrefix ref ''./'' then trimLeadingDotSlash (TrimPrefix ref ''./'') else ref)"
  by pat_completeness auto
termination by (relation "measure length") (auto simp: TrimPrefix_def elim: prefixE)

declare trimLeadingDotSlash.simps [simp del]

definition looksLikeUnsafeRepoRef :: "string \<Rightarrow> bool" where
  "looksLikeUnsafeRepoRef ref =
     (if safeRepoRelativeRef ref then False
      else HasPrefix (dropWhile (\<lambda>c. c = CHR ''/'') ref) ''docs/'')"

text \<open>The submatches of \<open>backtickRef\<close>: the texts between two backticks, from the left and without overlap.\<close>

definition backtick :: char where "backtick = CHR 0x60"

function backtick_matches :: "string \<Rightarrow> string list" where
  "backtick_matches [] = []"
| "backtick_matches (c # s) =
     (let body = takeWhile (\<lambda>x. x \<noteq> backtick) s; rest = dropWhile (\<lambda>x. x \<noteq> backtick) s
      in if c = backtick \<and> body \<noteq> [] \<and> rest \<noteq> [] then body # backtick_matches (tl rest) else backtick_matches s)"
  by pat_completeness auto
termination
proof (relation "measure length")
  fix c :: char and s body rest
  assume "rest = dropWhile (\<lambda>x. x \<noteq> backtick) s"
  then have "length rest \<le> length s" by (simp add: length_dropWhile_le)
  then show "(tl rest, c # s) \<in> measure length" by simp
qed auto

fun filter_matches :: "(string \<Rightarrow> bool) \<Rightarrow> string \<Rightarrow> string list \<Rightarrow> string list \<Rightarrow> string list \<times> finding list" where
  "filter_matches keep findingPath out [] = (out, [])"
| "filter_matches keep findingPath out (match # matches) =
     (let raw = TrimSpace match; ref = trimLeadingDotSlash raw;
          unsafe = Finding findingPath (''unsafe baseline ref: '' @ raw)
      in if raw = [] then filter_matches keep findingPath out matches
         else if \<not> keep ref
         then (let (refs, findings) = filter_matches keep findingPath out matches
               in (refs, if looksLikeUnsafeRepoRef ref then unsafe # findings else findings))
         else if \<not> safeRepoRelativeRef ref
         then (let (refs, findings) = filter_matches keep findingPath out matches in (refs, unsafe # findings))
         else filter_matches keep findingPath (if ref \<in> set out then out else out @ [ref]) matches)"

definition filteredBacktickRefs :: "string \<Rightarrow> string \<Rightarrow> (string \<Rightarrow> bool) \<Rightarrow> string list \<times> finding list" where
  "filteredBacktickRefs cell findingPath keep = filter_matches keep findingPath [] (backtick_matches cell)"

definition evidenceRefs :: "string \<Rightarrow> string \<Rightarrow> string list \<times> finding list" where
  "evidenceRefs cell findingPath = filteredBacktickRefs cell findingPath (\<lambda>ref. HasPrefix ref ''docs/evidence/'')"

definition summaryRefs :: "string \<Rightarrow> string \<Rightarrow> string list \<times> finding list" where
  "summaryRefs cell findingPath =
     filteredBacktickRefs cell findingPath (\<lambda>ref. HasPrefix ref ''docs/'' \<and> HasSuffix ref ''.md'')"

section \<open>Repository paths\<close>

text \<open>The results of \<open>lstatRepoRelative\<close>: findings, or an error of \<open>os.Lstat\<close> with the path, or the path and its
  information.\<close>

datatype lstat_result =
    Path_Findings "finding list"
  | Path_Err "string list" os_error
  | Path_Info "string list" file_info

fun lstat_parts :: "repo \<Rightarrow> string \<Rightarrow> string \<Rightarrow> string list \<Rightarrow> string list \<Rightarrow> lstat_result" where
  "lstat_parts r ref findingPath full [] = Path_Findings [Finding findingPath (''repository path is empty: '' @ ref)]"
| "lstat_parts r ref findingPath full (part # parts) =
     (let full' = full @ [part]; parent = Join full' ''/''
      in case Lstat r full' of
           Inl err \<Rightarrow>
             if not_exist err \<and> parts \<noteq> []
             then Path_Findings [Finding findingPath (''repository path parent does not exist: '' @ parent)]
             else Path_Err full' err
         | Inr info \<Rightarrow>
             if parts \<noteq> [] \<and> fi_type info = Symlink
             then Path_Findings [Finding findingPath (''repository path contains symlinked parent: '' @ parent)]
             else if parts \<noteq> [] \<and> fi_type info \<noteq> Directory
             then Path_Findings [Finding findingPath (''repository path parent is not a directory: '' @ parent)]
             else if parts = [] then Path_Info full' info
             else lstat_parts r ref findingPath full' parts)"

definition lstatRepoRelative :: "repo \<Rightarrow> string \<Rightarrow> string \<Rightarrow> lstat_result" where
  "lstatRepoRelative r ref findingPath =
     (if \<not> safeRepoRelativeRef ref then Path_Findings [Finding findingPath (''unsafe repository path: '' @ ref)]
      else lstat_parts r ref findingPath [] (Split (TrimSuffix ref ''/'') CHR ''/''))"

definition evidenceBundleForRef :: "string \<Rightarrow> file_info \<Rightarrow> string" where
  "evidenceBundleForRef ref info =
     (let parts = Split (trim_right (\<lambda>c. c = CHR ''/'') (dropWhile (\<lambda>c. c = CHR ''/'') ref)) CHR ''/''
      in if length parts < 3 \<or> parts ! 0 \<noteq> ''docs'' \<or> parts ! 1 \<noteq> ''evidence'' then []
         else if fi_type info = Directory \<or> fi_type info = Symlink \<or> HasSuffix ref ''/'' then Join (take 3 parts) ''/''
         else if length parts \<ge> 4 then Join (take 3 parts) ''/''
         else [])"

section \<open>Laws\<close>

text \<open>The files inside the tree: reached through directories only.\<close>

fun inside :: "inode \<Rightarrow> string list \<Rightarrow> inode option" where
  "inside f [] = Some f"
| "inside (Dir p l None es) (n # ns) = (case map_of es n of None \<Rightarrow> None | Some f \<Rightarrow> inside f ns)"
| "inside f (n # ns) = None"

lemma inside_walk: "inside f path = Some g \<Longrightarrow> walk beyond f path = Inr g"
  by (induction f path rule: inside.induct) (auto split: option.splits)

lemma inside_append: "inside f (ps @ qs) = (case inside f ps of None \<Rightarrow> None | Some g \<Rightarrow> inside g qs)"
  by (induction f ps rule: inside.induct) (auto split: option.splits)

lemma walk_snoc_inside:
  assumes "inside f ps = Some (Dir p l s es)"
  shows "walk beyond f (ps @ [n]) = (case s of Some e \<Rightarrow> Inl (Errno e) | None \<Rightarrow> (case map_of es n of None \<Rightarrow> Inl ENOENT | Some g \<Rightarrow> Inr g))"
  using assms by (induction f ps rule: inside.induct) (auto split: option.splits)

lemma inside_root [simp]: "inside (repo_tree r) [] = Some (repo_tree r)"
  by simp

lemma Lstat_inside:
  assumes "inside (repo_tree r) full = Some (Dir p l s es)"
  shows "Lstat r (full @ [n]) =
    (case s of
       Some e \<Rightarrow> Inl (Path_Error ''lstat'' (full @ [n]) (Errno e))
     | None \<Rightarrow> (case map_of es n of
                 None \<Rightarrow> Inl (Path_Error ''lstat'' (full @ [n]) ENOENT)
               | Some g \<Rightarrow> Inr (info_of g)))"
  using walk_snoc_inside [OF assms, of "repo_links r" n] by (simp add: Lstat_def path_error_def split: option.split)

lemma inside_snoc:
  assumes "inside f full = Some (Dir p l s es)"
  shows "inside f (full @ [n]) = (case s of Some e \<Rightarrow> None | None \<Rightarrow> map_of es n)"
  using assms by (auto simp: inside_append split: option.split)

lemma fi_type_info_of [simp]: "fi_type (info_of f) = file_type f"
  by (simp add: info_of_def)

lemma file_type_iff [simp]:
  "file_type f = Directory \<longleftrightarrow> (\<exists>p l s es. f = Dir p l s es)"
  "file_type f = Symlink \<longleftrightarrow> (\<exists>t. f = Link t)"
  "file_type f = Regular \<longleftrightarrow> (\<exists>p e c d. f = File p e c d)"
  by (cases f; simp add: file_type_def)+

lemma inside_not_Dir: "inside f (full @ n # ns) \<noteq> None \<Longrightarrow> \<exists>p l es. inside f full = Some (Dir p l None es)"
  by (induction f full rule: inside.induct) (auto split: option.splits elim: inside.elims)

text \<open>The lookup of a path below a directory: it succeeds exactly for the files inside the tree.\<close>

lemma lstat_parts_info:
  assumes "inside (repo_tree r) full = Some (Dir p l s es)"
  shows "lstat_parts r ref findingPath full parts = Path_Info path info \<longleftrightarrow>
    parts \<noteq> [] \<and> path = full @ parts \<and> (\<exists>g. inside (repo_tree r) path = Some g \<and> info = info_of g)"
  using assms
proof (induction parts arbitrary: full p l s es)
  case (Cons part parts)
  note lstat = Lstat_inside [OF Cons.prems, of part] and inside = inside_snoc [OF Cons.prems, of part]
  show ?case
  proof (cases "inside (repo_tree r) (full @ [part])")
    case None
    then have "\<nexists>g. inside (repo_tree r) (full @ part # parts) = Some g"
      using inside_append [of "repo_tree r" "full @ [part]" parts] by simp
    moreover have "\<exists>e. Lstat r (full @ [part]) = Inl e" using None lstat inside by (auto split: option.splits)
    ultimately show ?thesis by (auto simp: Let_def split: if_splits)
  next
    case (Some g)
    then have l: "Lstat r (full @ [part]) = Inr (info_of g)" using lstat inside by (auto split: option.splits)
    show ?thesis
    proof (cases g)
      case (Dir p' l' s' es')
      then show ?thesis using Cons.IH [of "full @ [part]"] Some l by (auto simp: Let_def)
    qed (use Some l inside_append [of "repo_tree r" "full @ [part]" parts] in \<open>cases parts; auto simp: Let_def\<close>)+
  qed
qed simp

definition ref_path :: "string \<Rightarrow> string list" where
  "ref_path ref = Split (TrimSuffix ref ''/'') CHR ''/''"

lemma lstatRepoRelative_info:
  "lstatRepoRelative r ref findingPath = Path_Info path info \<longleftrightarrow>
     safeRepoRelativeRef ref \<and> path = ref_path ref
   \<and> (\<exists>g. inside (repo_tree r) path = Some g \<and> info = info_of g)"
  using lstat_parts_info [of r "[]" 493 None "repo_search r" "repo_entries r" ref findingPath "ref_path ref" path info]
  by (auto simp: lstatRepoRelative_def ref_path_def repo_tree_def)

text \<open>What a safe path is made of.\<close>

lemma TrimSuffix_char: "TrimSuffix (s @ [c]) [c] = s" "\<not> suffix [c] s \<Longrightarrow> TrimSuffix s [c] = s"
  by (auto simp: TrimSuffix_def)

lemma set_Join: "set (Join ss sep) \<subseteq> (\<Union>s \<in> set ss. set s) \<union> set sep"
  by (induction ss sep rule: Join.induct) auto

lemma Split_set: "p \<in> set (Split s c) \<Longrightarrow> set p \<subseteq> set s"
proof (induction s arbitrary: p)
  case (Cons x s)
  then show ?case by (cases "Split s c") (fastforce split: if_splits)+
qed simp

definition component :: "string \<Rightarrow> bool" where
  "component part \<longleftrightarrow> part \<notin> {[], ''.'', ''..''} \<and> set part \<inter> {CHR ''/'', CHR 0x5C, CHR 0x00, CHR '':''} = {}"

lemma Contains_char [simp]: "Contains s [c] \<longleftrightarrow> c \<in> set s"
  by (induction s) auto

lemma Split_snoc: "Split (s @ [c]) c = Split s c @ [[]]"
  by (induction s) (auto split: list.split)

lemma Join_components:
  assumes "parts \<noteq> []" and "list_all component parts"
  shows "Split (Join parts ''/'') CHR ''/'' = parts"
    and "\<not> prefix ''/'' (Join parts ''/'')" and "\<not> suffix ''/'' (Join parts ''/'')"
proof -
  show split: "Split (Join parts ''/'') CHR ''/'' = parts"
    using assms by (intro Split_Join) (auto simp: list_all_iff component_def)
  have no_empty: "[] \<notin> set parts" using assms by (auto simp: list_all_iff component_def)
  show "\<not> prefix ''/'' (Join parts ''/'')"
  proof
    assume "prefix ''/'' (Join parts ''/'')"
    then obtain t where "Join parts ''/'' = CHR ''/'' # t" by (auto simp: prefix_def)
    then have "parts = [] # Split t CHR ''/''" using split by simp
    then show False using no_empty by simp
  qed
  show "\<not> suffix ''/'' (Join parts ''/'')"
  proof
    assume "suffix ''/'' (Join parts ''/'')"
    then obtain t where "Join parts ''/'' = t @ ''/''" by (auto simp: suffix_def)
    then have "parts = Split t CHR ''/'' @ [[]]" using split Split_snoc [of t "CHR ''/''"] by simp
    then show False using no_empty by simp
  qed
qed

lemma safe_parts_iff:
  "list_all safe_part (Split ref CHR ''/'') \<and> set ref \<inter> {CHR 0x5C, CHR 0x00, CHR '':''} = {}
     \<longleftrightarrow> (\<exists>parts. parts \<noteq> [] \<and> list_all component parts \<and> ref = Join parts ''/'')"
proof
  let ?parts = "Split ref CHR ''/''"
  assume safe: "list_all safe_part ?parts \<and> set ref \<inter> {CHR 0x5C, CHR 0x00, CHR '':''} = {}"
  have "component part" if "part \<in> set ?parts" for part
    using safe that Split_set [OF that] Split_free [OF that] by (auto simp: component_def safe_part_def list_all_iff)
  then show "\<exists>parts. parts \<noteq> [] \<and> list_all component parts \<and> ref = Join parts ''/''"
    by (intro exI [of _ ?parts]) (simp add: Join_Split list_all_iff)
next
  assume "\<exists>parts. parts \<noteq> [] \<and> list_all component parts \<and> ref = Join parts ''/''"
  then obtain parts where parts: "parts \<noteq> []" "list_all component parts" "ref = Join parts ''/''" by blast
  then have "list_all safe_part (Split ref CHR ''/'')"
    using Join_components(1) by (auto simp: list_all_iff component_def safe_part_def)
  moreover have "set ref \<inter> {CHR 0x5C, CHR 0x00, CHR '':''} = {}"
    using parts set_Join [of parts "''/''"] by (auto simp: list_all_iff component_def)
  ultimately show "list_all safe_part (Split ref CHR ''/'') \<and> set ref \<inter> {CHR 0x5C, CHR 0x00, CHR '':''} = {}" by simp
qed

text \<open>A safe path: the components joined by slashes, and at most one slash after them.\<close>

definition safe_form :: "string \<Rightarrow> bool \<Rightarrow> string list \<Rightarrow> bool" where
  "safe_form ref allowTrailingSlash parts \<longleftrightarrow> parts \<noteq> [] \<and> list_all component parts
     \<and> (ref = Join parts ''/'' \<or> (allowTrailingSlash \<and> ref = Join parts ''/'' @ ''/''))"

lemma safeSlashPath_iff: "safeSlashPath ref allow \<longleftrightarrow> (\<exists>parts. safe_form ref allow parts)"
proof (cases "suffix ''/'' ref")
  case False
  then have "safe_form ref allow parts \<longleftrightarrow> parts \<noteq> [] \<and> list_all component parts \<and> ref = Join parts ''/''" for parts
    by (auto simp: safe_form_def)
  then have "(\<exists>parts. safe_form ref allow parts) \<longleftrightarrow>
      list_all safe_part (Split ref CHR ''/'') \<and> set ref \<inter> {CHR 0x5C, CHR 0x00, CHR '':''} = {}"
    by (simp only: safe_parts_iff)
  moreover have "list_all safe_part (Split ref CHR ''/'') \<Longrightarrow> ref \<noteq> [] \<and> \<not> prefix ''/'' ref"
    by (cases ref) (auto simp: safe_part_def)
  ultimately show ?thesis using False by (auto simp: safeSlashPath_def)
next
  case True
  then obtain t where ref: "ref = t @ ''/''" by (auto simp: suffix_def)
  have "safe_form ref allow parts \<longleftrightarrow> allow \<and> parts \<noteq> [] \<and> list_all component parts \<and> t = Join parts ''/''" for parts
  proof -
    have "parts \<noteq> [] \<Longrightarrow> list_all component parts \<Longrightarrow> ref \<noteq> Join parts ''/''"
      using Join_components(3) [of parts] True by auto
    then show ?thesis by (auto simp: safe_form_def ref)
  qed
  then have "(\<exists>parts. safe_form ref allow parts) \<longleftrightarrow>
      allow \<and> list_all safe_part (Split t CHR ''/'') \<and> set t \<inter> {CHR 0x5C, CHR 0x00, CHR '':''} = {}"
    by (simp only: safe_parts_iff ex_simps)
  moreover have "list_all safe_part (Split t CHR ''/'') \<Longrightarrow> t \<noteq> [] \<and> \<not> prefix ''/'' ref"
    by (cases t) (auto simp: safe_part_def ref)
  ultimately show ?thesis using True
    by (auto simp: safeSlashPath_def TrimSuffix_char ref Let_def)
qed

lemma safe_form_path: "safe_form ref allow parts \<Longrightarrow> ref_path ref = parts"
  by (auto simp: safe_form_def ref_path_def TrimSuffix_char Join_components)

lemma lstatRepoRelative_iff:
  "lstatRepoRelative r ref findingPath = Path_Info path info \<longleftrightarrow>
     safe_form ref True path \<and> (\<exists>f. inside (repo_tree r) path = Some f \<and> info = info_of f)"
proof -
  have "safeRepoRelativeRef ref \<and> path = ref_path ref \<longleftrightarrow> safe_form ref True path"
    by (auto simp: safeRepoRelativeRef_def safeSlashPath_iff dest: safe_form_path)
  then show ?thesis unfolding lstatRepoRelative_info by blast
qed

section \<open>Properties\<close>

text \<open>C36. A reference is looked up inside the repository only: \<open>lstatRepoRelative\<close> gives the information of a file
  exactly when the reference is made of components that are neither empty nor dots and have no slash, backslash,
  colon or null in them, joined by slashes and perhaps ended by one, and those components lead from the
  repository's root through directories, never through a symbolic link, to the file it describes. What
  links lead to has no influence.\<close>

theorem lstatRepoRelative_inside:
  "lstatRepoRelative r ref findingPath = Path_Info path info \<longleftrightarrow>
     safe_form ref True path \<and> (\<exists>f. inside (repo_tree r) path = Some f \<and> info = info_of f)"
  by (rule lstatRepoRelative_iff)

end
