(* ===== verification/Evidence_Index.thy ===== *)
theory Evidence_Index
  imports Evidence_Paths
begin

text \<open>
  tools/evidencebaseline/main.go: the baseline table of docs/evidence-baseline.md and the manifest of summary documents
  that is generated from it.
\<close>

section \<open>Errors\<close>

datatype io_error = Os_Err os_error | Text_Err string

definition err_not_exist :: "io_error \<Rightarrow> bool" where
  "err_not_exist e \<longleftrightarrow> (case e of Os_Err e \<Rightarrow> not_exist e | Text_Err s \<Rightarrow> False)"

definition err_text :: "repo \<Rightarrow> io_error \<Rightarrow> string" where
  "err_text r e = (case e of Os_Err e \<Rightarrow> Error r e | Text_Err s \<Rightarrow> s)"

section \<open>The baseline table\<close>

record baselineRow =
  lane :: string
  rawCell :: string
  summaryCell :: string

definition baselineRef :: string where "baselineRef = ''docs/evidence-baseline.md''"

definition summaryDocsManifestRef :: string where
  "summaryDocsManifestRef = ''docs/evidence-baseline-summary-docs.txt''"

definition splitTableRow :: "string \<Rightarrow> string list" where
  "splitTableRow line = map TrimSpace (Split (TrimSuffix (TrimPrefix (TrimSpace line) ''|'') ''|'') CHR ''|'')"

definition separator_cell :: "string \<Rightarrow> bool" where
  "separator_cell cell \<longleftrightarrow>
     (let cell = TrimSuffix (TrimPrefix (TrimSpace cell) '':'') '':''
      in \<not> length cell < 3 \<and> list_all (\<lambda>c. c = CHR ''-'') cell)"

definition validTableSeparator :: "string list \<Rightarrow> nat \<Rightarrow> bool" where
  "validTableSeparator cells wantCols = (if length cells \<noteq> wantCols then False else list_all separator_cell cells)"

text \<open>
  The loop over the lines: the lines of the table in the section, and whether the loop ended at the next
  heading. An error of the scanner counts only when it did not.
\<close>

fun table_lines :: "bool \<Rightarrow> string list \<Rightarrow> string list \<times> bool" where
  "table_lines inSection [] = ([], False)"
| "table_lines inSection (line # lines) =
     (if HasPrefix line ''## ''
      then (if inSection then ([], True) else table_lines (TrimSpace line = ''## Baseline Index'') lines)
      else
        (let (rest, broke) = table_lines inSection lines
         in (if inSection \<and> HasPrefix (TrimSpace line) ''|'' then line # rest else rest, broke)))"

definition wantHeader :: "string list" where
  "wantHeader = [''Evidence lane'', ''Pinned baseline'', ''Raw artifacts'', ''Summary docs'', ''Freshness rule'']"

fun index_rows :: "string set \<Rightarrow> string list \<Rightarrow> baselineRow list \<times> finding list" where
  "index_rows seenLane [] = ([], [])"
| "index_rows seenLane (line # lines) =
     (let cells = splitTableRow line
      in if length cells \<noteq> length wantHeader
         then (let (rows, findings) = index_rows seenLane lines
               in (rows, Finding baselineRef (''Baseline Index row has wrong column count: '' @ line) # findings))
         else if cells ! 0 = []
         then (let (rows, findings) = index_rows seenLane lines
               in (rows, Finding baselineRef ''Baseline Index row has empty evidence lane'' # findings))
         else
           (let (rows, findings) = index_rows (insert (cells ! 0) seenLane) lines
            in (\<lparr>lane = cells ! 0, rawCell = cells ! 2, summaryCell = cells ! 3\<rparr> # rows,
                if cells ! 0 \<in> seenLane
                then Finding (baselineRef @ '':'' @ cells ! 0) ''duplicate evidence lane'' # findings else findings)))"

definition separator_findings :: "string list \<Rightarrow> finding list" where
  "separator_findings tableLines =
     (if length tableLines < 2 then [Finding baselineRef ''Baseline Index separator is missing'']
      else
        (let separator = splitTableRow (tableLines ! 1)
         in if \<not> validTableSeparator separator (length wantHeader)
            then [Finding baselineRef (''Baseline Index separator got '' @ quotes separator @ '', want ''
                    @ itoa (length wantHeader) @ '' Markdown separator columns'')]
            else []))"

definition index_table :: "string list \<Rightarrow> baselineRow list \<times> finding list" where
  "index_table tableLines =
     (if length tableLines = 0 then ([], [Finding baselineRef ''Baseline Index table is missing or empty''])
      else
        (let header = splitTableRow (tableLines ! 0)
         in if header \<noteq> wantHeader
            then ([], [Finding baselineRef (''Baseline Index header got '' @ quotes header @ '', want '' @ quotes wantHeader)])
            else
              (let separator = separator_findings tableLines;
                   dataStart = (if separator = [] then 2 else 1);
                   (rows, findings) = index_rows {} (drop dataStart tableLines)
               in (rows, separator @ findings
                     @ (if length rows = 0 then [Finding baselineRef ''Baseline Index contains no evidence rows''] else [])))))"

definition parseBaselineIndex :: "repo \<Rightarrow> string list \<Rightarrow> io_error + baselineRow list \<times> finding list" where
  "parseBaselineIndex r path =
     (case ReadFile r path of
        Inl e \<Rightarrow> Inl (Os_Err e)
      | Inr content \<Rightarrow>
          (let (lines, err) = scan_lines content; (tableLines, broke) = table_lines False lines
           in if err \<noteq> None \<and> \<not> broke then Inl (Text_Err (the err)) else Inr (index_table tableLines)))"

section \<open>The summary documents\<close>

text \<open>A Go map from strings to true, as the set of its keys; \<open>sortedKeys\<close> lists it.\<close>

definition sortedKeys :: "string set \<Rightarrow> string list" where
  "sortedKeys ks = sorted_list_of_set ks"

definition baseline_path :: "string list" where
  "baseline_path = [''docs'', ''evidence-baseline.md'']"

definition row_refs :: "baselineRow \<Rightarrow> string list \<times> finding list" where
  "row_refs row = summaryRefs (summaryCell row) (baselineRef @ '':'' @ lane row)"

definition summaryDocsFromBaseline :: "repo \<Rightarrow> io_error + string list \<times> finding list" where
  "summaryDocsFromBaseline r =
     (case parseBaselineIndex r baseline_path of
        Inl e \<Rightarrow> Inl e
      | Inr (rows, findings) \<Rightarrow>
          Inr (sortedKeys (\<Union>row \<in> set rows. set (fst (row_refs row))),
               findings @ concat (map (\<lambda>row. snd (row_refs row)) rows)))"

section \<open>The manifest\<close>

fun manifest_lines :: "nat \<Rightarrow> string list \<Rightarrow> string list \<times> finding list" where
  "manifest_lines lineNo [] = ([], [])"
| "manifest_lines lineNo (ref # lines) =
     (let (refs, findings) = manifest_lines (Suc lineNo) lines
      in if ref = [] \<or> HasPrefix ref ''#'' then (refs, findings)
         else if TrimSpace ref \<noteq> ref
         then (refs, Finding (summaryDocsManifestRef @ '':'' @ itoa (Suc lineNo))
                       ''summary-doc manifest entries must not have leading or trailing whitespace'' # findings)
         else (ref # refs, findings))"

definition parseSummaryDocsManifest :: "string \<Rightarrow> io_error + string list \<times> finding list" where
  "parseSummaryDocsManifest content =
     (let (lines, err) = scan_lines content
      in case err of Some e \<Rightarrow> Inl (Text_Err e) | None \<Rightarrow> Inr (manifest_lines 0 lines))"

definition readSummaryDocsManifest :: "repo \<Rightarrow> io_error + string list \<times> finding list" where
  "readSummaryDocsManifest r =
     (case lstatRepoRelative r summaryDocsManifestRef summaryDocsManifestRef of
        Path_Findings findings \<Rightarrow> Inr ([], findings)
      | Path_Err path e \<Rightarrow> Inl (Os_Err e)
      | Path_Info full info \<Rightarrow>
          if fi_type info = Symlink
          then Inr ([], [Finding summaryDocsManifestRef ''summary-doc manifest must not be a symlink''])
          else if fi_type info \<noteq> Regular
          then Inr ([], [Finding summaryDocsManifestRef ''summary-doc manifest must be a regular file''])
          else (case ReadFile r full of Inl e \<Rightarrow> Inl (Os_Err e) | Inr content \<Rightarrow> parseSummaryDocsManifest content))"

definition regenerate :: string where
  "regenerate = ''; run (cd tools/evidencebaseline && go run . --repo-root ../.. --write-summary-docs)''"

definition checkSummaryDocsManifest :: "repo \<Rightarrow> string list \<Rightarrow> finding list" where
  "checkSummaryDocsManifest r want =
     (case readSummaryDocsManifest r of
        Inl e \<Rightarrow>
          if err_not_exist e then [Finding summaryDocsManifestRef (''summary-doc manifest is missing'' @ regenerate)]
          else [Finding summaryDocsManifestRef (err_text r e)]
      | Inr (got, findings) \<Rightarrow>
          if findings \<noteq> [] then findings
          else if got \<noteq> want
          then [Finding summaryDocsManifestRef
                  (''summary-doc manifest got '' @ quotes got @ '', want '' @ quotes want @ regenerate)]
          else [])"

section \<open>Writing the manifest\<close>

definition manifest_content :: "string list \<Rightarrow> string" where
  "manifest_content refs =
     ''# Generated from docs/evidence-baseline.md by tools/evidencebaseline --write-summary-docs.'' @ [CHR 0x0A]
     @ concat (map (\<lambda>ref. ref @ [CHR 0x0A]) refs)"

definition summaryDocsManifestWritePath :: "repo \<Rightarrow> io_error + string list" where
  "summaryDocsManifestWritePath r =
     (case lstatRepoRelative r summaryDocsManifestRef summaryDocsManifestRef of
        Path_Findings findings \<Rightarrow> Inl (Text_Err (f_msg (findings ! 0)))
      | Path_Err full e \<Rightarrow> if not_exist e then Inr full else Inl (Os_Err e)
      | Path_Info full info \<Rightarrow>
          if fi_type info = Symlink then Inl (Text_Err ''summary-doc manifest must not be a symlink'')
          else if fi_type info \<noteq> Regular then Inl (Text_Err ''summary-doc manifest must be a regular file'')
          else Inr full)"

text \<open>A change of the entries of one directory of the tree.\<close>

type_synonym dir_entries = "(string \<times> inode) list"

fun change_entry :: "string \<Rightarrow> (inode \<Rightarrow> inode) \<Rightarrow> dir_entries \<Rightarrow> dir_entries" where
  "change_entry n h [] = []"
| "change_entry n h ((m, f) # es) = (if m = n then (m, h f) # es else (m, f) # change_entry n h es)"

fun change_dir :: "inode \<Rightarrow> string list \<Rightarrow> (dir_entries \<Rightarrow> dir_entries) \<Rightarrow> inode" where
  "change_dir (Dir p l s es) [] g = Dir p l s (g es)"
| "change_dir (Dir p l s es) (n # ns) g = Dir p l s (change_entry n (\<lambda>f. change_dir f ns g) es)"
| "change_dir f ns g = f"

definition in_dir :: "repo \<Rightarrow> string list \<Rightarrow> (dir_entries \<Rightarrow> dir_entries) \<Rightarrow> repo" where
  "in_dir r dir g = r\<lparr>repo_entries := d_entries (change_dir (repo_tree r) dir g)\<rparr>"

definition drop_entry :: "string \<Rightarrow> dir_entries \<Rightarrow> dir_entries" where
  "drop_entry name es = filter (\<lambda>(m, f). m \<noteq> name) es"

definition put_entry :: "string \<Rightarrow> inode \<Rightarrow> dir_entries \<Rightarrow> dir_entries" where
  "put_entry name f es = insort_key fst (name, f) (drop_entry name es)"

text \<open>
  What the operating system does with the calls that write: the fresh name that \<open>os.CreateTemp\<close> picks, the errors
  of the calls, and the temporary file that stays when the deferred \<open>os.Remove\<close> fails.
\<close>

record writing =
  temp_name :: string
  create_fails :: "errno option"
  write_fails :: "errno option"
  chmod_fails :: "errno option"
  close_fails :: "errno option"
  rename_fails :: "errno option"
  leftover :: "inode option"

definition writeSummaryDocsManifest :: "writing \<Rightarrow> repo \<Rightarrow> string list \<Rightarrow> io_error option \<times> repo" where
  "writeSummaryDocsManifest w r refs =
     (let content = manifest_content refs
      in case summaryDocsManifestWritePath r of
           Inl e \<Rightarrow> (Some e, r)
         | Inr path \<Rightarrow>
             (let dir = butlast path; tmpPath = dir @ [temp_name w];
                  failed = (\<lambda>e. (Some (Os_Err e),
                     case leftover w of
                       None \<Rightarrow> in_dir r dir (drop_entry (temp_name w))
                     | Some f \<Rightarrow> in_dir r dir (put_entry (temp_name w) f)))
              in case create_fails w of
                   Some e \<Rightarrow> (Some (Os_Err (Path_Error ''open'' tmpPath e)), r)
                 | None \<Rightarrow>
                     (case write_fails w of
                        Some e \<Rightarrow> failed (Path_Error ''write'' tmpPath e)
                      | None \<Rightarrow>
                          (case chmod_fails w of
                             Some e \<Rightarrow> failed (Path_Error ''chmod'' tmpPath e)
                           | None \<Rightarrow>
                               (case close_fails w of
                                  Some e \<Rightarrow> failed (Path_Error ''close'' tmpPath e)
                                | None \<Rightarrow>
                                    (case rename_fails w of
                                       Some e \<Rightarrow> failed (Path_Error (''rename '' @ full_path r tmpPath) path e)
                                     | None \<Rightarrow> (None, in_dir r dir (\<lambda>es. put_entry (last path) (File 420 None content None)
                                                                        (drop_entry (temp_name w) es)))))))))"

end
