(* ===== verification/Go_Sha256.thy ===== *)
theory Go_Sha256
  imports Go_Crypto Go_Strings
begin

text \<open>
  Go's \<open>crypto/sha256\<close> (FIPS 180-4) and \<open>encoding/hex\<close>, as the evidence baseline tool uses them, executable. A file's
  contents are characters; the hash is over their bytes.
\<close>

section \<open>SHA-256\<close>

type_synonym u32 = "32 word"
type_synonym sha256_state = "u32 \<times> u32 \<times> u32 \<times> u32 \<times> u32 \<times> u32 \<times> u32 \<times> u32"

definition sha256_K :: "u32 list" where
  "sha256_K = [
     0x428a2f98, 0x71374491, 0xb5c0fbcf, 0xe9b5dba5, 0x3956c25b, 0x59f111f1, 0x923f82a4, 0xab1c5ed5,
     0xd807aa98, 0x12835b01, 0x243185be, 0x550c7dc3, 0x72be5d74, 0x80deb1fe, 0x9bdc06a7, 0xc19bf174,
     0xe49b69c1, 0xefbe4786, 0x0fc19dc6, 0x240ca1cc, 0x2de92c6f, 0x4a7484aa, 0x5cb0a9dc, 0x76f988da,
     0x983e5152, 0xa831c66d, 0xb00327c8, 0xbf597fc7, 0xc6e00bf3, 0xd5a79147, 0x06ca6351, 0x14292967,
     0x27b70a85, 0x2e1b2138, 0x4d2c6dfc, 0x53380d13, 0x650a7354, 0x766a0abb, 0x81c2c92e, 0x92722c85,
     0xa2bfe8a1, 0xa81a664b, 0xc24b8b70, 0xc76c51a3, 0xd192e819, 0xd6990624, 0xf40e3585, 0x106aa070,
     0x19a4c116, 0x1e376c08, 0x2748774c, 0x34b0bcb5, 0x391c0cb3, 0x4ed8aa4a, 0x5b9cca4f, 0x682e6ff3,
     0x748f82ee, 0x78a5636f, 0x84c87814, 0x8cc70208, 0x90befffa, 0xa4506ceb, 0xbef9a3f7, 0xc67178f2]"

definition sha256_init :: sha256_state where
  "sha256_init = (
     0x6a09e667, 0xbb67ae85, 0x3c6ef372, 0xa54ff53a, 0x510e527f, 0x9b05688c, 0x1f83d9ab, 0x5be0cd19)"

definition be32_bytes :: "u32 \<Rightarrow> bytes" where
  "be32_bytes w = map (\<lambda>i. ucast (drop_bit (8 * (3 - i)) w)) [0..<4]"

definition be32_word :: "bytes \<Rightarrow> u32" where
  "be32_word bs = foldl (\<lambda>acc b. push_bit 8 acc OR ucast b) 0 bs"

fun sha256_extend :: "nat \<Rightarrow> u32 list \<Rightarrow> u32 list" where
  "sha256_extend 0 w = w"
| "sha256_extend (Suc n) w =
     (let t = length w; x = w ! (t - 15); y = w ! (t - 2);
          s0 = word_rotr 7 x XOR word_rotr 18 x XOR drop_bit 3 x;
          s1 = word_rotr 17 y XOR word_rotr 19 y XOR drop_bit 10 y
      in sha256_extend n (w @ [s1 + w ! (t - 7) + s0 + w ! (t - 16)]))"

definition sha256_schedule :: "bytes \<Rightarrow> u32 list" where
  "sha256_schedule block = sha256_extend 48 (map be32_word (chunks 4 block))"

fun sha256_round :: "sha256_state \<Rightarrow> u32 \<times> u32 \<Rightarrow> sha256_state" where
  "sha256_round (a, b, c, d, e, f, g, h) (k, w) =
     (let S1 = word_rotr 6 e XOR word_rotr 11 e XOR word_rotr 25 e;
          t1 = h + S1 + ((e AND f) XOR (NOT e AND g)) + k + w;
          S0 = word_rotr 2 a XOR word_rotr 13 a XOR word_rotr 22 a;
          t2 = S0 + ((a AND b) XOR (a AND c) XOR (b AND c))
      in (t1 + t2, a, b, c, d + t1, e, f, g))"

fun sha256_add :: "sha256_state \<Rightarrow> sha256_state \<Rightarrow> sha256_state" where
  "sha256_add (a, b, c, d, e, f, g, h) (a', b', c', d', e', f', g', h') =
     (a + a', b + b', c + c', d + d', e + e', f + f', g + g', h + h')"

definition sha256_block :: "sha256_state \<Rightarrow> bytes \<Rightarrow> sha256_state" where
  "sha256_block s block = sha256_add s (foldl sha256_round s (zip sha256_K (sha256_schedule block)))"

definition sha256_pad :: "bytes \<Rightarrow> bytes" where
  "sha256_pad m = m @ [0x80] @ replicate ((64 - (length m + 9) mod 64) mod 64) 0
     @ word_to_bytes (of_nat (8 * length m))"

fun sha256_bytes :: "sha256_state \<Rightarrow> bytes" where
  "sha256_bytes (a, b, c, d, e, f, g, h) = concat (map be32_bytes [a, b, c, d, e, f, g, h])"

definition Sum256 :: "bytes \<Rightarrow> bytes" where
  "Sum256 m = sha256_bytes (foldl sha256_block sha256_init (chunks 64 (sha256_pad m)))"

lemma length_be32_bytes [simp]: "length (be32_bytes w) = 4"
  by (simp add: be32_bytes_def)

lemma length_Sum256 [simp]: "length (Sum256 m) = 32"
proof -
  have "length (sha256_bytes s) = 32" for s by (cases s rule: sha256_bytes.cases) simp
  then show ?thesis by (simp add: Sum256_def)
qed

section \<open>Hexadecimal text\<close>

definition EncodeToString :: "bytes \<Rightarrow> string" where
  "EncodeToString bs = concat (map (\<lambda>b. [hex_digit (unat b div 16), hex_digit (unat b mod 16)]) bs)"

definition is_lower_hex :: "char \<Rightarrow> bool" where
  "is_lower_hex c \<longleftrightarrow> (let n = (of_char c :: nat) in (48 \<le> n \<and> n \<le> 57) \<or> (97 \<le> n \<and> n \<le> 102))"

lemma hex_digit_lower [simp]: "n < 16 \<Longrightarrow> is_lower_hex (hex_digit n)"
  by (auto simp: hex_digit_def is_lower_hex_def Let_def)

lemma length_EncodeToString [simp]: "length (EncodeToString bs) = 2 * length bs"
  by (induction bs) (simp_all add: EncodeToString_def)

lemma EncodeToString_lower: "list_all is_lower_hex (EncodeToString bs)"
proof -
  have "unat b div 16 < 16" for b :: byte
    using unsigned_less [of b, where ?'a = nat] by simp
  then show ?thesis by (induction bs) (simp_all add: EncodeToString_def)
qed

text \<open>The hash of a file's contents, as \<open>sha256sum\<close> prints it.\<close>

definition sha256_hex :: "string \<Rightarrow> string" where
  "sha256_hex content = EncodeToString (Sum256 (string_bytes content))"

end
