(* ===== verification/Evidence_Bundle.thy ===== *)
theory Evidence_Bundle
  imports Evidence_Index Go_Sha256
begin

text \<open>
  tools/evidencebaseline/main.go: the evidence bundles, directories below docs/evidence with a README.md and a list of
  checksums that must cover every raw file.
\<close>

section \<open>Checksum files\<close>

record checksumEntry =
  ce_hash :: string
  ce_path :: string

definition sha256Hex_match :: "string \<Rightarrow> bool" where
  "sha256Hex_match s \<longleftrightarrow> length s = 64 \<and> list_all is_lower_hex s"

definition line_finding :: "string \<Rightarrow> nat \<Rightarrow> string \<Rightarrow> finding" where
  "line_finding findingPath lineNo msg = Finding (findingPath @ '':'' @ itoa lineNo) msg"

text \<open>The checks of one line: the messages of its findings, and whether it gives an entry.\<close>

definition sum_line_check :: "string \<Rightarrow> string list \<times> bool" where
  "sum_line_check line =
     (let hash = take 64 line; rel = drop 66 line;
          hashMsgs = (if \<not> sha256Hex_match hash then [''checksum hash must be 64 lowercase hex characters''] else [])
      in if length line \<ge> 66 \<and> line ! 64 = CHR '' '' \<and> line ! 65 = CHR ''*''
         then ([''checksum line must use text-mode SHA256SUMS format without a binary '' @ [CHR 0x27] @ ''*'' @ [CHR 0x27]
                  @ '' path prefix''], False)
         else if length line < 67 \<or> take 2 (drop 64 line) \<noteq> ''  ''
         then ([''checksum line must use '' @ [CHR 0x27] @ ''<64 lowercase hex><two spaces><bundle-relative path>'' @ [CHR 0x27]
                  @ '' format''], False)
         else if ContainsAny rel [CHR '' '', CHR 0x09, CHR 0x0D, CHR 0x0A]
         then (hashMsgs @ [''checksum path must not contain whitespace''], False)
         else if HasPrefix rel ''*''
         then (hashMsgs @ [''checksum path must not start with a binary '' @ [CHR 0x27] @ ''*'' @ [CHR 0x27] @ '' path prefix''], False)
         else if \<not> safeBundleRelativePath rel
         then (hashMsgs @ [''checksum path must be a safe bundle-relative path''], False)
         else (hashMsgs, True))"

text \<open>The loop over the lines, with the set of paths seen so far.\<close>

fun sums_lines :: "string \<Rightarrow> nat \<Rightarrow> string set \<Rightarrow> string list \<Rightarrow> checksumEntry list \<times> finding list" where
  "sums_lines findingPath lineNo seen [] = ([], [])"
| "sums_lines findingPath lineNo seen (line # lines) =
     (let report = line_finding findingPath (Suc lineNo); (msgs, ok) = sum_line_check line; rel = drop 66 line
      in if TrimSpace line = [] then sums_lines findingPath (Suc lineNo) seen lines
         else if \<not> ok
         then (let (entries, findings) = sums_lines findingPath (Suc lineNo) seen lines
               in (entries, map report msgs @ findings))
         else
           (let (entries, findings) = sums_lines findingPath (Suc lineNo) (insert rel seen) lines
            in (\<lparr>ce_hash = take 64 line, ce_path = rel\<rparr> # entries,
                map report msgs @ (if rel \<in> seen then [report (''duplicate checksum path: '' @ rel)] else []) @ findings)))"

definition parseSHA256SUMS :: "repo \<Rightarrow> string list \<Rightarrow> string \<Rightarrow> io_error + checksumEntry list \<times> finding list" where
  "parseSHA256SUMS r path findingPath =
     (case Open r path of
        Inl e \<Rightarrow> Inl (Os_Err e)
      | Inr (content, readErr) \<Rightarrow>
          (case scan_lines content of
             (lines, Some e) \<Rightarrow> Inl (Text_Err e)
           | (lines, None) \<Rightarrow>
               (case readErr of
                  Some e \<Rightarrow> Inl (Os_Err e)
                | None \<Rightarrow> Inr (sums_lines findingPath 0 {} lines))))"

section \<open>Checksum entries\<close>

definition below :: "string \<Rightarrow> string \<Rightarrow> string" where
  "below bundle rel = bundle @ ''/'' @ rel"

fun lstat_entry :: "repo \<Rightarrow> string \<Rightarrow> string \<Rightarrow> string list \<Rightarrow> string list \<Rightarrow> string list \<Rightarrow> finding list + string list \<times> file_info" where
  "lstat_entry r bundle rel bundlePath seen [] = Inl [Finding (below bundle rel) ''checksum references missing file'']"
| "lstat_entry r bundle rel bundlePath seen (part # parts) =
     (let seen' = seen @ [part]; full = bundlePath @ seen'; parent = Join seen' ''/''
      in case Lstat r full of
           Inl err \<Rightarrow>
             if not_exist err then Inl [Finding (below bundle rel) ''checksum references missing file'']
             else Inl [Finding (below bundle rel) (Error r err)]
         | Inr info \<Rightarrow>
             if fi_type info = Symlink
             then (if parts \<noteq> [] then Inl [Finding (below bundle rel) (''checksum path contains symlinked parent: '' @ parent)]
                   else Inl [Finding (below bundle rel) ''checksum references symlink''])
             else if parts \<noteq> [] \<and> fi_type info \<noteq> Directory
             then Inl [Finding (below bundle rel) (''checksum path parent is not a directory: '' @ parent)]
             else if parts = [] then Inr (full, info)
             else lstat_entry r bundle rel bundlePath seen' parts)"

definition lstatChecksumEntry :: "repo \<Rightarrow> string list \<Rightarrow> string \<Rightarrow> string \<Rightarrow> finding list + string list \<times> file_info" where
  "lstatChecksumEntry r bundlePath bundle rel = lstat_entry r bundle rel bundlePath [] (Split rel CHR ''/'')"

definition verifySHA256Entry :: "repo \<Rightarrow> string list \<Rightarrow> string \<Rightarrow> checksumEntry \<Rightarrow> finding list" where
  "verifySHA256Entry r bundlePath bundle entry =
     (let path = below bundle (ce_path entry)
      in case lstatChecksumEntry r bundlePath bundle (ce_path entry) of
           Inl findings \<Rightarrow> findings
         | Inr (full, info) \<Rightarrow>
             if fi_type info \<noteq> Regular then [Finding path ''checksum references non-regular file'']
             else (case Open r full of
                     Inl e \<Rightarrow> [Finding path (Error r e)]
                   | Inr (content, Some e) \<Rightarrow> [Finding path (Error r e)]
                   | Inr (content, None) \<Rightarrow>
                       if sha256_hex content \<noteq> ce_hash entry then [Finding path ''SHA256SUMS hash mismatch''] else []))"

section \<open>The raw files\<close>

definition ignoredBundleEntry :: "string \<Rightarrow> bool" where
  "ignoredBundleEntry rel \<longleftrightarrow>
     (if rel \<in> {''README.md'', ''SHA256SUMS'', ''SHA256SUMS.sig''} then True
      else last (Split rel CHR ''/'') = ''.DS_Store'')"

text \<open>
  The function that \<open>bundleRawFiles\<close> passes to \<open>filepath.WalkDir\<close>, for a file that is no directory: it goes on to
  the next one after each of them. \<open>search\<close> is the error of a lookup in the directory of the file, when it
  cannot be searched; it is what \<open>entry.Info()\<close> reports.
\<close>

definition visit :: "repo \<Rightarrow> string list \<Rightarrow> string \<Rightarrow> string option \<Rightarrow> string list \<Rightarrow> inode \<Rightarrow> string list \<times> finding list" where
  "visit r bundlePath bundle search path f =
     (let rel = Join path ''/''
      in if path = [] then ([], [])
         else if ignoredBundleEntry rel then ([], [])
         else if file_type f = Symlink then ([], [Finding (below bundle rel) ''raw evidence entry must not be a symlink''])
         else if file_type f = Directory then ([], [])
         else (case search of
                 Some e \<Rightarrow> ([], [Finding (below bundle rel) (Error r (Path_Error ''lstat'' (bundlePath @ path) (Errno e)))])
               | None \<Rightarrow>
                   if file_type f \<noteq> Regular then ([], [Finding (below bundle rel) ''raw evidence entry must be a regular file''])
                   else ([rel], [])))"

text \<open>\<open>filepath.WalkDir\<close>: a directory that cannot be listed ends the walk with the error.\<close>

fun walk_dir :: "repo \<Rightarrow> string list \<Rightarrow> string \<Rightarrow> string option \<Rightarrow> string list \<Rightarrow> inode \<Rightarrow> os_error + string list \<times> finding list"
  and walk_entries :: "repo \<Rightarrow> string list \<Rightarrow> string \<Rightarrow> string option \<Rightarrow> string list \<Rightarrow> dir_entries \<Rightarrow> os_error + string list \<times> finding list"
where
  "walk_dir r bundlePath bundle search path (Dir p l s es) =
     (case search of
        Some e \<Rightarrow> Inl (Path_Error ''open'' (bundlePath @ path) (Errno e))
      | None \<Rightarrow>
          (case l of
             Some e \<Rightarrow> Inl (Path_Error ''open'' (bundlePath @ path) e)
           | None \<Rightarrow> walk_entries r bundlePath bundle s path es))"
| "walk_dir r bundlePath bundle search path f = Inr (visit r bundlePath bundle search path f)"
| "walk_entries r bundlePath bundle search path [] = Inr ([], [])"
| "walk_entries r bundlePath bundle search path ((n, f) # es) =
     (case walk_dir r bundlePath bundle search (path @ [n]) f of
        Inl e \<Rightarrow> Inl e
      | Inr (out, findings) \<Rightarrow>
          (case walk_entries r bundlePath bundle search path es of
             Inl e \<Rightarrow> Inl e
           | Inr (out', findings') \<Rightarrow> Inr (out @ out', findings @ findings')))"

definition bundleRawFiles :: "repo \<Rightarrow> string list \<Rightarrow> string \<Rightarrow> os_error + string list \<times> finding list" where
  "bundleRawFiles r bundlePath bundle =
     (case walk (repo_links r) (repo_tree r) bundlePath of
        Inl e \<Rightarrow> Inl (Path_Error ''lstat'' bundlePath e)
      | Inr f \<Rightarrow>
          (case walk_dir r bundlePath bundle None [] f of
             Inl e \<Rightarrow> Inl e
           | Inr (out, findings) \<Rightarrow> Inr (sort out, findings)))"

section \<open>Bundles\<close>

definition validateBundleControlFile :: "repo \<Rightarrow> string list \<Rightarrow> string \<Rightarrow> string \<Rightarrow> finding list \<times> bool" where
  "validateBundleControlFile r bundlePath bundle name =
     (case Lstat r (bundlePath @ [name]) of
        Inl err \<Rightarrow>
          if not_exist err then ([Finding bundle (''evidence bundle is missing '' @ name)], False)
          else ([Finding (below bundle name) (Error r err)], False)
      | Inr info \<Rightarrow>
          if fi_type info = Symlink
          then ([Finding (below bundle name) ''evidence bundle control file must not be a symlink''], False)
          else if fi_type info \<noteq> Regular
          then ([Finding (below bundle name) ''evidence bundle control file must be a regular file''], False)
          else ([], True))"

definition validateOptionalBundleControlFile :: "repo \<Rightarrow> string list \<Rightarrow> string \<Rightarrow> string \<Rightarrow> finding list" where
  "validateOptionalBundleControlFile r bundlePath bundle name =
     (case Lstat r (bundlePath @ [name]) of
        Inl err \<Rightarrow> if not_exist err then [] else [Finding (below bundle name) (Error r err)]
      | Inr info \<Rightarrow>
          if fi_type info = Symlink
          then [Finding (below bundle name) ''evidence bundle control file must not be a symlink'']
          else if fi_type info \<noteq> Regular
          then [Finding (below bundle name) ''evidence bundle control file must be a regular file'']
          else [])"

definition check_sums :: "repo \<Rightarrow> string list \<Rightarrow> string \<Rightarrow> finding list" where
  "check_sums r bundlePath bundle =
     (case parseSHA256SUMS r (bundlePath @ [''SHA256SUMS'']) (below bundle ''SHA256SUMS'') of
        Inl err \<Rightarrow> [Finding (below bundle ''SHA256SUMS'') (err_text r err)]
      | Inr (entries, sumFindings) \<Rightarrow>
          sumFindings
          @ (if length entries = 0 then [Finding (below bundle ''SHA256SUMS'') ''contains no checksum entries''] else [])
          @ concat (map (verifySHA256Entry r bundlePath bundle) entries)
          @ (case bundleRawFiles r bundlePath bundle of
               Inl err \<Rightarrow> [Finding bundle (Error r err)]
             | Inr (rawFiles, rawFindings) \<Rightarrow>
                 rawFindings
                 @ concat (map (\<lambda>raw. if raw \<notin> ce_path ` set entries
                                      then [Finding (below bundle raw) ''raw evidence file is not covered by SHA256SUMS'']
                                      else []) rawFiles)))"

definition checkBundle :: "repo \<Rightarrow> string \<Rightarrow> finding list" where
  "checkBundle r bundle =
     (case lstatRepoRelative r bundle bundle of
        Path_Findings pathFindings \<Rightarrow> pathFindings
      | Path_Err path err \<Rightarrow>
          if not_exist err then [Finding bundle ''evidence bundle root does not exist''] else [Finding bundle (Error r err)]
      | Path_Info bundlePath info \<Rightarrow>
          if fi_type info = Symlink then [Finding bundle ''evidence bundle root must not be a symlink'']
          else if fi_type info \<noteq> Directory then [Finding bundle ''evidence bundle root is not a directory'']
          else
            (let (readmeFindings, readmeOk) = validateBundleControlFile r bundlePath bundle ''README.md'';
                 sigFindings = validateOptionalBundleControlFile r bundlePath bundle ''SHA256SUMS.sig'';
                 (sumFileFindings, ok) = validateBundleControlFile r bundlePath bundle ''SHA256SUMS''
             in readmeFindings @ sigFindings @ sumFileFindings
                @ (if \<not> ok then [] else check_sums r bundlePath bundle)))"

end
