(* ===== verification/Evidence_Correct.thy ===== *)
theory Evidence_Correct
  imports Evidence_Bundle
begin

text \<open>
  What an evidence bundle without findings is: its checksum file is well formed, every checksum is that of a file
  inside the bundle, and every file inside the bundle has one.
\<close>

section \<open>Checksum lines\<close>

definition sum_line :: "checksumEntry \<Rightarrow> string" where
  "sum_line e = ce_hash e @ ''  '' @ ce_path e"

definition valid_entry :: "checksumEntry \<Rightarrow> bool" where
  "valid_entry e \<longleftrightarrow> sha256Hex_match (ce_hash e) \<and> (\<exists>parts. safe_form (ce_path e) False parts)
     \<and> set (ce_path e) \<inter> {CHR '' '', CHR 0x09, CHR 0x0D, CHR 0x0A} = {} \<and> \<not> prefix ''*'' (ce_path e)"

lemma TrimSpace_Nil: "TrimSpace s = [] \<longleftrightarrow> list_all is_space s"
proof -
  have "list_all is_space (dropWhile is_space s) \<longleftrightarrow> list_all is_space s" by (induction s) auto
  then show ?thesis by (simp add: TrimSpace_def trim_right_def list_all_iff)
qed

lemma valid_path: "valid_entry e \<Longrightarrow> ce_path e \<noteq> []"
  by (auto simp: valid_entry_def safeSlashPath_iff [symmetric] safeSlashPath_def)

lemma hex_not_space: "is_lower_hex c \<Longrightarrow> \<not> is_space c"
  by (auto simp: is_lower_hex_def is_space_def Let_def)

lemma sum_line_text: "valid_entry e \<Longrightarrow> TrimSpace (sum_line e) \<noteq> []"
  by (cases "ce_hash e") (auto simp: TrimSpace_Nil sum_line_def valid_entry_def sha256Hex_match_def hex_not_space)

lemma sum_line_parts:
  assumes "length (ce_hash e) = 64"
  shows "take 64 (sum_line e) = ce_hash e" "drop 66 (sum_line e) = ce_path e" "take 2 (drop 64 (sum_line e)) = ''  ''"
    "sum_line e ! 65 = CHR '' ''" "length (sum_line e) = 66 + length (ce_path e)"
  using assms by (simp_all add: sum_line_def nth_append)

lemma ContainsAny_iff: "ContainsAny s cs \<longleftrightarrow> set s \<inter> set cs \<noteq> {}"
  by (auto simp: ContainsAny_def list_ex_iff)

lemma sum_line_check_rejected: "sum_line_check line = (msgs, False) \<Longrightarrow> msgs \<noteq> []"
  by (auto simp: sum_line_check_def Let_def simp del: length_0_conv split: if_splits)

lemma sum_line_check_iff:
  "sum_line_check line = ([], True) \<longleftrightarrow> line = sum_line \<lparr>ce_hash = take 64 line, ce_path = drop 66 line\<rparr>
     \<and> valid_entry \<lparr>ce_hash = take 64 line, ce_path = drop 66 line\<rparr>" (is "_ \<longleftrightarrow> line = sum_line ?e \<and> valid_entry ?e")
proof
  assume "sum_line_check line = ([], True)"
  then have ok: "\<not> length line < 67" "take 2 (drop 64 line) = ''  ''" "sha256Hex_match (take 64 line)"
      "\<not> ContainsAny (drop 66 line) [CHR '' '', CHR 0x09, CHR 0x0D, CHR 0x0A]" "\<not> prefix ''*'' (drop 66 line)"
      "safeBundleRelativePath (drop 66 line)"
    unfolding sum_line_check_def Let_def by (simp_all split: if_split_asm)
  have "drop 2 (drop 64 line) = drop 66 line" by simp
  then have "line = take 64 line @ take 2 (drop 64 line) @ drop 66 line" by (metis append_take_drop_id)
  then have "line = sum_line ?e" using ok(2) by (simp add: sum_line_def)
  moreover have "valid_entry ?e"
    using ok by (simp add: valid_entry_def ContainsAny_iff safeBundleRelativePath_def safeSlashPath_iff)
  ultimately show "line = sum_line ?e \<and> valid_entry ?e" ..
next
  assume "line = sum_line ?e \<and> valid_entry ?e"
  then have line: "line = sum_line ?e" and e: "valid_entry ?e" by blast+
  have "length (ce_hash ?e) = 64" using e by (simp add: valid_entry_def sha256Hex_match_def)
  note parts = sum_line_parts [OF this, folded line]
  have "drop 66 line \<noteq> []" using valid_path [OF e] by simp
  then have "66 < length line" by simp
  then have "\<not> length line < 67" by simp
  moreover have "line ! 65 \<noteq> CHR ''*''" using parts(4) by simp
  moreover have "sha256Hex_match (take 64 line)" "\<not> ContainsAny (drop 66 line) [CHR '' '', CHR 0x09, CHR 0x0D, CHR 0x0A]"
      "\<not> prefix ''*'' (drop 66 line)" "safeBundleRelativePath (drop 66 line)"
    using e by (simp_all add: valid_entry_def ContainsAny_iff safeBundleRelativePath_def safeSlashPath_iff)
  ultimately show "sum_line_check line = ([], True)" using parts(3) by (simp add: sum_line_check_def)
qed

lemma sum_line_check_valid:
  assumes "valid_entry e"
  shows "sum_line_check (sum_line e) = ([], True)"
    and "\<lparr>ce_hash = take 64 (sum_line e), ce_path = drop 66 (sum_line e)\<rparr> = e"
proof -
  have "length (ce_hash e) = 64" using assms by (simp add: valid_entry_def sha256Hex_match_def)
  then show e: "\<lparr>ce_hash = take 64 (sum_line e), ce_path = drop 66 (sum_line e)\<rparr> = e" by (simp add: sum_line_parts)
  show "sum_line_check (sum_line e) = ([], True)" unfolding sum_line_check_iff e by (simp add: assms)
qed

lemma sums_lines_good:
  assumes "valid_entry e" and "ce_path e \<notin> seen"
  shows "sums_lines fp k seen (sum_line e # lines) =
    (let (entries, findings) = sums_lines fp (Suc k) (insert (ce_path e) seen) lines in (e # entries, findings))"
proof -
  have "drop 66 (sum_line e) = ce_path e"
    using assms by (intro sum_line_parts) (simp add: valid_entry_def sha256Hex_match_def)
  then show ?thesis
    using assms sum_line_text [OF assms(1)] sum_line_check_valid [OF assms(1)] by (simp add: Let_def split: prod.split)
qed

lemma sums_lines_accepted:
  assumes "sums_lines fp k seen (line # lines) = (entries, [])" and "TrimSpace line \<noteq> []"
  shows "\<exists>e rest. entries = e # rest \<and> line = sum_line e \<and> valid_entry e \<and> ce_path e \<notin> seen
    \<and> sums_lines fp (Suc k) (insert (ce_path e) seen) lines = (rest, [])"
proof -
  obtain msgs ok where check: "sum_line_check line = (msgs, ok)" by force
  have "ok" using assms check sum_line_check_rejected [of line msgs] by (auto simp: Let_def split: prod.splits if_splits)
  then have "msgs = []" "drop 66 line \<notin> seen"
      "\<exists>rest. entries = \<lparr>ce_hash = take 64 line, ce_path = drop 66 line\<rparr> # rest
         \<and> sums_lines fp (Suc k) (insert (drop 66 line) seen) lines = (rest, [])"
    using assms check by (auto simp: Let_def split: prod.splits if_splits)
  then show ?thesis using check \<open>ok\<close> sum_line_check_iff [of line] by force
qed

lemma sums_lines_iff:
  "sums_lines fp k seen lines = (entries, []) \<longleftrightarrow>
     filter (\<lambda>l. TrimSpace l \<noteq> []) lines = map sum_line entries \<and> list_all valid_entry entries
   \<and> distinct (map ce_path entries) \<and> set (map ce_path entries) \<inter> seen = {}"
proof (induction lines arbitrary: k seen entries)
  case (Cons line lines)
  show ?case
  proof (cases "TrimSpace line = []")
    case True
    then show ?thesis using Cons.IH [of "Suc k" seen entries] by (simp add: Let_def split: prod.split)
  next
    case False
    show ?thesis
    proof
      assume "sums_lines fp k seen (line # lines) = (entries, [])"
      from sums_lines_accepted [OF this False] obtain e rest where "entries = e # rest" "line = sum_line e" "valid_entry e"
          "ce_path e \<notin> seen" "sums_lines fp (Suc k) (insert (ce_path e) seen) lines = (rest, [])"
        by blast
      then show "filter (\<lambda>l. TrimSpace l \<noteq> []) (line # lines) = map sum_line entries \<and> list_all valid_entry entries
          \<and> distinct (map ce_path entries) \<and> set (map ce_path entries) \<inter> seen = {}"
        using Cons.IH [of "Suc k" "insert (ce_path e) seen" rest] False by auto
    next
      assume right: "filter (\<lambda>l. TrimSpace l \<noteq> []) (line # lines) = map sum_line entries \<and> list_all valid_entry entries
          \<and> distinct (map ce_path entries) \<and> set (map ce_path entries) \<inter> seen = {}"
      then obtain e rest where e: "entries = e # rest" "line = sum_line e" using False by auto
      then have "sums_lines fp (Suc k) (insert (ce_path e) seen) lines = (rest, [])"
        using right False by (subst Cons.IH) auto
      then show "sums_lines fp k seen (line # lines) = (entries, [])" using right e sums_lines_good [of e seen] by auto
    qed
  qed
qed auto

text \<open>The contents of a checksum file for some entries; blank lines and carriage returns at line ends are allowed.\<close>

definition sums_content :: "string \<Rightarrow> checksumEntry list \<Rightarrow> bool" where
  "sums_content content entries \<longleftrightarrow> snd (scan_lines content) = None
     \<and> filter (\<lambda>l. TrimSpace l \<noteq> []) (fst (scan_lines content)) = map sum_line entries
     \<and> list_all valid_entry entries \<and> distinct (map ce_path entries)"

lemma parse_sums_iff:
  "parseSHA256SUMS r path fp = Inr (entries, []) \<longleftrightarrow>
     (\<exists>content. Open r path = Inr (content, None) \<and> sums_content content entries)"
proof (cases "Open r path")
  case (Inr out)
  obtain content err lines e where "out = (content, err)" "scan_lines content = (lines, e)" by fastforce
  then show ?thesis using Inr
    by (cases e; cases err) (auto simp: parseSHA256SUMS_def sums_content_def sums_lines_iff)
qed (simp add: parseSHA256SUMS_def)

section \<open>Files inside a bundle\<close>

lemma lstat_entry_info:
  assumes "inside (repo_tree r) (bundlePath @ seen) = Some (Dir p l s es)"
  shows "lstat_entry r bundle rel bundlePath seen parts = Inr (full, info) \<longleftrightarrow>
    parts \<noteq> [] \<and> full = bundlePath @ seen @ parts
    \<and> (\<exists>g. inside (repo_tree r) full = Some g \<and> info = info_of g \<and> file_type g \<noteq> Symlink)"
  using assms
proof (induction parts arbitrary: seen p l s es)
  case (Cons part parts)
  note lstat = Lstat_inside [OF Cons.prems, of part] and inside = inside_snoc [OF Cons.prems, of part]
  show ?case
  proof (cases "inside (repo_tree r) (bundlePath @ seen @ [part])")
    case None
    then have "\<nexists>g. inside (repo_tree r) (bundlePath @ seen @ part # parts) = Some g"
      using inside_append [of "repo_tree r" "bundlePath @ seen @ [part]" parts] by simp
    moreover have "\<exists>e. Lstat r (bundlePath @ seen @ [part]) = Inl e" using None lstat inside by (auto split: option.splits)
    ultimately show ?thesis by (auto simp: Let_def split: if_splits)
  next
    case (Some g)
    then have l: "Lstat r (bundlePath @ seen @ [part]) = Inr (info_of g)" using lstat inside by (auto split: option.splits)
    show ?thesis
    proof (cases g)
      case (Dir p' l' s' es')
      then show ?thesis using Cons.IH [of "seen @ [part]"] Some l by (auto simp: Let_def)
    qed (use Some l inside_append [of "repo_tree r" "bundlePath @ seen @ [part]" parts] in \<open>cases parts; auto simp: Let_def\<close>)+
  qed
qed simp

lemma Open_inside:
  assumes "inside (repo_tree r) path = Some f" and "file_type f = Regular"
  shows "Open r path = Inr (content, None) \<longleftrightarrow> (\<exists>p. f = File p None content None)"
  using assms inside_walk [OF assms(1)] by (cases f) (auto simp: Open_def resolve_def file_type_def split: option.split)

text \<open>A file of a directory with given contents, which can be read.\<close>

definition has_content :: "inode \<Rightarrow> string list \<Rightarrow> string \<Rightarrow> bool" where
  "has_content d path content \<longleftrightarrow> (\<exists>p. inside d path = Some (File p None content None))"

lemma verify_iff:
  assumes dir: "inside (repo_tree r) bundlePath = Some d" "d = Dir p l s es"
  shows "verifySHA256Entry r bundlePath bundle entry = [] \<longleftrightarrow>
    (\<exists>content. has_content d (Split (ce_path entry) CHR ''/'') content \<and> sha256_hex content = ce_hash entry)"
proof -
  let ?parts = "Split (ce_path entry) CHR ''/''"
  have inside: "inside (repo_tree r) (bundlePath @ ?parts) = inside d ?parts"
    using dir by (simp add: inside_append)
  show ?thesis
  proof (cases "lstat_entry r bundle (ce_path entry) bundlePath [] ?parts")
    case (Inl fs)
    have "fs \<noteq> []"
    proof -
      have "lstat_entry r bundle rel bundlePath seen parts = Inl fs \<Longrightarrow> fs \<noteq> []" for rel seen parts fs
        by (induction r "bundle" rel bundlePath seen parts rule: lstat_entry.induct) (auto simp: Let_def split: sum.splits if_splits)
      then show ?thesis using Inl by blast
    qed
    moreover have "\<not> has_content d ?parts content" for content
    proof
      assume "has_content d ?parts content"
      then obtain q where "inside (repo_tree r) (bundlePath @ ?parts) = Some (File q None content None)"
        using inside by (auto simp: has_content_def)
      then have "lstat_entry r bundle (ce_path entry) bundlePath [] ?parts = Inr (bundlePath @ ?parts, info_of (File q None content None))"
        using dir by (subst lstat_entry_info) auto
      then show False using Inl by simp
    qed
    ultimately show ?thesis using Inl by (simp add: verifySHA256Entry_def lstatChecksumEntry_def)
  next
    case (Inr out)
    obtain full inf where out: "out = (full, inf)" by force
    then have "full = bundlePath @ ?parts \<and> (\<exists>g. inside (repo_tree r) full = Some g \<and> inf = info_of g)"
      using Inr dir lstat_entry_info [of r bundlePath "[]" p l s es "bundle" "ce_path entry" ?parts full inf] by auto
    then obtain g where g: "full = bundlePath @ ?parts" "inside d ?parts = Some g" "inf = info_of g"
      unfolding inside [symmetric] by blast
    show ?thesis
    proof (cases "file_type g = Regular")
      case True
      then have "has_content d ?parts content \<longleftrightarrow> Open r full = Inr (content, None)" for content
        using Open_inside [of r full g content] g inside by (auto simp: has_content_def)
      moreover have "verifySHA256Entry r bundlePath bundle entry = [] \<longleftrightarrow>
          (\<exists>content. Open r full = Inr (content, None) \<and> sha256_hex content = ce_hash entry)"
        using Inr out g(3) True
        by (simp add: verifySHA256Entry_def lstatChecksumEntry_def Let_def split: sum.split prod.split option.split)
      ultimately show ?thesis by simp
    next
      case False
      then show ?thesis using Inr out g
        by (auto simp: verifySHA256Entry_def lstatChecksumEntry_def has_content_def Let_def file_type_def)
    qed
  qed
qed

text \<open>
  What the walk makes sure of for a file below the bundle: a directory can be listed, and it can be searched unless
  there is nothing to look at in it; any other file is ignored, or it is regular and one of the paths.
\<close>

definition skipped :: "string list \<Rightarrow> string \<times> inode \<Rightarrow> bool" where
  "skipped path = (\<lambda>(n, f). ignoredBundleEntry (Join (path @ [n]) ''/'') \<and> file_type f \<noteq> Directory)"

definition covered :: "string set \<Rightarrow> string list \<Rightarrow> inode \<Rightarrow> bool" where
  "covered paths path f \<longleftrightarrow>
     (case f of
        Dir p l s es \<Rightarrow> l = None \<and> (s = None \<or> list_all (skipped path) es)
      | _ \<Rightarrow> ignoredBundleEntry (Join path ''/'') \<or> (file_type f = Regular \<and> Join path ''/'' \<in> paths))"

lemma covered_mono: "covered A path f \<Longrightarrow> A \<subseteq> B \<Longrightarrow> covered B path f"
  by (auto simp: covered_def split: inode.splits)

text \<open>No directory has two entries of one name.\<close>

fun distinct_names :: "inode \<Rightarrow> bool" where
  "distinct_names (Dir p l s es) \<longleftrightarrow> distinct (map fst es) \<and> list_all (\<lambda>(n, f). distinct_names f) es"
| "distinct_names f \<longleftrightarrow> True"

lemma distinct_names_inside: "distinct_names f \<Longrightarrow> inside f path = Some g \<Longrightarrow> distinct_names g"
  by (induction f path rule: inside.induct) (auto simp: list_all_iff dest!: map_of_SomeD split: option.splits)

lemma visit_covered:
  assumes "\<nexists>p l s es. f = Dir p l s es" and "path \<noteq> []"
  shows "visit r bundlePath bundle None path f = (out, []) \<Longrightarrow> covered (set out) path f"
    and "covered paths path f \<Longrightarrow> \<exists>out. visit r bundlePath bundle None path f = (out, []) \<and> set out \<subseteq> paths"
  using assms by (cases f; auto simp: visit_def covered_def Let_def split: if_splits option.splits)+

lemma visit_below:
  assumes "visit r bundlePath bundle None path f = (out, [])" and "\<nexists>p l s es. f = Dir p l s es" and "path \<noteq> []"
    and "inside f rel = Some g"
  shows "covered (set out) (path @ rel) g"
  using assms visit_covered(1) [OF assms(2,3,1)] by (cases rel; cases f) auto

lemma visit_complete:
  assumes "\<nexists>p l s es. f = Dir p l s es" and "path \<noteq> []" and "\<And>rel g. inside f rel = Some g \<Longrightarrow> covered paths (path @ rel) g"
  shows "\<exists>out. visit r bundlePath bundle None path f = (out, []) \<and> set out \<subseteq> paths"
  using visit_covered(2) [OF assms(1,2)] assms(3) [of "[]"] by simp

lemma walk_unsearchable:
  "walk_entries r bundlePath bundle (Some e) path es = Inr (out, []) \<longleftrightarrow> out = [] \<and> list_all (skipped path) es"
proof (induction es arbitrary: out)
  case (Cons x es)
  obtain n f where x: "x = (n, f)" by force
  have "walk_dir r bundlePath bundle (Some e) (path @ [n]) f = Inr (out, []) \<longleftrightarrow> out = [] \<and> skipped path (n, f)" for out
    by (cases f) (auto simp: visit_def skipped_def Let_def)
  moreover have "walk_entries r bundlePath bundle (Some e) path (x # es) = Inr (out, []) \<longleftrightarrow>
      (\<exists>out1 out2. walk_dir r bundlePath bundle (Some e) (path @ [n]) f = Inr (out1, [])
         \<and> walk_entries r bundlePath bundle (Some e) path es = Inr (out2, []) \<and> out = out1 @ out2)"
    unfolding x by (cases "walk_dir r bundlePath bundle (Some e) (path @ [n]) f"; cases "walk_entries r bundlePath bundle (Some e) path es")
      auto
  ultimately show ?case unfolding Cons.IH by (auto simp: x simp del: walk_entries.simps walk_dir.simps)
qed auto

lemma walk_covered:
  "walk_dir r bundlePath bundle search path f = Inr (out, []) \<Longrightarrow> search = None \<Longrightarrow> path \<noteq> [] \<or> file_type f = Directory \<Longrightarrow>
     inside f rel = Some g \<Longrightarrow> covered (set out) (path @ rel) g"
  "walk_entries r bundlePath bundle search path es = Inr (out, []) \<Longrightarrow> search = None \<Longrightarrow> map_of es n = Some f \<Longrightarrow>
     inside f rel = Some g \<Longrightarrow> covered (set out) (path @ n # rel) g"
proof (induction r bundlePath "bundle" search path f and r bundlePath "bundle" search path es arbitrary: out rel g and out n f rel g
    rule: walk_dir_walk_entries.induct)
  case (1 r bundlePath "bundle" search path p l s es)
  then have dir: "l = None" "walk_entries r bundlePath bundle s path es = Inr (out, [])"
    by (auto split: option.splits)
  show ?case
  proof (cases rel)
    case Nil
    then show ?thesis
      using "1.prems"(4) dir walk_unsearchable [of r bundlePath "bundle" _ path es out] by (cases s) (auto simp: covered_def)
  next
    case (Cons n ns)
    then obtain f where "s = None" "map_of es n = Some f" "inside f ns = Some g"
      using "1.prems"(4) by (cases s) (auto split: option.splits)
    then show ?thesis using "1.IH" "1.prems"(2) dir Cons by blast
  qed
next
  case (4 r bundlePath "bundle" search path m h es)
  then obtain out1 out2 where parts: "walk_dir r bundlePath bundle search (path @ [m]) h = Inr (out1, [])"
      "walk_entries r bundlePath bundle search path es = Inr (out2, [])" "out = out1 @ out2"
    by (auto split: sum.splits)
  show ?case
  proof (cases "n = m")
    case True
    then have "covered (set out1) ((path @ [m]) @ rel) g" using "4.IH"(1) parts(1) "4.prems" by auto
    then show ?thesis using True parts(3) by (auto intro: covered_mono)
  next
    case False
    then have "covered (set out2) (path @ n # rel) g" using "4.IH"(2) parts "4.prems" by auto
    then show ?thesis using parts(3) by (auto intro: covered_mono)
  qed
qed (auto intro: visit_below)

lemma walk_complete:
  "search = None \<Longrightarrow> distinct_names f \<Longrightarrow> path \<noteq> [] \<or> file_type f = Directory \<Longrightarrow>
     (\<And>rel g. inside f rel = Some g \<Longrightarrow> covered paths (path @ rel) g) \<Longrightarrow>
     \<exists>out. walk_dir r bundlePath bundle search path f = Inr (out, []) \<and> set out \<subseteq> paths"
  "search = None \<Longrightarrow> list_all (\<lambda>(n, f). distinct_names f) es \<Longrightarrow>
     (\<And>n f rel g. (n, f) \<in> set es \<Longrightarrow> inside f rel = Some g \<Longrightarrow> covered paths (path @ n # rel) g) \<Longrightarrow>
     \<exists>out. walk_entries r bundlePath bundle search path es = Inr (out, []) \<and> set out \<subseteq> paths"
proof (induction r bundlePath "bundle" search path f and r bundlePath "bundle" search path es
    rule: walk_dir_walk_entries.induct)
  case (1 r bundlePath "bundle" search path p l s es)
  have self: "l = None" "s = None \<or> list_all (skipped path) es"
    using "1.prems"(4) [of "[]"] by (simp_all add: covered_def)
  show ?case
  proof (cases s)
    case None
    have "covered paths (path @ n # rel) g" if "(n, f) \<in> set es" "inside f rel = Some g" for n f rel g
      using "1.prems"(2) "1.prems"(4) [of "n # rel"] that by (simp add: None self(1))
    then show ?thesis using "1.IH" "1.prems"(1,2) self(1) None by simp
  next
    case (Some e)
    then show ?thesis using self "1.prems"(1) walk_unsearchable [of r bundlePath "bundle" e path es "[]"] by simp
  qed
next
  case (4 r bundlePath "bundle" search path m h es)
  have "\<exists>out. walk_dir r bundlePath bundle search (path @ [m]) h = Inr (out, []) \<and> set out \<subseteq> paths"
    using "4.prems"(1,2) "4.prems"(3) [of m h] by (intro "4.IH"(1)) simp_all
  moreover have "\<exists>out. walk_entries r bundlePath bundle search path es = Inr (out, []) \<and> set out \<subseteq> paths"
    if "walk_dir r bundlePath bundle search (path @ [m]) h = Inr (out1, [])" for out1
    using "4.prems" that by (intro "4.IH"(2)) auto
  ultimately show ?case by fastforce
qed (auto intro: visit_complete)

section \<open>Bundles\<close>

text \<open>
  A bundle that its checksums describe: a directory with a README.md and a readable list of checksums, at least
  one, each the hash of a file inside, and perhaps a signature; and every file inside is one of them, except for
  directories, which can be listed, and the names that are ignored. In particular there are no links.
\<close>

definition sums_describe :: "inode \<Rightarrow> bool" where
  "sums_describe d \<longleftrightarrow> (\<exists>content entries. has_content d [''SHA256SUMS''] content \<and> sums_content content entries \<and> entries \<noteq> []
     \<and> (\<forall>e \<in> set entries. \<exists>c. has_content d (Split (ce_path e) CHR ''/'') c \<and> sha256_hex c = ce_hash e)
     \<and> (\<forall>path f. inside d path = Some f \<longrightarrow> covered (ce_path ` set entries) path f))"

definition bundle_conforms :: "inode \<Rightarrow> bool" where
  "bundle_conforms d \<longleftrightarrow> (\<exists>f. inside d [''README.md''] = Some f \<and> file_type f = Regular)
   \<and> (\<forall>f. inside d [''SHA256SUMS.sig''] = Some f \<longrightarrow> file_type f = Regular) \<and> sums_describe d"

lemma control_file:
  assumes "inside (repo_tree r) bundlePath = Some (Dir p l s es)"
  shows "fst (validateBundleControlFile r bundlePath bundle name) = [] \<longleftrightarrow>
    (\<exists>f. inside (Dir p l s es) [name] = Some f \<and> file_type f = Regular)"
    and "snd (validateBundleControlFile r bundlePath bundle name) \<longleftrightarrow>
    (\<exists>f. inside (Dir p l s es) [name] = Some f \<and> file_type f = Regular)"
    and "s = None \<Longrightarrow> validateOptionalBundleControlFile r bundlePath bundle name = [] \<longleftrightarrow>
      (\<forall>f. inside (Dir p l s es) [name] = Some f \<longrightarrow> file_type f = Regular)"
  using Lstat_inside [OF assms, of name]
  by (auto simp: validateBundleControlFile_def validateOptionalBundleControlFile_def not_exist_def
      split: option.splits if_splits sum.splits)

lemma lstat_findings: "lstatRepoRelative r ref p \<noteq> Path_Findings []"
proof -
  have "lstat_parts r ref p full parts \<noteq> Path_Findings []" for full parts
    by (induction r ref p full parts rule: lstat_parts.induct) (auto simp: Let_def split: sum.splits)
  then show ?thesis by (simp add: lstatRepoRelative_def)
qed

lemma bundleRawFiles_covered:
  assumes "inside (repo_tree r) bundlePath = Some d" and "file_type d = Directory"
  shows "bundleRawFiles r bundlePath bundle = Inr (out, []) \<Longrightarrow> inside d path = Some f \<Longrightarrow> covered (set out) path f"
    and "distinct_names d \<Longrightarrow> \<forall>path f. inside d path = Some f \<longrightarrow> covered paths path f \<Longrightarrow>
      \<exists>out. bundleRawFiles r bundlePath bundle = Inr (out, []) \<and> set out \<subseteq> paths"
proof -
  assume "bundleRawFiles r bundlePath bundle = Inr (out, [])" and f: "inside d path = Some f"
  then obtain out' where "walk_dir r bundlePath bundle None [] d = Inr (out', [])" "set out = set out'"
    using inside_walk [OF assms(1)] by (auto simp: bundleRawFiles_def split: sum.splits)
  then show "covered (set out) path f" using walk_covered(1) [OF _ refl _ f] assms(2) by fastforce
next
  assume "distinct_names d" and "\<forall>path f. inside d path = Some f \<longrightarrow> covered paths path f"
  then obtain out where "walk_dir r bundlePath bundle None [] d = Inr (out, [])" "set out \<subseteq> paths"
    using walk_complete(1) [of None d "[]" paths r bundlePath "bundle"] assms(2) by auto
  then show "\<exists>out. bundleRawFiles r bundlePath bundle = Inr (out, []) \<and> set out \<subseteq> paths"
    using inside_walk [OF assms(1)] by (auto simp: bundleRawFiles_def)
qed

lemma check_sums_iff:
  assumes dir: "inside (repo_tree r) bundlePath = Some d" "d = Dir p l s es" and distinct: "distinct_names d"
    and regular: "\<exists>f. inside d [''SHA256SUMS''] = Some f \<and> file_type f = Regular"
  shows "check_sums r bundlePath bundle = [] \<longleftrightarrow> sums_describe d"
proof -
  let ?path = "bundlePath @ [''SHA256SUMS'']"
  obtain f where f: "inside (repo_tree r) ?path = Some f" "file_type f = Regular" "inside d [''SHA256SUMS''] = Some f"
    using regular dir(1) unfolding inside_append by (metis option.simps(5))
  have content: "Open r ?path = Inr (content, None) \<longleftrightarrow> has_content d [''SHA256SUMS''] content" for content
    using Open_inside [OF f(1,2)] f(3) by (simp add: has_content_def)
  have walked: "(\<exists>raw. bundleRawFiles r bundlePath bundle = Inr (raw, []) \<and> set raw \<subseteq> A)
      \<longleftrightarrow> (\<forall>path f. inside d path = Some f \<longrightarrow> covered A path f)" for A
    using bundleRawFiles_covered [OF dir(1)] dir(2) distinct covered_mono by (metis file_type_iff(1))
  have "check_sums r bundlePath bundle = [] \<longleftrightarrow> (\<exists>entries.
      parseSHA256SUMS r ?path (below bundle ''SHA256SUMS'') = Inr (entries, []) \<and> entries \<noteq> []
      \<and> (\<forall>e \<in> set entries. verifySHA256Entry r bundlePath bundle e = [])
      \<and> (\<exists>raw. bundleRawFiles r bundlePath bundle = Inr (raw, []) \<and> set raw \<subseteq> ce_path ` set entries))"
    by (auto simp: check_sums_def concat_eq_Nil_conv split: sum.splits prod.splits if_splits)
  then show ?thesis
    unfolding walked by (simp add: parse_sums_iff content verify_iff [OF dir] sums_describe_def) blast
qed

definition bundle_at :: "repo \<Rightarrow> string \<Rightarrow> bool" where
  "bundle_at r bundle \<longleftrightarrow> (\<exists>path d. safe_form bundle True path \<and> inside (repo_tree r) path = Some d \<and> file_type d = Directory
     \<and> bundle_conforms d)"

lemma checkBundle_iff:
  assumes "distinct_names (repo_tree r)"
  shows "checkBundle r bundle = [] \<longleftrightarrow> bundle_at r bundle"
proof (cases "\<exists>path d. safe_form bundle True path \<and> inside (repo_tree r) path = Some d \<and> file_type d = Directory")
  case True
  then obtain path d where d: "safe_form bundle True path" "inside (repo_tree r) path = Some d" "file_type d = Directory"
    by blast
  then obtain p l s es where dir: "inside (repo_tree r) path = Some (Dir p l s es)" "d = Dir p l s es" by auto
  have info: "lstatRepoRelative r bundle bundle = Path_Info path (info_of d)"
    using d by (auto simp: lstatRepoRelative_iff)
  note distinct = distinct_names_inside [OF assms dir(1)]
  let ?regular = "\<lambda>name. \<exists>f. inside d [name] = Some f \<and> file_type f = Regular"
  note control = control_file(1,2) [OF dir(1), folded dir(2)]
  have describe: "check_sums r path bundle = [] \<longleftrightarrow> sums_describe d" if "?regular ''SHA256SUMS''"
    using check_sums_iff [OF dir(1) refl distinct] that dir(2) by simp
  have sig: "validateOptionalBundleControlFile r path bundle ''SHA256SUMS.sig'' = [] \<longleftrightarrow>
      (\<forall>f. inside d [''SHA256SUMS.sig''] = Some f \<longrightarrow> file_type f = Regular)" if "?regular ''SHA256SUMS''"
    using control_file(3) [OF dir(1)] that dir(2) by (cases s) auto
  have "checkBundle r bundle = [] \<longleftrightarrow> ?regular ''README.md''
      \<and> validateOptionalBundleControlFile r path bundle ''SHA256SUMS.sig'' = []
      \<and> ?regular ''SHA256SUMS'' \<and> check_sums r path bundle = []"
    using info d(3) control [of "bundle" "''README.md''"] control [of "bundle" "''SHA256SUMS''"]
    by (auto simp: checkBundle_def Let_def split_beta simp del: file_type_iff)
  moreover have "sums_describe d \<Longrightarrow> ?regular ''SHA256SUMS''"
    by (auto simp: sums_describe_def has_content_def)
  ultimately have "checkBundle r bundle = [] \<longleftrightarrow> bundle_conforms d"
    using sig describe unfolding bundle_conforms_def by blast
  moreover have "bundle_at r bundle \<longleftrightarrow> bundle_conforms d"
    using d safe_form_path [OF d(1)] by (auto simp: bundle_at_def simp del: file_type_iff dest: safe_form_path)
  ultimately show ?thesis by simp
next
  case False
  then have "lstatRepoRelative r bundle bundle = Path_Info path info \<Longrightarrow> fi_type info \<noteq> Directory" for path info
    by (auto simp: lstatRepoRelative_iff)
  then have "checkBundle r bundle \<noteq> []"
    by (cases "lstatRepoRelative r bundle bundle") (auto simp: checkBundle_def lstat_findings)
  then show ?thesis using False by (auto simp: bundle_at_def)
qed

section \<open>Properties\<close>

text \<open>C38. The parser of SHA256SUMS files is exact: it gives entries without findings or an error if and only if the file can
  be read and its lines, blank ones apart, are the entries written as the hash, two blanks and the path, where every
  hash is 64 lowercase hexadecimal digits, every path is a safe relative path without white space or a leading
  star, and no path occurs twice. Reading such a file after writing it gives the same entries.\<close>

theorem parseSHA256SUMS_exact:
  "parseSHA256SUMS r path findingPath = Inr (entries, []) \<longleftrightarrow>
     (\<exists>content. Open r path = Inr (content, None) \<and> sums_content content entries)"
  by (rule parse_sums_iff)

end
