(* ===== verification/Evidence_Manifest.thy ===== *)
theory Evidence_Manifest
  imports Evidence_Index
begin

text \<open>
  The manifest of summary documents: what the tool writes from the baseline table, its own check accepts; and a
  write that fails changes nothing.
\<close>

section \<open>The references of the baseline\<close>

lemma sublist_trimLeadingDotSlash: "sublist (trimLeadingDotSlash ref) ref"
proof (induction ref rule: trimLeadingDotSlash.induct)
  case (1 ref)
  show ?case
  proof (cases "prefix ''./'' ref")
    case True
    then show ?thesis
      using "1.IH" [OF True] sublist_TrimPrefix [of ref "''./''"] by (subst trimLeadingDotSlash.simps) (auto intro: sublist_order.order_trans)
  next
    case False
    then show ?thesis by (subst trimLeadingDotSlash.simps) simp
  qed
qed

lemma sublist_Cons_iff: "sublist p s \<Longrightarrow> sublist p (x # s)"
  by (simp add: sublist_Cons_right)

lemma sublist_backtick_matches: "m \<in> set (backtick_matches s) \<Longrightarrow> sublist m s"
proof (induction s rule: backtick_matches.induct)
  case (2 c s)
  let ?body = "takeWhile (\<lambda>x. x \<noteq> backtick) s" and ?rest = "dropWhile (\<lambda>x. x \<noteq> backtick) s"
  have s: "s = ?body @ ?rest" by simp
  show ?case
  proof (cases "c = backtick \<and> ?body \<noteq> [] \<and> ?rest \<noteq> []")
    case True
    have "sublist ?body s" by (intro prefix_imp_sublist takeWhile_is_prefix)
    moreover have "suffix (tl ?rest) s"
      using suffix_tl [of ?rest] suffix_dropWhile [of "\<lambda>x. x \<noteq> backtick" s] by (rule suffix_order.order_trans)
    then have "sublist (tl ?rest) s" by (rule suffix_imp_sublist)
    moreover have "m = ?body \<or> m \<in> set (backtick_matches (tl ?rest))" using "2.prems" True by auto
    ultimately have "sublist m s" using "2.IH"(1) [OF refl refl True] sublist_order.order_trans by blast
    then show ?thesis by (rule sublist_Cons_iff)
  next
    case False
    then have "sublist m s" using "2.IH"(2) [OF refl refl False] "2.prems" by (auto simp: Let_def)
    then show ?thesis by (rule sublist_Cons_iff)
  qed
qed simp

lemma filter_matches_refs:
  "ref \<in> set (fst (filter_matches keep findingPath out ms)) \<Longrightarrow>
     ref \<in> set out \<or> (\<exists>m \<in> set ms. ref = trimLeadingDotSlash (TrimSpace m) \<and> keep ref \<and> safeRepoRelativeRef ref)"
proof (induction keep findingPath out ms rule: filter_matches.induct)
  case (2 keep findingPath out m ms)
  then show ?case by (fastforce simp: Let_def split: if_splits prod.splits)
qed simp

lemma summaryRefs_refs:
  assumes "ref \<in> set (fst (summaryRefs cell findingPath))"
  shows "sublist ref cell \<and> prefix ''docs/'' ref \<and> suffix ''.md'' ref \<and> safeRepoRelativeRef ref"
proof -
  obtain m where m: "m \<in> set (backtick_matches cell)" "ref = trimLeadingDotSlash (TrimSpace m)"
      "prefix ''docs/'' ref" "suffix ''.md'' ref" "safeRepoRelativeRef ref"
    using filter_matches_refs [OF assms [unfolded summaryRefs_def filteredBacktickRefs_def]] by auto
  have "sublist ref m"
    unfolding m(2) using sublist_trimLeadingDotSlash sublist_TrimSpace sublist_order.order_trans by blast
  then show ?thesis using m sublist_backtick_matches [OF m(1)] sublist_order.order_trans by blast
qed

lemma sublist_splitTableRow:
  assumes "cell \<in> set (splitTableRow line)"
  shows "sublist cell line"
proof -
  obtain p where p: "cell = TrimSpace p" "p \<in> set (Split (TrimSuffix (TrimPrefix (TrimSpace line) ''|'') ''|'') CHR ''|'')"
    using assms by (auto simp: splitTableRow_def)
  note cuts = sublist_TrimSpace [of p] sublist_Split [OF p(2)] sublist_TrimSuffix [of "TrimPrefix (TrimSpace line) ''|''" "''|''"]
    sublist_TrimPrefix [of "TrimSpace line" "''|''"] sublist_TrimSpace [of line]
  show ?thesis unfolding p(1)
    by (rule sublist_order.order_trans [OF cuts(1) sublist_order.order_trans [OF cuts(2) sublist_order.order_trans [OF cuts(3)
      sublist_order.order_trans [OF cuts(4) cuts(5)]]]])
qed

lemma index_rows_cells:
  "row \<in> set (fst (index_rows seen lines)) \<Longrightarrow> \<exists>line \<in> set lines. sublist (summaryCell row) line"
proof (induction seen lines rule: index_rows.induct)
  case (2 seen line lines)
  have "length (splitTableRow line) = length wantHeader \<Longrightarrow> sublist (splitTableRow line ! 3) line"
    by (intro sublist_splitTableRow nth_mem) (simp add: wantHeader_def)
  then show ?case using 2 by (auto simp: Let_def split: if_splits prod.splits)
qed simp

lemma index_table_cells:
  assumes "row \<in> set (fst (index_table lines))"
  shows "\<exists>line \<in> set lines. sublist (summaryCell row) line"
proof -
  have "row \<in> set (fst (index_rows {} (drop 1 lines))) \<or> row \<in> set (fst (index_rows {} (drop 2 lines)))"
    using assms by (auto simp: index_table_def Let_def split: if_splits prod.splits)
  then obtain k where "row \<in> set (fst (index_rows {} (drop k lines)))" by blast
  from index_rows_cells [OF this] show ?thesis by (auto dest: in_set_dropD)
qed

lemma table_lines_subset: "set (fst (table_lines inSection lines)) \<subseteq> set lines"
  by (induction inSection lines rule: table_lines.induct) (auto split: prod.splits if_splits)

lemma scan_lines_short:
  assumes "l \<in> set (fst (scan_lines s))"
  shows "CHR 0x0A \<notin> set l" and "length l < maxScanTokenSize"
proof -
  obtain k where k: "k \<in> set (raw_lines s)" "l = drop_cr k" "length k < maxScanTokenSize"
    using assms by (auto simp: scan_lines_def Let_def dest: set_takeWhileD)
  have "sublist l k" unfolding k(2) drop_cr_def by (rule sublist_TrimSuffix)
  then show "CHR 0x0A \<notin> set l" "length l < maxScanTokenSize"
    using raw_lines_free [OF k(1)] k(3) sublist_set [of l k] sublist_length_le [of l k] by auto
qed

lemma parseBaselineIndex_table:
  assumes "parseBaselineIndex r path = Inr out"
  shows "\<exists>content. out = index_table (fst (table_lines False (fst (scan_lines content))))"
proof -
  obtain content where "ReadFile r path = Inr content"
    using assms by (cases "ReadFile r path") (simp_all add: parseBaselineIndex_def)
  then have "out = index_table (fst (table_lines False (fst (scan_lines content))))"
    using assms by (auto simp: parseBaselineIndex_def Let_def split: prod.splits if_splits)
  then show ?thesis ..
qed

section \<open>The manifest's text\<close>

definition manifest_ref :: "string \<Rightarrow> bool" where
  "manifest_ref ref \<longleftrightarrow> text_line ref \<and> ref \<noteq> [] \<and> \<not> prefix ''#'' ref \<and> TrimSpace ref = ref"

lemma manifest_lines_refs: "list_all manifest_ref refs \<Longrightarrow> manifest_lines k refs = (refs, [])"
  by (induction refs arbitrary: k) (auto simp: manifest_ref_def)

lemma parse_manifest_content:
  assumes "list_all manifest_ref refs"
  shows "parseSummaryDocsManifest (manifest_content refs) = Inr (refs, [])"
proof -
  let ?header = "''# Generated from docs/evidence-baseline.md by tools/evidencebaseline --write-summary-docs.''"
  have "text_line ?header" by (simp add: text_line_def maxScanTokenSize_def suffix_def) 
  then have "list_all text_line (?header # refs)" using assms by (auto simp: manifest_ref_def list_all_iff)
  from scan_lines_lines [OF this] show ?thesis
    by (simp add: parseSummaryDocsManifest_def manifest_content_def manifest_lines_refs [OF assms])
qed

lemma baseline_refs:
  assumes "summaryDocsFromBaseline r = Inr (refs, findings)"
  shows "list_all manifest_ref refs"
  unfolding list_all_iff
proof
  fix ref assume "ref \<in> set refs"
  with assms obtain rows fs row where rows: "parseBaselineIndex r baseline_path = Inr (rows, fs)" "row \<in> set rows"
      "ref \<in> set (fst (row_refs row))"
    by (auto simp: summaryDocsFromBaseline_def sortedKeys_def split: sum.splits)
  then obtain content where content: "row \<in> set (fst (index_table (fst (table_lines False (fst (scan_lines content))))))"
    by (metis fst_conv parseBaselineIndex_table)
  then obtain line where line: "line \<in> set (fst (scan_lines content))" "sublist (summaryCell row) line"
    using index_table_cells table_lines_subset by blast
  have ref: "sublist ref (summaryCell row)" "prefix ''docs/'' ref" "suffix ''.md'' ref"
    using summaryRefs_refs rows(3) by (auto simp: row_refs_def)
  have sub: "sublist ref line" using ref(1) line(2) by (rule sublist_order.order_trans)
  obtain t where t: "ref = ''docs/'' @ t" using ref(2) by (auto simp: prefix_def)
  have d: "last ref = CHR ''d''" using ref(3) by (auto simp: suffix_def)
  then have "\<not> suffix [CHR 0x0D] ref" by (auto simp: suffix_def)
  then show "manifest_ref ref"
    using TrimSpace_id [of ref] d sublist_set [OF sub] sublist_length_le [OF sub] scan_lines_short [OF line(1)] t
    by (auto simp: manifest_ref_def text_line_def is_space_def)
qed

section \<open>The write\<close>

definition manifest_path :: "string list" where
  "manifest_path = [''docs'', ''evidence-baseline-summary-docs.txt'']"

lemma manifest_ref_path: "ref_path summaryDocsManifestRef = manifest_path" "safeRepoRelativeRef summaryDocsManifestRef"
  by code_simp+

lemma map_of_change_entry: "map_of (change_entry n h es) m = (if m = n then map_option h (map_of es n) else map_of es m)"
  by (induction n h es rule: change_entry.induct) auto

lemma change_entry_id: "map_of es n = Some f \<Longrightarrow> h f = f \<Longrightarrow> change_entry n h es = es"
  by (induction n h es rule: change_entry.induct) (auto split: if_splits)

lemma inside_change_dir:
  "inside f dir = Some (Dir p l s es) \<Longrightarrow> inside (change_dir f dir g) dir = Some (Dir p l s (g es))"
  by (induction f dir rule: inside.induct) (auto simp: map_of_change_entry split: option.splits)

lemma change_dir_id: "inside f dir = Some (Dir p l s es) \<Longrightarrow> g es = es \<Longrightarrow> change_dir f dir g = f"
  by (induction f dir rule: inside.induct) (auto intro: change_entry_id split: option.splits)

lemma map_of_drop_entry: "map_of (drop_entry n es) m = (if m = n then None else map_of es m)"
  by (induction es) (auto simp: drop_entry_def)

lemma drop_entry_id: "map_of es n = None \<Longrightarrow> drop_entry n es = es"
  by (induction es) (auto simp: drop_entry_def split: if_splits)

lemma map_of_put_entry: "map_of (put_entry n f es) m = (if m = n then Some f else map_of es m)"
proof -
  have "map_of (insort_key fst (n, f) ds) m = (if m = n then Some f else map_of ds m)" if "n \<notin> fst ` set ds" for ds
    using that by (induction ds) auto
  moreover have "n \<notin> fst ` set (drop_entry n es)" by (auto simp: drop_entry_def)
  ultimately show ?thesis by (simp add: put_entry_def map_of_drop_entry)
qed

lemma repo_tree_in_dir: "repo_tree (in_dir r dir g) = change_dir (repo_tree r) dir g"
  by (cases dir) (simp_all add: in_dir_def repo_tree_def)

lemma lstat_parts_missing:
  assumes "inside (repo_tree r) full = Some (Dir p l s es)"
    and "lstat_parts r ref findingPath full parts = Path_Err path e" and "not_exist e"
  shows "path = full @ parts \<and> parts \<noteq> [] \<and> (\<exists>p l es. inside (repo_tree r) (butlast path) = Some (Dir p l None es))"
  using assms
proof (induction parts arbitrary: full p l s es)
  case (Cons part parts)
  note lstat = Lstat_inside [OF Cons.prems(1), of part] and inside = inside_snoc [OF Cons.prems(1), of part]
  show ?case
  proof (cases "inside (repo_tree r) (full @ [part])")
    case None
    then show ?thesis using Cons.prems lstat inside by (auto simp: not_exist_def Let_def split: option.splits if_splits)
  next
    case (Some g)
    then have l: "Lstat r (full @ [part]) = Inr (info_of g)" using lstat inside by (auto split: option.splits)
    then show ?thesis
      using Cons.IH [of "full @ [part]"] Cons.prems Some by (auto simp: Let_def split: if_splits)
  qed
qed simp

lemma manifest_write_path:
  assumes "summaryDocsManifestWritePath r = Inr path"
  shows "path = manifest_path" and "\<exists>p l es. inside (repo_tree r) [''docs''] = Some (Dir p l None es)"
proof -
  have parts: "lstatRepoRelative r summaryDocsManifestRef summaryDocsManifestRef =
      lstat_parts r summaryDocsManifestRef summaryDocsManifestRef [] manifest_path"
    using manifest_ref_path by (simp add: lstatRepoRelative_def ref_path_def)
  have root: "inside (repo_tree r) [] = Some (Dir 493 None (repo_search r) (repo_entries r))" by (simp add: repo_tree_def)
  have "path = manifest_path \<and> (\<exists>p l es. inside (repo_tree r) (butlast path) = Some (Dir p l None es))"
  proof (cases "lstatRepoRelative r summaryDocsManifestRef summaryDocsManifestRef")
    case (Path_Err full e)
    then show ?thesis using assms lstat_parts_missing [OF root] parts
      by (auto simp: summaryDocsManifestWritePath_def split: if_splits)
  next
    case (Path_Info full info)
    then have "path = full" using assms by (auto simp: summaryDocsManifestWritePath_def split: if_splits)
    moreover have "full = manifest_path" "inside (repo_tree r) manifest_path \<noteq> None"
      using Path_Info lstatRepoRelative_info manifest_ref_path(1) by auto
    moreover have "manifest_path = [''docs''] @ last manifest_path # []" by (simp add: manifest_path_def)
    ultimately show ?thesis using inside_not_Dir by (metis butlast_snoc)
  qed (use assms in \<open>simp add: summaryDocsManifestWritePath_def\<close>)
  then show "path = manifest_path" "\<exists>p l es. inside (repo_tree r) [''docs''] = Some (Dir p l None es)"
    by (auto simp: manifest_path_def)
qed

lemma readSummaryDocsManifest_file:
  assumes "inside (repo_tree r) manifest_path = Some (File p None content None)"
  shows "readSummaryDocsManifest r = parseSummaryDocsManifest content"
proof -
  have "lstatRepoRelative r summaryDocsManifestRef summaryDocsManifestRef = Path_Info manifest_path (info_of (File p None content None))"
    using assms manifest_ref_path by (auto simp: lstatRepoRelative_info)
  moreover have "ReadFile r manifest_path = Inr content"
    using inside_walk [OF assms] by (simp add: ReadFile_def Open_def resolve_def)
  ultimately show ?thesis by (simp add: readSummaryDocsManifest_def file_type_def)
qed

section \<open>Properties\<close>

text \<open>C37. Writing the manifest of summary documents is atomic and right: when the write reports no error, the tool's own
  check accepts the manifest for the references it was given, which are those of the baseline; when it reports
  an error at any of its steps and the temporary file could be removed, the repository is as it was.\<close>

theorem writeSummaryDocsManifest_correct:
  assumes refs: "summaryDocsFromBaseline r = Inr (refs, findings)"
    and fresh: "inside (repo_tree r) [''docs'', temp_name w] = None"
    and wrote: "writeSummaryDocsManifest w r refs = (err, r')"
  shows "case err of None \<Rightarrow> checkSummaryDocsManifest r' refs = [] | Some e \<Rightarrow> leftover w = None \<longrightarrow> r' = r"
proof (cases "summaryDocsManifestWritePath r")
  case (Inl e)
  then show ?thesis using wrote by (auto simp: writeSummaryDocsManifest_def)
next
  case (Inr path)
  obtain p l es where docs: "inside (repo_tree r) [''docs''] = Some (Dir p l None es)"
    using manifest_write_path [OF Inr] by blast
  have path: "path = manifest_path" "butlast path = [''docs'']" "last path = ''evidence-baseline-summary-docs.txt''"
    using manifest_write_path(1) [OF Inr] by (simp_all add: manifest_path_def)
  show ?thesis
  proof (cases err)
    case None
    let ?g = "\<lambda>es. put_entry (last path) (File 420 None (manifest_content refs) None) (drop_entry (temp_name w) es)"
    have "r' = in_dir r [''docs''] ?g"
      using wrote Inr None path(2) by (auto simp: writeSummaryDocsManifest_def Let_def split: option.splits)
    then have "inside (repo_tree r') [''docs''] = Some (Dir p l None (?g es))"
      using inside_change_dir [OF docs] by (simp add: repo_tree_in_dir)
    from inside_snoc [OF this, of "last path"]
    have "inside (repo_tree r') manifest_path = Some (File 420 None (manifest_content refs) None)"
      by (simp add: map_of_put_entry manifest_path_def path(3))
    then show ?thesis
      using parse_manifest_content [OF baseline_refs [OF refs]] None
      by (simp add: checkSummaryDocsManifest_def readSummaryDocsManifest_file)
  next
    case (Some e)
    have "map_of es (temp_name w) = None" using fresh inside_snoc [OF docs, of "temp_name w"] by simp
    then have "in_dir r [''docs''] (drop_entry (temp_name w)) = r"
      using change_dir_id [OF docs, of "drop_entry (temp_name w)"] drop_entry_id by (simp add: in_dir_def repo_tree_def)
    then show ?thesis using wrote Inr Some path(2)
      by (auto simp: writeSummaryDocsManifest_def Let_def split: option.splits)
  qed
qed

section \<open>A sample repository\<close>

definition sample_lines :: "string list" where
  "sample_lines = [''# Evidence'', ''## Baseline Index'', [],
     ''| Evidence lane | Pinned baseline | Raw artifacts | Summary docs | Freshness rule |'',
     ''| --- | --- | --- | --- | --- |'',
     ''| Fuzz | v1 | `docs/evidence/fuzz/` | `docs/fuzz.md` | yearly |'']"

definition sample_baseline :: string where
  "sample_baseline = concat (map (\<lambda>l. l @ [CHR 0x0A]) sample_lines)"

definition sample_repo :: repo where
  "sample_repo = \<lparr>repo_root = ''../..'', repo_search = None,
     repo_entries = [(''docs'', Dir 493 None None [(''evidence-baseline.md'', File 420 None sample_baseline None),
        (''fuzz.md'', File 420 None [] None)])],
     repo_links = (\<lambda>target path. Inl ENOENT)\<rparr>"

definition sample_writing :: writing where
  "sample_writing = \<lparr>temp_name = ''.evidence-baseline-summary-docs-1.tmp'', create_fails = None, write_fails = None,
     chmod_fails = None, close_fails = None, rename_fails = None, leftover = None\<rparr>"

lemma sample_scan: "scan_lines sample_baseline = (sample_lines, None)"
  unfolding sample_baseline_def
  by (rule scan_lines_lines) (simp add: sample_lines_def text_line_def maxScanTokenSize_def suffix_singleton)

lemma sample_index:
  "index_table (fst (table_lines False sample_lines)) =
     ([\<lparr>lane = ''Fuzz'', rawCell = ''`docs/evidence/fuzz/`'', summaryCell = ''`docs/fuzz.md`''\<rparr>], [])"
  by code_simp

lemma sample_refs: "summaryDocsFromBaseline sample_repo = Inr ([''docs/fuzz.md''], [])"
proof -
  have "ReadFile sample_repo baseline_path = Inr sample_baseline" by code_simp
  then have "parseBaselineIndex sample_repo baseline_path =
      Inr ([\<lparr>lane = ''Fuzz'', rawCell = ''`docs/evidence/fuzz/`'', summaryCell = ''`docs/fuzz.md`''\<rparr>], [])"
    using sample_index by (auto simp: parseBaselineIndex_def sample_scan split: prod.split)
  moreover have "row_refs \<lparr>lane = ''Fuzz'', rawCell = ''`docs/evidence/fuzz/`'', summaryCell = ''`docs/fuzz.md`''\<rparr> =
      ([''docs/fuzz.md''], [])"
    by code_simp
  ultimately show ?thesis by (simp add: summaryDocsFromBaseline_def sortedKeys_def)
qed

lemma sample_write: "fst (writeSummaryDocsManifest sample_writing sample_repo [''docs/fuzz.md'']) = None"
  by code_simp

lemma writeSummaryDocsManifest_correct_witness:
  "checkSummaryDocsManifest (snd (writeSummaryDocsManifest sample_writing sample_repo [''docs/fuzz.md''])) [''docs/fuzz.md''] = []"
proof -
  have "inside (repo_tree sample_repo) [''docs'', temp_name sample_writing] = None" by code_simp
  then show ?thesis
    using writeSummaryDocsManifest_correct [OF sample_refs _ surjective_pairing, of sample_writing] sample_write by simp
qed

end
