(* ===== verification/Evidence_Main.thy ===== *)
theory Evidence_Main
  imports Evidence_Correct Evidence_Manifest
begin

text \<open>
  The evidence baseline tool as a whole: \<open>discoverEvidenceBundles\<close>, \<open>checkRepo\<close> and \<open>main\<close> of
  tools/evidencebaseline/main.go, and what a repository that passes is.
\<close>

section \<open>Discovering bundles\<close>

definition rootRef :: string where "rootRef = ''docs/evidence''"

definition bundle_names :: "dir_entries \<Rightarrow> string list" where
  "bundle_names es = sort (map (\<lambda>(name, f). ''docs/evidence/'' @ name)
     (filter (\<lambda>(name, f). \<not> HasPrefix name ''.'' \<and> (file_type f = Directory \<or> file_type f = Symlink)) es))"

definition discoverEvidenceBundles :: "repo \<Rightarrow> io_error + string list \<times> finding list" where
  "discoverEvidenceBundles r =
     (case lstatRepoRelative r rootRef rootRef of
        Path_Err full e \<Rightarrow> Inl (Os_Err e)
      | Path_Findings findings \<Rightarrow> Inr ([], findings)
      | Path_Info full info \<Rightarrow>
          if fi_type info = Symlink then Inr ([], [Finding rootRef ''evidence directory must not be a symlink''])
          else if fi_type info \<noteq> Directory then Inr ([], [Finding rootRef ''evidence directory is not a directory''])
          else (case ReadDir r full of Inl e \<Rightarrow> Inl (Os_Err e) | Inr es \<Rightarrow> Inr (bundle_names es, [])))"

section \<open>The check\<close>

text \<open>The two loops over the references of a row: the findings, and the bundles of the raw artifacts.\<close>

fun check_raw_refs :: "repo \<Rightarrow> string \<Rightarrow> string list \<Rightarrow> io_error + finding list \<times> string set" where
  "check_raw_refs r path [] = Inr ([], {})"
| "check_raw_refs r path (ref # refs) =
     (case lstatRepoRelative r ref path of
        Path_Findings fs \<Rightarrow> map_sum id (\<lambda>(findings, bundles). (fs @ findings, bundles)) (check_raw_refs r path refs)
      | Path_Err full e \<Rightarrow>
          if not_exist e
          then map_sum id (\<lambda>(findings, bundles). (Finding path (''referenced raw artifact does not exist: '' @ ref) # findings, bundles))
                 (check_raw_refs r path refs)
          else Inl (Os_Err e)
      | Path_Info full info \<Rightarrow>
          (let link = (if fi_type info = Symlink then [Finding path (''referenced raw artifact is a symlink: '' @ ref)] else []);
               b = evidenceBundleForRef ref info
           in map_sum id (\<lambda>(findings, bundles). (link @ findings, if b \<noteq> [] then insert b bundles else bundles))
                (check_raw_refs r path refs)))"

fun check_doc_refs :: "repo \<Rightarrow> string \<Rightarrow> string list \<Rightarrow> io_error + finding list" where
  "check_doc_refs r path [] = Inr []"
| "check_doc_refs r path (ref # refs) =
     (case lstatRepoRelative r ref path of
        Path_Findings fs \<Rightarrow> map_sum id (\<lambda>findings. fs @ findings) (check_doc_refs r path refs)
      | Path_Err full e \<Rightarrow>
          if not_exist e
          then map_sum id (\<lambda>findings. Finding path (''referenced summary doc does not exist: '' @ ref) # findings) (check_doc_refs r path refs)
          else Inl (Os_Err e)
      | Path_Info full info \<Rightarrow>
          (let bad = (if fi_type info = Symlink then [Finding path (''referenced summary doc is a symlink: '' @ ref)]
                      else if fi_type info = Directory then [Finding path (''referenced summary doc is a directory: '' @ ref)]
                      else [])
           in map_sum id (\<lambda>findings. bad @ findings) (check_doc_refs r path refs)))"

text \<open>The loop over the rows: the findings, the bundles and the summary documents.\<close>

fun check_rows :: "repo \<Rightarrow> baselineRow list \<Rightarrow> io_error + finding list \<times> string set \<times> string set" where
  "check_rows r [] = Inr ([], {}, {})"
| "check_rows r (row # rows) =
     (let path = baselineRef @ '':'' @ lane row;
          (rawRefs, rawFindings) = evidenceRefs (rawCell row) path;
          (docRefs, docFindings) = summaryRefs (summaryCell row) path
      in case check_raw_refs r path rawRefs of
           Inl e \<Rightarrow> Inl e
         | Inr (fs, bundles) \<Rightarrow>
             (case check_doc_refs r path docRefs of
                Inl e \<Rightarrow> Inl e
              | Inr gs \<Rightarrow>
                  map_sum id (\<lambda>(findings, bundles', docs).
                      (rawFindings @ fs @ docFindings @ gs @ findings, bundles \<union> bundles', set docRefs \<union> docs))
                    (check_rows r rows)))"

text \<open>
  The final loop ranges over a Go map, in any order; here it is the sorted order of the bundles. The findings
  are sorted in the end, so the order does not matter (lemma \<open>bundle_order\<close>).
\<close>

definition evidence_checkRepo :: "repo \<Rightarrow> io_error + finding list" where
  "evidence_checkRepo r =
     (case lstatRepoRelative r baselineRef baselineRef of
        Path_Err full e \<Rightarrow> Inl (Os_Err e)
      | Path_Findings pathFindings \<Rightarrow> Inr pathFindings
      | Path_Info full info \<Rightarrow>
          if fi_type info = Symlink then Inr [Finding baselineRef ''evidence baseline file must not be a symlink'']
          else if fi_type info \<noteq> Regular then Inr [Finding baselineRef ''evidence baseline file must be a regular file'']
          else
            (case parseBaselineIndex r baseline_path of
               Inl e \<Rightarrow> Inl e
             | Inr (rows, findings) \<Rightarrow>
                 (case check_rows r rows of
                    Inl e \<Rightarrow> Inl e
                  | Inr (rowFindings, referenced, docs) \<Rightarrow>
                      (let manifestFindings = checkSummaryDocsManifest r (sortedKeys docs)
                       in case discoverEvidenceBundles r of
                            Inl e \<Rightarrow> Inl e
                          | Inr (allBundles, bundleFindings) \<Rightarrow>
                              Inr (sortFindings (findings @ rowFindings @ manifestFindings @ bundleFindings
                                @ concat (map (checkBundle r) (sortedKeys (referenced \<union> set allBundles)))))))))"

lemma mset_concat_map: "mset (concat (map f ks)) = (\<Sum>k \<in># mset ks. mset (f k))"
  by (induction ks) simp_all

lemma bundle_order:
  assumes "distinct ks" and "set ks = B"
  shows "sortFindings (fs @ concat (map f ks)) = sortFindings (fs @ concat (map f (sortedKeys B)))"
proof (rule sortFindings_cong)
  have "mset ks = mset (sortedKeys B)"
    unfolding assms(2) [symmetric] using assms(1) by (simp add: sortedKeys_def set_eq_iff_mset_eq_distinct [symmetric])
  then show "mset (fs @ concat (map f ks)) = mset (fs @ concat (map f (sortedKeys B)))"
    by (simp add: mset_concat_map)
qed

section \<open>The program\<close>

record flags =
  list_summary_docs :: bool
  write_summary_docs :: bool

definition tool_failed :: "string \<Rightarrow> outcome" where
  "tool_failed e = \<lparr>exit_status = 2, stdout = [], stderr = ''evidence baseline checker failed: '' @ e @ newline\<rparr>"

definition tool_found :: "finding list \<Rightarrow> outcome" where
  "tool_found findings = \<lparr>exit_status = 1, stdout = [], stderr = concat (map finding_line (sortFindings findings))\<rparr>"

definition tool_passed :: "string \<Rightarrow> outcome" where
  "tool_passed out = \<lparr>exit_status = 0, stdout = out, stderr = []\<rparr>"

definition evidence_main :: "flags \<Rightarrow> writing \<Rightarrow> repo \<Rightarrow> outcome \<times> repo" where
  "evidence_main flags w r =
     (if list_summary_docs flags \<and> write_summary_docs flags
      then (tool_failed ''--list-summary-docs and --write-summary-docs are mutually exclusive'', r)
      else if list_summary_docs flags \<or> write_summary_docs flags
      then
        (case summaryDocsFromBaseline r of
           Inl e \<Rightarrow> (tool_failed (err_text r e), r)
         | Inr (refs, findings) \<Rightarrow>
             if findings \<noteq> [] then (tool_found findings, r)
             else if write_summary_docs flags
             then (case writeSummaryDocsManifest w r refs of
                     (Some e, r') \<Rightarrow> (tool_failed (err_text r e), r')
                   | (None, r') \<Rightarrow> (tool_passed [], r'))
             else (tool_passed (concat (map (\<lambda>ref. ref @ newline) refs)), r))
      else
        (case evidence_checkRepo r of
           Inl e \<Rightarrow> (tool_failed (err_text r e), r)
         | Inr findings \<Rightarrow>
             if findings \<noteq> [] then (tool_found findings, r)
             else (tool_passed (''evidence baseline checker passed'' @ newline), r)))"

section \<open>What passes\<close>

text \<open>A reference to a file inside the repository of a type among those given.\<close>

definition refers :: "repo \<Rightarrow> string \<Rightarrow> file_type set \<Rightarrow> bool" where
  "refers r ref types \<longleftrightarrow> (\<exists>path f. safe_form ref True path \<and> inside (repo_tree r) path = Some f \<and> file_type f \<in> types)"

text \<open>The references to raw artifacts of a row, and the bundles that the artifacts belong to.\<close>

definition raw_refs :: "baselineRow \<Rightarrow> string list \<times> finding list" where
  "raw_refs row = evidenceRefs (rawCell row) (baselineRef @ '':'' @ lane row)"

definition ref_bundles :: "repo \<Rightarrow> string list \<Rightarrow> string set" where
  "ref_bundles r refs = {b. b \<noteq> [] \<and> (\<exists>ref \<in> set refs. \<exists>path f. safe_form ref True path \<and> inside (repo_tree r) path = Some f
     \<and> b = evidenceBundleForRef ref (info_of f))}"

definition row_conforms :: "repo \<Rightarrow> baselineRow \<Rightarrow> bool" where
  "row_conforms r row \<longleftrightarrow> snd (raw_refs row) = [] \<and> snd (row_refs row) = []
   \<and> (\<forall>ref \<in> set (fst (raw_refs row)). refers r ref (- {Symlink}))
   \<and> (\<forall>ref \<in> set (fst (row_refs row)). refers r ref (- {Symlink, Directory}))"

text \<open>
  The baseline: a regular file whose table parses without findings, with conforming rows; every bundle that
  a row refers to conforms; and the manifest is the sorted list of the summary documents of the rows.
\<close>

definition baseline_conforms :: "repo \<Rightarrow> bool" where
  "baseline_conforms r \<longleftrightarrow> refers r baselineRef {Regular}
   \<and> (\<exists>rows. parseBaselineIndex r baseline_path = Inr (rows, []) \<and> list_all (row_conforms r) rows
        \<and> (\<forall>row \<in> set rows. \<forall>b \<in> ref_bundles r (fst (raw_refs row)). bundle_at r b)
        \<and> readSummaryDocsManifest r = Inr (sortedKeys (\<Union>row \<in> set rows. set (fst (row_refs row))), []))"

text \<open>The evidence directory: it can be listed, and all directories and links in it that are not hidden are bundles.\<close>

definition bundles_conform :: "repo \<Rightarrow> bool" where
  "bundles_conform r \<longleftrightarrow> (\<exists>p s es. inside (repo_tree r) [''docs'', ''evidence''] = Some (Dir p None s es)
     \<and> (\<forall>(name, f) \<in> set es. \<not> prefix ''.'' name \<longrightarrow> file_type f \<in> {Directory, Symlink} \<longrightarrow> bundle_at r (''docs/evidence/'' @ name)))"

lemma refers_info: "refers r ref types \<longleftrightarrow> (\<exists>full info. lstatRepoRelative r ref p = Path_Info full info \<and> fi_type info \<in> types)"
  by (auto simp: lstatRepoRelative_iff refers_def simp del: file_type_iff)

lemma refers_lstat: "lstatRepoRelative r ref p = Path_Info full info \<Longrightarrow> refers r ref types \<longleftrightarrow> fi_type info \<in> types"
  by (simp add: refers_info [where p = p])

lemma ref_bundles_info:
  "b \<in> ref_bundles r refs \<longleftrightarrow> b \<noteq> [] \<and> (\<exists>ref \<in> set refs. \<exists>full info. lstatRepoRelative r ref p = Path_Info full info
     \<and> b = evidenceBundleForRef ref info)"
  by (auto simp: ref_bundles_def lstatRepoRelative_iff)

lemma ref_bundles_Cons:
  assumes "lstatRepoRelative r ref p = Path_Info full info"
  shows "ref_bundles r (ref # refs) = (if evidenceBundleForRef ref info \<noteq> [] then {evidenceBundleForRef ref info} else {}) \<union> ref_bundles r refs"
  by (rule set_eqI) (auto simp: ref_bundles_info [where p = p] assms)

lemma check_raw_refs_iff:
  "check_raw_refs r path refs = Inr ([], B) \<longleftrightarrow> (\<forall>ref \<in> set refs. refers r ref (- {Symlink})) \<and> B = ref_bundles r refs"
proof (induction refs arbitrary: B)
  case (Cons ref refs)
  show ?case
  proof (cases "lstatRepoRelative r ref path")
    case (Path_Info full info)
    have "check_raw_refs r path (ref # refs) = Inr ([], B) \<longleftrightarrow> fi_type info \<noteq> Symlink \<and> (\<exists>C. check_raw_refs r path refs = Inr ([], C)
        \<and> B = (if evidenceBundleForRef ref info \<noteq> [] then {evidenceBundleForRef ref info} else {}) \<union> C)"
      using Path_Info by (cases "check_raw_refs r path refs") (auto simp: Let_def)
    then show ?thesis
      unfolding Cons.IH by (auto simp: refers_lstat [OF Path_Info] ref_bundles_Cons [OF Path_Info])
  qed (use lstat_findings [of r ref path] in \<open>cases "check_raw_refs r path refs"; auto simp: refers_info [where p = path]\<close>)+
qed (auto simp: ref_bundles_def)

lemma check_doc_refs_iff:
  "check_doc_refs r path refs = Inr [] \<longleftrightarrow> (\<forall>ref \<in> set refs. refers r ref (- {Symlink, Directory}))"
proof (induction refs)
  case (Cons ref refs)
  show ?case
  proof (cases "lstatRepoRelative r ref path")
    case (Path_Info full info)
    have "check_doc_refs r path (ref # refs) = Inr [] \<longleftrightarrow> fi_type info \<notin> {Symlink, Directory} \<and> check_doc_refs r path refs = Inr []"
      using Path_Info by (cases "check_doc_refs r path refs") (auto simp: Let_def)
    then show ?thesis unfolding Cons.IH by (simp add: refers_lstat [OF Path_Info])
  qed (use lstat_findings [of r ref path] in \<open>cases "check_doc_refs r path refs"; auto simp: refers_info [where p = path]\<close>)+
qed simp

lemma check_rows_iff:
  "check_rows r rows = Inr ([], B, D) \<longleftrightarrow> list_all (row_conforms r) rows
     \<and> B = (\<Union>row \<in> set rows. ref_bundles r (fst (raw_refs row))) \<and> D = (\<Union>row \<in> set rows. set (fst (row_refs row)))"
proof (induction rows arbitrary: B D)
  case (Cons row rows)
  let ?path = "baselineRef @ CHR '':'' # lane row"
  obtain raws rawFindings docs docFindings where refs: "raw_refs row = (raws, rawFindings)" "row_refs row = (docs, docFindings)"
    by force
  have "check_rows r (row # rows) = Inr ([], B, D) \<longleftrightarrow> rawFindings = [] \<and> docFindings = []
      \<and> (\<exists>B1 B2 D2. check_raw_refs r ?path raws = Inr ([], B1) \<and> check_doc_refs r ?path docs = Inr []
           \<and> check_rows r rows = Inr ([], B2, D2) \<and> B = B1 \<union> B2 \<and> D = set docs \<union> D2)"
    using refs
    by (cases "check_raw_refs r ?path raws"; cases "check_doc_refs r ?path docs"; cases "check_rows r rows")
      (auto simp: raw_refs_def row_refs_def Let_def)
  moreover have "row_conforms r row \<longleftrightarrow> rawFindings = [] \<and> docFindings = []
      \<and> (\<forall>ref \<in> set raws. refers r ref (- {Symlink})) \<and> (\<forall>ref \<in> set docs. refers r ref (- {Symlink, Directory}))"
    by (simp add: row_conforms_def refs)
  ultimately show ?case
    unfolding Cons.IH check_raw_refs_iff check_doc_refs_iff by (auto simp: refs simp del: check_rows.simps)
qed auto

lemma checkSummaryDocsManifest_iff: "checkSummaryDocsManifest r want = [] \<longleftrightarrow> readSummaryDocsManifest r = Inr (want, [])"
  by (auto simp: checkSummaryDocsManifest_def split: sum.splits)

lemma rootRef_lstat:
  "lstatRepoRelative r rootRef rootRef = Path_Info full info \<longleftrightarrow> full = [''docs'', ''evidence'']
     \<and> (\<exists>f. inside (repo_tree r) full = Some f \<and> info = info_of f)"
proof -
  have "ref_path rootRef = [''docs'', ''evidence'']" "safeRepoRelativeRef rootRef" by code_simp+
  then show ?thesis by (auto simp: lstatRepoRelative_info)
qed

lemma discover_iff:
  "discoverEvidenceBundles r = Inr (bundles, []) \<longleftrightarrow>
     (\<exists>p s es. inside (repo_tree r) [''docs'', ''evidence''] = Some (Dir p None s es) \<and> bundles = bundle_names es)"
proof (cases "\<exists>p l s es. inside (repo_tree r) [''docs'', ''evidence''] = Some (Dir p l s es)")
  case True
  then obtain p l s es where dir: "inside (repo_tree r) [''docs'', ''evidence''] = Some (Dir p l s es)" by blast
  then have "lstatRepoRelative r rootRef rootRef = Path_Info [''docs'', ''evidence''] (info_of (Dir p l s es))"
    by (simp add: rootRef_lstat)
  then show ?thesis
    using dir inside_walk [OF dir] by (cases l) (auto simp: discoverEvidenceBundles_def ReadDir_def resolve_def)
next
  case False
  then have "lstatRepoRelative r rootRef rootRef = Path_Info full info \<Longrightarrow> fi_type info \<noteq> Directory" for full info
    by (auto simp: rootRef_lstat)
  then have "discoverEvidenceBundles r \<noteq> Inr (bundles, [])"
    using lstat_findings [of r rootRef rootRef]
    by (cases "lstatRepoRelative r rootRef rootRef") (auto simp: discoverEvidenceBundles_def)
  then show ?thesis using False by blast
qed

lemma all_bundle_names:
  "(\<forall>b \<in> set (bundle_names es). P b) \<longleftrightarrow> (\<forall>(name, f) \<in> set es. \<not> prefix ''.'' name \<longrightarrow>
     file_type f \<in> {Directory, Symlink} \<longrightarrow> P (''docs/evidence/'' @ name))"
  by (auto simp: bundle_names_def simp del: file_type_iff)

lemma set_sortedKeys: "finite B \<Longrightarrow> set (sortedKeys B) = B"
  by (simp add: sortedKeys_def)

lemma finite_ref_bundles: "finite (ref_bundles r refs)"
proof (rule finite_subset)
  show "ref_bundles r refs \<subseteq> (\<lambda>ref. evidenceBundleForRef ref (info_of (the (inside (repo_tree r) (ref_path ref))))) ` set refs"
    by (force simp: ref_bundles_def dest: safe_form_path)
qed simp

lemma evidence_checkRepo_iff:
  assumes "distinct_names (repo_tree r)"
  shows "evidence_checkRepo r = Inr [] \<longleftrightarrow> baseline_conforms r \<and> bundles_conform r"
proof -
  have "evidence_checkRepo r = Inr [] \<longleftrightarrow> refers r baselineRef {Regular}
      \<and> (\<exists>rows B D bundles. parseBaselineIndex r baseline_path = Inr (rows, []) \<and> check_rows r rows = Inr ([], B, D)
           \<and> checkSummaryDocsManifest r (sortedKeys D) = [] \<and> discoverEvidenceBundles r = Inr (bundles, [])
           \<and> (\<forall>b \<in> set (sortedKeys (B \<union> set bundles)). checkBundle r b = []))"
  proof (cases "lstatRepoRelative r baselineRef baselineRef")
    case (Path_Info full info)
    note checks = evidence_checkRepo_def Path_Info refers_lstat [OF Path_Info]
    show ?thesis
    proof (cases "parseBaselineIndex r baseline_path")
      case (Inr out)
      obtain rows fs where out: "out = (rows, fs)" by force
      show ?thesis
      proof (cases "check_rows r rows")
        case checked: (Inr found)
        obtain gs B D where "found = (gs, B, D)" by (cases found) auto
        then show ?thesis
          using Inr out checked by (cases "discoverEvidenceBundles r") (auto simp: checks concat_eq_Nil_conv)
      qed (use Inr out in \<open>simp add: checks\<close>)
    qed (simp add: checks)
  qed (use lstat_findings [of r baselineRef baselineRef] in \<open>auto simp: evidence_checkRepo_def refers_info [where p = baselineRef]\<close>)
  also have "\<dots> \<longleftrightarrow> refers r baselineRef {Regular}
      \<and> (\<exists>rows. parseBaselineIndex r baseline_path = Inr (rows, []) \<and> list_all (row_conforms r) rows
           \<and> (\<forall>row \<in> set rows. \<forall>b \<in> ref_bundles r (fst (raw_refs row)). bundle_at r b)
           \<and> readSummaryDocsManifest r = Inr (sortedKeys (\<Union>row \<in> set rows. set (fst (row_refs row))), []))
      \<and> (\<exists>p s es. inside (repo_tree r) [''docs'', ''evidence''] = Some (Dir p None s es) \<and> (\<forall>b \<in> set (bundle_names es). bundle_at r b))"
    unfolding check_rows_iff checkSummaryDocsManifest_iff discover_iff checkBundle_iff [OF assms]
    by (simp add: set_sortedKeys finite_ref_bundles ball_Un) blast
  also have "\<dots> \<longleftrightarrow> baseline_conforms r \<and> bundles_conform r"
    by (simp only: baseline_conforms_def bundles_conform_def all_bundle_names conj_assoc)
  finally show ?thesis .
qed

section \<open>Properties\<close>

text \<open>C39. The evidence check is exact. On a file system, where no directory has two entries of one name, the tool
  exits with 0 if and only if the repository conforms: the baseline is a regular file inside the repository whose
  table parses without findings; every raw artifact and summary document that it refers to is inside the
  repository and is no link, and a summary document is no directory; the manifest lists exactly the summary
  documents; and every bundle, below docs/evidence or referred to, is a directory inside the repository with a
  readme, whose checksums are right and cover every file in it that is not ignored. What the rows of the table and the
  lines of the manifest are is what the tool's own readers make of the two files: for the table,
  \<open>parseBaselineIndex\<close>, for the manifest, \<open>readSummaryDocsManifest\<close>, of which C37 shows that it reads back what the
  tool writes; the checksum file is specified by its lines (C38).\<close>

theorem evidence_check_exact:
  assumes "distinct_names (repo_tree r)" and "\<not> list_summary_docs flags" and "\<not> write_summary_docs flags"
  shows "exit_status (fst (evidence_main flags w r)) = 0 \<longleftrightarrow> baseline_conforms r \<and> bundles_conform r"
proof -
  have "exit_status (fst (evidence_main flags w r)) = 0 \<longleftrightarrow> evidence_checkRepo r = Inr []"
    using assms(2,3) by (auto simp: evidence_main_def tool_failed_def tool_found_def tool_passed_def split: sum.splits)
  then show ?thesis using evidence_checkRepo_iff [OF assms(1)] by simp
qed

end
