(* ===== verification/Evidence_Sample.thy ===== *)
theory Evidence_Sample
  imports Evidence_Main
begin

text \<open>
  A repository that passes the check of the evidence baseline: one lane, one bundle with one raw file, one summary
  document. The bundle's checksum is that of its file, whatever it is.
\<close>

definition sample_tree :: "string \<Rightarrow> repo" where
  "sample_tree sums = \<lparr>repo_root = ''../..'', repo_search = None,
     repo_entries = [(''docs'', Dir 493 None None [
        (''evidence'', Dir 493 None None [(''fuzz'', Dir 493 None None [(''README.md'', File 420 None ''Fuzz'' None),
           (''SHA256SUMS'', File 420 None sums None), (''data.txt'', File 420 None ''data'' None)])]),
        (''evidence-baseline-summary-docs.txt'', File 420 None (manifest_content [''docs/fuzz.md'']) None),
        (''evidence-baseline.md'', File 420 None sample_baseline None),
        (''fuzz.md'', File 420 None [] None)])],
     repo_links = (\<lambda>target path. Inl ENOENT)\<rparr>"

definition sample_entry :: checksumEntry where
  "sample_entry = \<lparr>ce_hash = sha256_hex ''data'', ce_path = ''data.txt''\<rparr>"

definition sample_checked :: repo where
  "sample_checked = sample_tree (sum_line sample_entry @ [CHR 0x0A])"

lemma sample_inside:
  "inside (repo_tree (sample_tree sums)) [''docs'', ''evidence-baseline.md''] = Some (File 420 None sample_baseline None)"
  "inside (repo_tree (sample_tree sums)) manifest_path = Some (File 420 None (manifest_content [''docs/fuzz.md'']) None)"
  "inside (repo_tree (sample_tree sums)) [''docs'', ''fuzz.md''] = Some (File 420 None [] None)"
  "inside (repo_tree (sample_tree sums)) [''docs'', ''evidence''] = Some (Dir 493 None None
     [(''fuzz'', Dir 493 None None [(''README.md'', File 420 None ''Fuzz'' None), (''SHA256SUMS'', File 420 None sums None),
        (''data.txt'', File 420 None ''data'' None)])])"
  "inside (repo_tree (sample_tree sums)) [''docs'', ''evidence'', ''fuzz''] = Some (Dir 493 None None
     [(''README.md'', File 420 None ''Fuzz'' None), (''SHA256SUMS'', File 420 None sums None),
      (''data.txt'', File 420 None ''data'' None)])"
  by (simp_all add: sample_tree_def repo_tree_def manifest_path_def)

lemma sample_forms:
  "safe_form baselineRef True [''docs'', ''evidence-baseline.md'']" "safe_form ''docs/fuzz.md'' True [''docs'', ''fuzz.md'']"
  "safe_form rootRef True [''docs'', ''evidence'']" "safe_form ''docs/evidence/fuzz/'' True [''docs'', ''evidence'', ''fuzz'']"
  "safe_form ''docs/evidence/fuzz'' True [''docs'', ''evidence'', ''fuzz'']"
  by code_simp+

lemma sample_lstat:
  assumes "safe_form ref True path" and "inside (repo_tree r) path = Some f"
  shows "lstatRepoRelative r ref findingPath = Path_Info path (info_of f)"
  using assms by (auto simp: lstatRepoRelative_iff)

lemmas sample_lstats = sample_lstat [OF sample_forms(1) sample_inside(1)] sample_lstat [OF sample_forms(2) sample_inside(3)]
  sample_lstat [OF sample_forms(3) sample_inside(4)] sample_lstat [OF sample_forms(4) sample_inside(5)]
  sample_lstat [OF sample_forms(5) sample_inside(5)]

lemma sample_parse:
  "parseBaselineIndex (sample_tree sums) baseline_path =
     Inr ([\<lparr>lane = ''Fuzz'', rawCell = ''`docs/evidence/fuzz/`'', summaryCell = ''`docs/fuzz.md`''\<rparr>], [])"
proof -
  have "ReadFile (sample_tree sums) baseline_path = Inr sample_baseline"
    using inside_walk [OF sample_inside(1)] by (simp add: ReadFile_def Open_def resolve_def baseline_path_def)
  then show ?thesis using sample_index by (auto simp: parseBaselineIndex_def sample_scan split: prod.split)
qed

lemma sample_rows:
  "check_rows (sample_tree sums) [\<lparr>lane = ''Fuzz'', rawCell = ''`docs/evidence/fuzz/`'', summaryCell = ''`docs/fuzz.md`''\<rparr>] =
     Inr ([], {''docs/evidence/fuzz''}, {''docs/fuzz.md''})"
proof -
  have "evidenceRefs ''`docs/evidence/fuzz/`'' p = ([''docs/evidence/fuzz/''], [])" for p by code_simp
  moreover have "summaryRefs ''`docs/fuzz.md`'' p = ([''docs/fuzz.md''], [])" for p by code_simp
  moreover have "evidenceBundleForRef ''docs/evidence/fuzz/'' (info_of (Dir p l s es)) = ''docs/evidence/fuzz''" for p l s es
    by (simp add: evidenceBundleForRef_def info_of_def file_type_def trim_right_def Let_def)
  ultimately show ?thesis by (simp add: sample_lstats file_type_def)
qed

lemma sample_manifest: "checkSummaryDocsManifest (sample_tree sums) [''docs/fuzz.md''] = []"
proof -
  have "list_all manifest_ref [''docs/fuzz.md'']"
    by (simp add: manifest_ref_def text_line_def maxScanTokenSize_def suffix_singleton TrimSpace_id is_space_def)
  then show ?thesis
    using readSummaryDocsManifest_file [OF sample_inside(2)] parse_manifest_content by (simp add: checkSummaryDocsManifest_iff)
qed

lemma sample_discover: "discoverEvidenceBundles (sample_tree sums) = Inr ([''docs/evidence/fuzz''], [])"
proof -
  have "bundle_names [(''fuzz'', Dir p l s es)] = [''docs/evidence/fuzz'']" for p l s es
    by (simp add: bundle_names_def file_type_def)
  then show ?thesis
    using inside_walk [OF sample_inside(4)] by (simp add: discoverEvidenceBundles_def sample_lstats ReadDir_def resolve_def file_type_def)
qed

lemma sum_line_text_line:
  assumes "valid_entry e" and "66 + length (ce_path e) < maxScanTokenSize"
  shows "text_line (sum_line e)"
proof -
  have "length (ce_hash e) = 64" "CHR 0x0A \<notin> set (ce_hash e)"
    using assms(1) hex_not_space [of "CHR 0x0A"] by (auto simp: valid_entry_def sha256Hex_match_def list_all_iff is_space_def)
  moreover have "CHR 0x0A \<notin> set (ce_path e)" "ce_path e \<noteq> []" "last (ce_path e) \<noteq> CHR 0x0D"
    using assms(1) valid_path [OF assms(1)] last_in_set [of "ce_path e"] by (force simp: valid_entry_def)+
  ultimately show ?thesis using assms(2) by (auto simp: text_line_def sum_line_def suffix_singleton)
qed

lemma sample_entry_valid: "valid_entry sample_entry"
proof -
  have "safe_form ''data.txt'' False [''data.txt'']" by code_simp
  then show ?thesis
    by (auto simp: valid_entry_def sample_entry_def sha256Hex_match_def sha256_hex_def EncodeToString_lower)
qed

lemma sample_sums: "sums_content (sum_line sample_entry @ [CHR 0x0A]) [sample_entry]"
proof -
  have "text_line (sum_line sample_entry)"
    by (intro sum_line_text_line sample_entry_valid) (simp add: sample_entry_def maxScanTokenSize_def)
  then have "scan_lines (sum_line sample_entry @ [CHR 0x0A]) = ([sum_line sample_entry], None)"
    using scan_lines_lines [of "[sum_line sample_entry]"] by simp
  then show ?thesis by (simp add: sums_content_def sum_line_text sample_entry_valid)
qed

abbreviation sample_dir :: "string \<Rightarrow> inode" where
  "sample_dir sums \<equiv> Dir 493 None None [(''README.md'', File 420 None ''Fuzz'' None), (''SHA256SUMS'', File 420 None sums None),
     (''data.txt'', File 420 None ''data'' None)]"

lemma sample_bundle: "checkBundle sample_checked ''docs/evidence/fuzz'' = []"
proof -
  let ?path = "[''docs'', ''evidence'', ''fuzz'']" and ?sums = "sum_line sample_entry @ [CHR 0x0A]"
  let ?r = "sample_tree ?sums"
  note dir = sample_inside(5) [of ?sums]
  note lstat = Lstat_inside [OF dir]
  have control: "validateBundleControlFile ?r ?path b ''README.md'' = ([], True)"
      "validateBundleControlFile ?r ?path b ''SHA256SUMS'' = ([], True)"
      "validateOptionalBundleControlFile ?r ?path b ''SHA256SUMS.sig'' = []" for b
    using lstat [of "''README.md''"] lstat [of "''SHA256SUMS''"] lstat [of "''SHA256SUMS.sig''"]
    by (simp_all add: validateBundleControlFile_def validateOptionalBundleControlFile_def not_exist_def)
  have "inside (repo_tree ?r) (?path @ [''SHA256SUMS'']) = Some (File 420 None ?sums None)"
    using inside_snoc [OF dir] by simp
  then have "Open ?r (?path @ [''SHA256SUMS'']) = Inr (?sums, None)" by (subst Open_inside) auto
  then have parse: "parseSHA256SUMS ?r (?path @ [''SHA256SUMS'']) p = Inr ([sample_entry], [])" for p
    using sample_sums by (subst parse_sums_iff) blast
  have "has_content (sample_dir ?sums) [''data.txt''] ''data''" by (simp add: has_content_def)
  then have verify: "verifySHA256Entry ?r ?path b sample_entry = []" for b
    by (subst verify_iff [OF dir refl]) (auto simp: sample_entry_def)
  have "walk_dir ?r ?path b None [] (sample_dir ?sums) = Inr ([''data.txt''], [])" for b
    by (simp add: visit_def ignoredBundleEntry_def)
  then have raw: "bundleRawFiles ?r ?path b = Inr ([''data.txt''], [])" for b
    using inside_walk [OF dir] by (simp add: bundleRawFiles_def)
  have "check_sums ?r ?path b = []" for b
    using parse verify raw by (simp add: check_sums_def sample_entry_def)
  then show ?thesis
    using control by (simp add: checkBundle_def sample_checked_def sample_lstats)
qed

lemma sample_passes: "evidence_checkRepo sample_checked = Inr []"
  by (simp del: check_rows.simps add: evidence_checkRepo_def sample_checked_def [symmetric] sample_bundle sortedKeys_def
      sample_lstats [of "sum_line sample_entry @ [CHR 0x0A]", folded sample_checked_def]
      sample_parse [of "sum_line sample_entry @ [CHR 0x0A]", folded sample_checked_def]
      sample_rows [of "sum_line sample_entry @ [CHR 0x0A]", folded sample_checked_def]
      sample_manifest [of "sum_line sample_entry @ [CHR 0x0A]", folded sample_checked_def]
      sample_discover [of "sum_line sample_entry @ [CHR 0x0A]", folded sample_checked_def])

lemma sample_names: "distinct_names (repo_tree sample_checked)"
  by (simp add: sample_checked_def sample_tree_def repo_tree_def)

lemma evidence_check_exact_witness:
  "exit_status (fst (evidence_main \<lparr>list_summary_docs = False, write_summary_docs = False\<rparr> sample_writing sample_checked)) = 0
   \<and> baseline_conforms sample_checked \<and> bundles_conform sample_checked"
proof -
  have pass: "exit_status (fst (evidence_main \<lparr>list_summary_docs = False, write_summary_docs = False\<rparr> sample_writing sample_checked)) = 0"
    by (simp add: evidence_main_def sample_passes tool_passed_def)
  then show ?thesis
    using evidence_check_exact [OF sample_names, of "\<lparr>list_summary_docs = False, write_summary_docs = False\<rparr>" sample_writing] by simp
qed

end
