(* ===== verification/Spec2Isabelle.thy ===== *)
theory Spec2Isabelle
  imports Protocol Service Concurrency Release_Sample Release_Main Evidence_Sample
begin

text \<open>
  A model of the Go module \<open>github.com/the-sarge/cpace\<close>, a CPace password-authenticated key exchange over
  ristretto255 (draft-irtf-cfrg-cpace-21, suite CPACE-RISTR255-SHA512), and of its two release tools. This theory
  imports the others and holds no definitions; it says what they model and what they show.

  \<^bold>\<open>The program.\<close> Package \<open>cpace\<close> is an initiator-responder protocol in three messages. \<open>Start\<close> (api.go) takes the caller's
  \<open>Input\<close>, copies and checks it (input.go), derives the generator and samples a scalar (crypto.go), and returns an
  \<open>Initiator\<close> with message A; \<open>Respond\<close> takes an \<open>Input\<close> and message A and returns a \<open>Responder\<close> with message B and the
  responder's confirmation tag; \<open>Initiator.Finish\<close> checks message B and returns message C with a \<open>Session\<close>;
  \<open>Responder.Finish\<close> checks message C and returns its \<open>Session\<close>. The state of a role is a core (core.go) behind a single-use
  guard with a mutex (terminal_state.go) that all copies share; a session (session.go) exports keys until it is
  closed. Messages are framed as length-value fields with caps (framing.go, length_value.go, caps.go). The program
  tools/releasepolicy checks the release workflow and other files of the repository against a policy written in its
  source; tools/evidencebaseline checks, or regenerates, the index of the evidence files.

  \<^bold>\<open>The theories.\<close> In the order of their imports, with the Go files they model:

  \<^item> Prelude: Go results, byte strings, lists, and the locale \<open>prefix_code\<close> of uniquely decodable codes.
  \<^item> Errors (errors.go): the sentinels, \<open>fmt.Errorf\<close> with \<open>%w\<close>, and \<open>errors.Is\<close>.
  \<^item> Length_Value (length_value.go): LEB128 and length-value concatenation; both interpret \<open>prefix_code\<close>.
  \<^item> Caps (caps.go) and Framing (framing.go): the message specifications, encoder and decoder. The locale \<open>message_codec\<close>
    states what a codec promises, \<open>record_codec\<close> the same for message structs; the three messages interpret it.
  \<^item> Ristretto: the interface of the third-party group package and of the random source, as a record of functions, with
    the documented laws that theorems assume by name, and the residues modulo 7 as an instance for the witnesses.
  \<^item> Go_Crypto: SHA-512, HMAC and HKDF of Go's library, executable; Go_Sha256: SHA-256 and hexadecimal text.
  \<^item> Store: the memory. Slices, scalars, elements and structs are numbered cells; \<open>clone\<close> of bytes.go and the
    clearing helpers of crypto.go; the relations \<open>keeps\<close>, \<open>scrubs\<close>, \<open>frame\<close> and \<open>allocates\<close>, which say what a step leaves
    alone and what bytes it leaves behind, and \<open>leaves\<close>, which bounds the values of the bytes and of the group elements in it.
    A temporary that holds a secret has a cell although the code keeps no pointer to it: the receivers of
    \<open>Element.ScalarMult\<close> and \<open>SetCanonicalBytes\<close>, the tags, and the key in an HMAC object.
  \<^item> Crypto (crypto.go), Peer_Share (peer_share.go), Transcript (transcript.go), Input (input.go), Session (session.go), Core
    (core.go), Terminal_State (terminal_state.go, with the locale \<open>single_use_core\<close>, interpreted by both roles), Api (api.go):
    one group of definitions per function of the file, under the function's name (a method has its type's name in
    front, as \<open>Initiator_Finish\<close>), then closed forms, a contract, and the properties.
  \<^item> Finish: the contracts of \<open>Finish\<close> and \<open>Close\<close>, and single use.
  \<^item> Protocol: both roles together: an honest exchange, authentication, reflection.
  \<^item> Objects and Service: any number of exchanges in one memory. An event-labelled step relation over all calls of the package
    and all writes of the calling program, the abstract service (a table from handles to values) and the
    simulation between them, an interpretation of the locale \<open>simulation\<close>.
  \<^item> Concurrency: the mutex of terminal_state.go, statement by statement.
  \<^item> Go_Strings, Go_Os, Yaml: what the tools use of \<open>strings\<close>, \<open>fmt\<close>, \<open>bufio\<close>, of \<open>os\<close> and \<open>filepath\<close> on a file tree, and of
    the node type of yaml.v3. Findings: the findings of both tools, and their order as the closure of sort.Slice.
  \<^item> Release_Policy (policy.go), Release_Checker (the workflow checks of main.go), Release_Files (its other checks), Scan_Policy
    (gosec_policy.go), Release_Main (\<open>checkRepo\<close> and \<open>main\<close>), all in tools/releasepolicy. Release_Correct and Release_Main
    state declaratively what the checks accept; Release_Sample gives the workflow of any well-formed policy, which they accept.
  \<^item> Evidence_Paths, Evidence_Index, Evidence_Bundle, Evidence_Main (main.go of tools/evidencebaseline: references and paths, the
    table and the manifest, the bundles, \<open>checkRepo\<close> and \<open>main\<close>). Evidence_Manifest, Evidence_Correct and Evidence_Main
    show what they accept and write; Evidence_Sample is a repository that passes.

  \<^bold>\<open>What is shown.\<close> For the package: every entry point implements a specification on values, with the order of its checks, and
  on every path erases the secrets that the code clears (the password, the scalars, the generator, the encoded shared secret,
  the session key unless it goes to the session), changes nothing else, and leaves in new memory only what the
  statements list (Api, Finish). That list has what the code never clears: the group element of the shared secret that the
  verified multiplication computes into, the decoded share, the MAC key inside the HMAC objects and the two tags; C3
  shows that the element of the shared secret does remain. The package under any program
  implements the abstract service, with disjoint ownership of memory (Service); an honest exchange agrees on
  the key, and an accepted tag fixes the peer's view up to named hash collisions (Protocol); states are single use,
  also under concurrent claims (Finish, Concurrency); the wire codecs are exact, delimited, total and bounded (Framing,
  Length_Value); the hashed strings are injective (Crypto, Input, Session, Transcript); sampling stops after 128 reads
  (Crypto). For the tools: the release policy tool exits with 0 exactly on the repositories that a declarative
  contract describes, and such a workflow gates its release job (Release_Correct, Release_Main); references never leave the
  repository or follow links, the manifest round trip, the checksum parser is exact, and the evidence check passes exactly
  the repositories whose baseline, manifest and bundles conform (Evidence theories).

  \<^bold>\<open>Conventions.\<close> A \<open>(T, error)\<close> result is \<open>Ok\<close>, \<open>Err\<close> or \<open>Panic\<close>. Integers are 64-bit where the code shifts or converts them
  and \<open>int\<close> where it only compares sizes that the caps bound. A slice is its whole backing array, as all slices that the package
  keeps, clears or returns are. Deferred calls are written out at every exit. Equality of tags is \<open>hmac.Equal\<close>: timing is not
  modelled. Loops are structural recursion, with two bounds of the code: 128 tries of a scalar (\<open>maxScalarTries\<close>) and lines
  of 65536 bytes (\<open>bufio.Scanner\<close>); there is no other fuel. Methods of the package are single steps of the store; the theory
  Concurrency justifies it for the claims, the only operations whose outcome depends on a race for the guard. Strings of the
  tools are ASCII. The file tree of the tools is a value that nothing else changes while they run (its root may be missing, be
  a file or not be searchable; a device has the contents that reading it gives); what lies beyond a symbolic
  link is a parameter. Ranges over Go maps appear in sorted order, since all findings are sorted before they are
  printed (\<open>bundle_order\<close>).

  \<^bold>\<open>Not modelled.\<close> The group arithmetic of ristretto255, \<open>crypto/rand\<close> and the parser of yaml.v3 are not in this repository and are
  parameters. doc.go holds comments only. Tests, fuzz targets, scripts and workflows are not part of the
  program; flag parsing is a record of the flags, and a tool's output is a value. Memory that Go's runtime copies or keeps
  after collection is outside the model, as the comment of \<open>Session.Close\<close> says; so is working memory inside the functions
  of Go's library and of the group package, other than the key of an HMAC object.
\<close>

end
